(* ===== verification/Prelude.thy ===== *)
theory Prelude
  imports Main "HOL-Library.Word" "HOL-Library.AList"
begin

text \<open>
  Shared ground of the development: the machine integer types of the C++ code, its exceptions
  as values, sequencing of operations that may throw part-way, and the generic facts on lists,
  association lists and words that the component theories use.

  An operation of a class is a function of the object's state. One that cannot throw returns the
  new state (with its result, if it has one). One that can throw returns a pair of an \<open>outcome\<close>
  and the state \<^emph>\<open>as it is when the operation ends\<close>: a C++ exception does not undo the writes made
  before the \<open>throw\<close>, and the model keeps them.
\<close>

section \<open>Machine integers\<close>

unbundle bit_operations_syntax

type_synonym u8 = "8 word"
type_synonym u16 = "16 word"
type_synonym u32 = "32 word"
type_synonym u64 = "64 word"

section \<open>Exceptions\<close>

text \<open>
  \<open>std::logic_error\<close> and \<open>std::runtime_error\<close> with their messages, and undefined behaviour
  (an unchecked vector or pointer access outside its range), for which the C++ standard promises
  nothing: the model stops there with the place that caused it.
\<close>

datatype exn =
    Logic_error string
  | Runtime_error string
  | Undefined_behaviour string

type_synonym 'a outcome = "exn + 'a"

definition throw :: "exn \<Rightarrow> 's \<Rightarrow> 'a outcome \<times> 's" where
  "throw e s = (Inl e, s)"

definition return_with :: "'a \<Rightarrow> 's \<Rightarrow> 'a outcome \<times> 's" where
  "return_with x s = (Inr x, s)"

text \<open>The next statement runs only when the previous one did not throw.\<close>

definition and_then :: "'a outcome \<times> 's \<Rightarrow> ('a \<Rightarrow> 's \<Rightarrow> 'b outcome \<times> 's) \<Rightarrow> 'b outcome \<times> 's" where
  "and_then r k = (case r of (Inl e, s) \<Rightarrow> (Inl e, s) | (Inr x, s) \<Rightarrow> k x s)"

text \<open>What stack unwinding does to the state before the exception leaves the function.\<close>

definition on_throw :: "('s \<Rightarrow> 's) \<Rightarrow> 'a outcome \<times> 's \<Rightarrow> 'a outcome \<times> 's" where
  "on_throw clean r = (case r of (Inl e, s) \<Rightarrow> (Inl e, clean s) | (Inr x, s) \<Rightarrow> (Inr x, s))"

text \<open>An operation of a member object, run on the object that holds it.\<close>

definition on_member :: "('t \<Rightarrow> 's \<Rightarrow> 's) \<Rightarrow> 's \<Rightarrow> 'a outcome \<times> 't \<Rightarrow> 'a outcome \<times> 's" where
  "on_member put s r = (fst r, put (snd r) s)"

text \<open>A loop that pushes the result of a fallible call for each element onto a vector.\<close>

fun outcome_map :: "('a \<Rightarrow> 'b outcome) \<Rightarrow> 'a list \<Rightarrow> 'b list outcome" where
  "outcome_map f [] = Inr []"
| "outcome_map f (x # xs) =
     (case f x of Inl e \<Rightarrow> Inl e
      | Inr y \<Rightarrow> (case outcome_map f xs of Inl e \<Rightarrow> Inl e | Inr ys \<Rightarrow> Inr (y # ys)))"

named_theorems outcome_simps \<open>evaluation of the outcome combinators\<close>

lemma throw_simps [simp, outcome_simps]:
  "fst (throw e s) = Inl e" "snd (throw e s) = s" "throw e s = (v, t) \<longleftrightarrow> v = Inl e \<and> t = s"
  by (auto simp: throw_def)

lemma return_with_simps [simp, outcome_simps]:
  "fst (return_with x s) = Inr x" "snd (return_with x s) = s"
  "return_with x s = (v, t) \<longleftrightarrow> v = Inr x \<and> t = s"
  by (auto simp: return_with_def)

lemma and_then_simps [simp, outcome_simps]:
  "and_then (Inl e, s) k = (Inl e, s)" "and_then (Inr x, s) k = k x s"
  "and_then (throw e s) k = throw e s" "and_then (return_with x s) k = k x s"
  by (simp_all add: and_then_def throw_def return_with_def)

lemma and_then_Inr:
  "and_then r k = (Inr y, t) \<longleftrightarrow> (\<exists>x s. r = (Inr x, s) \<and> k x s = (Inr y, t))"
  by (cases r) (auto simp: and_then_def split: sum.splits)

lemma and_then_cong_fst:
  "fst r = Inr x \<Longrightarrow> and_then r k = k x (snd r)"
  by (cases r) auto

text \<open>What holds after the first statement and after each that follows it holds at the end, thrown or not.\<close>

lemma and_then_keeps:
  "P (snd r) \<Longrightarrow> (\<And>x s. r = (Inr x, s) \<Longrightarrow> P (snd (k x s))) \<Longrightarrow> P (snd (and_then r k))"
  by (cases r) (auto simp: and_then_def split: sum.splits)

lemma on_throw_simps [simp, outcome_simps]:
  "on_throw f (Inl e, s) = (Inl e, f s)" "on_throw f (Inr x, s) = (Inr x, s)"
  "on_throw f (throw e s) = throw e (f s)" "on_throw f (return_with x s) = return_with x s"
  by (simp_all add: on_throw_def throw_def return_with_def)

lemma on_throw_Inr: "on_throw f r = (Inr x, s) \<longleftrightarrow> r = (Inr x, s)"
  by (cases r) (auto simp: on_throw_def split: sum.splits)

lemma on_member_simps [simp, outcome_simps]:
  "fst (on_member put s r) = fst r" "snd (on_member put s r) = put (snd r) s"
  by (simp_all add: on_member_def)

lemma on_member_eq:
  "on_member put s r = (v, t) \<longleftrightarrow> (\<exists>m. r = (v, m) \<and> t = put m s)"
  by (cases r) (auto simp: on_member_def)

lemma outcome_map_Inr:
  "outcome_map f xs = Inr ys \<longleftrightarrow> list_all2 (\<lambda>x y. f x = Inr y) xs ys"
proof (induction xs arbitrary: ys)
  case (Cons x xs)
  show ?case
    by (cases "f x"; cases "outcome_map f xs") (auto simp: list_all2_Cons1 Cons.IH [symmetric])
qed auto

lemma outcome_map_pure [simp]: "(\<And>x. x \<in> set xs \<Longrightarrow> f x = Inr (g x)) \<Longrightarrow> outcome_map f xs = Inr (map g xs)"
  by (induction xs) auto

section \<open>Lists and association lists\<close>

lemma nth_list_update_if:
  "i < length xs \<Longrightarrow> xs[i := x] ! j = (if i = j then x else xs ! j)"
  by simp

lemma distinct_butlast_notin: "distinct xs \<Longrightarrow> xs \<noteq> [] \<Longrightarrow> last xs \<notin> set (butlast xs)"
  by (metis append_butlast_last_id distinct_append disjoint_iff list.set_intros(1))

lemma set_butlast_last: "xs \<noteq> [] \<Longrightarrow> set xs = insert (last xs) (set (butlast xs))"
  by (metis Un_insert_right append_butlast_last_id list.set(1) list.set(2) set_append sup_bot.right_neutral)

lemma map_of_update [simp]: "map_of (AList.update k v al) = (map_of al)(k \<mapsto> v)"
  by (rule update_conv')

lemma map_of_delete [simp]: "map_of (AList.delete k al) = (map_of al)(k := None)"
  by (rule delete_conv')

section \<open>Words\<close>

lemma unat_of_nat_u64 [simp]: "n < 2 ^ 64 \<Longrightarrow> unat (of_nat n :: u64) = n"
  by (simp add: unat_of_nat)

lemma unat_of_nat_u32 [simp]: "n < 2 ^ 32 \<Longrightarrow> unat (of_nat n :: u32) = n"
  by (simp add: unat_of_nat)

lemma unat_u32_lt: "unat (w :: u32) < 4294967296"
  using unsigned_less [of w] by simp

lemma unat_u32_lt_u64: "unat (w :: u32) < 18446744073709551616"
  using unat_u32_lt [of w] by linarith

lemma unat_u64_lt: "unat (w :: u64) < 18446744073709551616"
  using unsigned_less [of w] by simp

lemma of_nat_u32_eq_iff: "n < 4294967296 \<Longrightarrow> (of_nat n :: u32) = w \<longleftrightarrow> n = unat w"
  by (auto simp: unat_of_nat)

lemma of_nat_u32_eq_0: "n < 2 ^ 32 \<Longrightarrow> (of_nat n :: u32) = 0 \<longleftrightarrow> n = 0"
  by (auto simp: word_of_nat_eq_0_iff dest: dvd_imp_le)

lemma u64_less_plus_one:
  assumes "x \<noteq> (- 1 :: u64)"
  shows "x < x + 1"
proof -
  have "x < - 1" using assms word_n1_ge [of x] by (simp add: less_le)
  then have "unat x < unat (- 1 :: u64)" by (simp add: word_less_nat_alt)
  then have "unat (x + 1) = unat x + 1"
    by (simp add: unat_word_ariths unsigned_minus_1_eq_mask mask_eq_exp_minus_1)
  then show ?thesis by (simp add: word_less_nat_alt)
qed

lemma unat_ucast_u32_u64 [simp]: "unat (ucast (w :: u32) :: u64) = unat w"
  using unat_u32_lt_u64 [of w] by (simp add: unsigned_ucast_eq take_bit_nat_eq_self_iff)

lemma ucast_u32_u64_inject [simp]: "(ucast (a :: u32) :: u64) = ucast b \<longleftrightarrow> a = b"
  by (metis unat_ucast_u32_u64 unsigned_word_eqI)

lemma ucast_ucast_u32 [simp]: "(ucast (ucast (w :: u32) :: u64) :: u32) = w"
  by (rule bit_word_eqI) (auto simp: bit_simps dest: bit_imp_le_length)

lemma of_nat_unat_u64 [simp]: "of_nat (unat (w :: u64)) = w"
  by simp

end
