(* ===== verification/Ids.thy ===== *)
theory Ids
  imports Prelude
begin

unbundle bit_operations_syntax

text \<open>
  The plain data types of \<open>core/ids.h\<close>, \<open>core/dtype.h\<close>, \<open>core/cache_key.h\<close>,
  \<open>core/block_candidate.h\<close> and \<open>tier/tier.h\<close>. The strongly typed identifiers (\<open>enum class BlockId :
  uint64_t\<close> and its kin) are 64-bit words. A token is an \<open>int32_t\<close> of which the code
  uses equality and the bytes only; it is the word of its 32 bits.
\<close>

type_synonym block_id = u64
type_synonym node_id = u64
type_synonym request_id = u64
type_synonym model_id = u64
type_synonym tokenizer_id = u64
type_synonym token_id = u32
type_synonym context_hash = u64

record content_hash =
  hash_lo :: u64
  hash_hi :: u64

record global_block_ref =
  ref_node :: node_id
  ref_block :: block_id
  ref_generation :: u64

datatype block_origin = LocallyComputed | RemoteFetch

datatype fetch_fail_reason = FailNotFound | FailStaleGeneration | FailHashMismatch | FailTransportError

text \<open>\<open>std::hash<ContentHash>\<close>: \<open>std::hash<uint64_t>\<close> is a parameter, the mixing is the code's.\<close>

definition hash_content_hash :: "(u64 \<Rightarrow> u64) \<Rightarrow> content_hash \<Rightarrow> u64" where
  "hash_content_hash h c =
     (let h1 = h (hash_lo c); h2 = h (hash_hi c) in
      h1 XOR (h2 * 0x9e3779b97f4a7c15 + 0x6c62272e07bb0142 + push_bit 6 h1 + drop_bit 2 h1))"

section \<open>Memory tiers\<close>

datatype tier = GpuSim | Host

fun tier_name :: "tier \<Rightarrow> string" where
  "tier_name GpuSim = ''GPU_SIM''"
| "tier_name Host = ''HOST''"

section \<open>The cache key context\<close>

datatype dtype = BF16 | FP16 | FP32 | INT8

fun dtype_name :: "dtype \<Rightarrow> string" where
  "dtype_name BF16 = ''BF16''"
| "dtype_name FP16 = ''FP16''"
| "dtype_name FP32 = ''FP32''"
| "dtype_name INT8 = ''INT8''"

record cache_key_context =
  ck_model_id :: model_id
  ck_tokenizer_id :: tokenizer_id
  ck_block_size :: u32
  ck_dtype :: dtype
  ck_num_layers :: u32
  ck_num_kv_heads :: u32
  ck_head_dim :: u32
  ck_rope_config_hash :: u64
  ck_kv_layout_hash :: u64

section \<open>Block candidates\<close>

text \<open>\<open>bc_tokens\<close> holds the whole token sequence from position 0 to the end of this block.\<close>

record block_candidate =
  bc_context :: cache_key_context
  bc_block_index :: u32
  bc_tokens :: "token_id list"
  bc_hash :: content_hash
  bc_payload :: "u8 list"
  bc_origin :: block_origin
  bc_source_ref :: "global_block_ref option"

section \<open>Clock\<close>

text \<open>\<open>FakeClock\<close>: a 64-bit counter that wraps on overflow. \<open>RealClock\<close> reads the system's
  steady clock and ignores \<open>advanceNs\<close>; the models of the other components take the time as an
  argument, so they hold for both.\<close>

record fake_clock =
  current_ns :: u64

text \<open>\<open>RealClock\<close>: \<open>steady\<close> is the steady clock's count of nanoseconds.\<close>

definition real_clock_now :: "int \<Rightarrow> u64" where
  "real_clock_now steady = of_int steady"

definition real_clock_advance :: "u64 \<Rightarrow> int \<Rightarrow> int" where
  "real_clock_advance delta steady = steady"

definition make_fake_clock :: "u64 \<Rightarrow> fake_clock" where
  "make_fake_clock initial_ns = \<lparr>current_ns = initial_ns\<rparr>"

definition fake_clock_now :: "fake_clock \<Rightarrow> u64" where
  "fake_clock_now c = current_ns c"

definition fake_clock_advance :: "u64 \<Rightarrow> fake_clock \<Rightarrow> fake_clock" where
  "fake_clock_advance delta c = c\<lparr>current_ns := current_ns c + delta\<rparr>"

definition fake_clock_reset :: "u64 \<Rightarrow> fake_clock \<Rightarrow> fake_clock" where
  "fake_clock_reset ns c = c\<lparr>current_ns := ns\<rparr>"

end
