(* ===== verification/Block_Pool.thy ===== *)
theory Block_Pool
  imports Ids
begin

text \<open>
  \<open>core/block_pool.{h,cc}\<close>: a fixed set of slots with a LIFO free list and a generation counter
  per slot, so that a reference to a slot's earlier occupant can be told from its present one.
  \<open>free_list_\<close> is a vector used as a stack whose top is its back, so \<open>push_back\<close> appends.
\<close>

section \<open>State and operations\<close>

record block_pool =
  bp_capacity :: u32
  bp_generations :: "u64 list"
  bp_in_use :: "bool list"
  bp_free :: "block_id list"

definition slot_of :: "block_id \<Rightarrow> nat" where
  "slot_of i = unat i"

text \<open>The constructor's loop \<open>for (i = capacity; i > 0; --i) push_back(i - 1)\<close>.\<close>

fun initial_free_list :: "nat \<Rightarrow> block_id list" where
  "initial_free_list 0 = []"
| "initial_free_list (Suc i) = of_nat i # initial_free_list i"

definition make_pool :: "u32 \<Rightarrow> block_pool" where
  "make_pool c = \<lparr>bp_capacity = c,
     bp_generations = replicate (unat c) 0,
     bp_in_use = replicate (unat c) False,
     bp_free = initial_free_list (unat c)\<rparr>"

definition pool_allocate :: "block_pool \<Rightarrow> (block_id \<times> u64) option \<times> block_pool" where
  "pool_allocate p =
     (if bp_free p = [] then (None, p)
      else
        let i = last (bp_free p);
            slot = slot_of i;
            gens = (if bp_generations p ! slot = 0
                    then (bp_generations p)[slot := 1] else bp_generations p)
        in (Some (i, gens ! slot),
            p\<lparr>bp_free := butlast (bp_free p),
              bp_generations := gens,
              bp_in_use := (bp_in_use p)[slot := True]\<rparr>))"

definition pool_free :: "block_id \<Rightarrow> block_pool \<Rightarrow> unit outcome \<times> block_pool" where
  "pool_free i p =
     (let slot = slot_of i in
      if unat (bp_capacity p) \<le> slot \<or> \<not> bp_in_use p ! slot
      then throw (Logic_error ''BlockPool::free: double-free or invalid BlockId'') p
      else return_with ()
        (p\<lparr>bp_in_use := (bp_in_use p)[slot := False],
           bp_generations := (bp_generations p)[slot := bp_generations p ! slot + 1],
           bp_free := bp_free p @ [i]\<rparr>))"

definition pool_capacity :: "block_pool \<Rightarrow> u32" where
  "pool_capacity p = bp_capacity p"

definition pool_available :: "block_pool \<Rightarrow> u32" where
  "pool_available p = of_nat (length (bp_free p))"

section \<open>Invariant\<close>

text \<open>
  The free list holds exactly the slots not in use, each once; the vectors have one entry per
  slot, so no access is out of range; a slot in use has a generation other than 0, the value
  that marks a slot never used.
\<close>

definition pool_inv :: "block_pool \<Rightarrow> bool" where
  "pool_inv p \<longleftrightarrow>
     length (bp_generations p) = unat (bp_capacity p) \<and>
     length (bp_in_use p) = unat (bp_capacity p) \<and>
     distinct (bp_free p) \<and>
     (\<forall>i. i \<in> set (bp_free p) \<longleftrightarrow> slot_of i < unat (bp_capacity p) \<and> \<not> bp_in_use p ! slot_of i) \<and>
     (\<forall>slot < unat (bp_capacity p). bp_in_use p ! slot \<longrightarrow> bp_generations p ! slot \<noteq> 0)"

definition used_slots :: "block_pool \<Rightarrow> nat" where
  "used_slots p = length (filter id (bp_in_use p))"

lemma slot_of_of_nat: "n \<le> 4294967295 \<Longrightarrow> slot_of (of_nat n) = n"
  by (simp add: slot_of_def)

lemma slot_of_inject [simp]: "slot_of i = slot_of j \<longleftrightarrow> i = j"
  by (simp add: slot_of_def word_unat_eq_iff)

lemma set_initial_free_list:
  "n \<le> 4294967296 \<Longrightarrow> i \<in> set (initial_free_list n) \<longleftrightarrow> slot_of i < n"
proof (induction n)
  case (Suc n)
  have "i = of_nat n \<longleftrightarrow> slot_of i = n"
    using Suc.prems slot_of_inject [of i "of_nat n"] by (simp add: slot_of_of_nat)
  with Suc show ?case by auto
qed simp

lemma distinct_initial_free_list: "n \<le> 4294967296 \<Longrightarrow> distinct (initial_free_list n)"
  by (induction n) (auto simp: set_initial_free_list slot_of_of_nat)

lemma length_initial_free_list [simp]: "length (initial_free_list n) = n"
  by (induction n) auto

lemma pool_inv_make_pool: "pool_inv (make_pool c)"
proof -
  have "unat c \<le> 4294967296" by (rule less_imp_le [OF unat_u32_lt])
  then show ?thesis
    by (auto simp: pool_inv_def make_pool_def distinct_initial_free_list set_initial_free_list)
qed


text \<open>\<open>allocate\<close> on a pool with a free slot, spelled out.\<close>

lemma pool_allocate_None: "fst (pool_allocate p) = None \<longleftrightarrow> bp_free p = []"
  by (simp add: pool_allocate_def Let_def)

lemma pool_allocate_exhausted: "bp_free p = [] \<Longrightarrow> pool_allocate p = (None, p)"
  by (simp add: pool_allocate_def)

lemma pool_allocate_SomeD:
  assumes "pool_allocate p = (Some (i, g), p')"
  shows "bp_free p \<noteq> []" "i = last (bp_free p)"
    "g = (if bp_generations p ! slot_of i = 0 \<and> slot_of i < length (bp_generations p)
          then 1 else bp_generations p ! slot_of i)"
    "bp_capacity p' = bp_capacity p"
    "bp_free p' = butlast (bp_free p)"
    "bp_in_use p' = (bp_in_use p)[slot_of i := True]"
    "bp_generations p' = (if bp_generations p ! slot_of i = 0
       then (bp_generations p)[slot_of i := 1] else bp_generations p)"
  using assms by (auto simp: pool_allocate_def Let_def not_less list_update_beyond split: if_splits)

lemma pool_inv_allocate:
  assumes inv: "pool_inv p" and run: "pool_allocate p = (r, p')"
  shows "pool_inv p'"
proof (cases r)
  case None
  with run inv show ?thesis by (auto simp: pool_allocate_def Let_def split: if_splits)
next
  case (Some ig)
  then obtain i g where "pool_allocate p = (Some (i, g), p')" using run by (cases ig) auto
  note p' = pool_allocate_SomeD [OF this]
  have i: "slot_of i < unat (bp_capacity p)" "i \<notin> set (butlast (bp_free p))"
    using inv p' by (auto simp: pool_inv_def distinct_butlast_notin)
  have "j \<in> set (bp_free p') \<longleftrightarrow> slot_of j < unat (bp_capacity p') \<and> \<not> bp_in_use p' ! slot_of j" for j
    using inv p' i set_butlast_last [of "bp_free p"]
    by (cases "j = i") (auto simp: pool_inv_def nth_list_update)
  then show ?thesis
    using inv p' i by (auto simp: pool_inv_def nth_list_update distinct_butlast)
qed

lemma pool_free_eq:
  "pool_free i p =
     (if unat (bp_capacity p) \<le> slot_of i \<or> \<not> bp_in_use p ! slot_of i
      then throw (Logic_error ''BlockPool::free: double-free or invalid BlockId'') p
      else return_with () (snd (pool_free i p)))"
  by (simp add: pool_free_def Let_def)

lemma pool_free_okD:
  assumes "pool_free i p = (Inr u, p')"
  shows "slot_of i < unat (bp_capacity p)" "bp_in_use p ! slot_of i"
    "bp_capacity p' = bp_capacity p" "bp_free p' = bp_free p @ [i]"
    "bp_in_use p' = (bp_in_use p)[slot_of i := False]"
    "bp_generations p' = (bp_generations p)[slot_of i := bp_generations p ! slot_of i + 1]"
  using assms by (auto simp: pool_free_def Let_def split: if_splits)

lemma pool_free_throws: "pool_free i p = (Inl e, p') \<Longrightarrow> p' = p"
  by (auto simp: pool_free_def Let_def split: if_splits)

lemma pool_inv_free:
  assumes inv: "pool_inv p" and run: "pool_free i p = (r, p')"
  shows "pool_inv p'"
proof (cases r)
  case (Inl e)
  with run inv show ?thesis by (auto dest: pool_free_throws)
next
  case (Inr u)
  note p' = pool_free_okD [OF run [unfolded Inr]]
  have "j \<in> set (bp_free p') \<longleftrightarrow> slot_of j < unat (bp_capacity p') \<and> \<not> bp_in_use p' ! slot_of j" for j
    using inv p' by (cases "j = i") (auto simp: pool_inv_def nth_list_update)
  then show ?thesis
    using inv p' by (auto simp: pool_inv_def nth_list_update)
qed


section \<open>The allocator contract\<close>

text \<open>
  What the block manager relies on, stated over two observations of a pool: which ids are live
  (handed out and not freed), and the generation of an id's slot.
\<close>

definition pool_live :: "block_pool \<Rightarrow> block_id \<Rightarrow> bool" where
  "pool_live p i \<longleftrightarrow> slot_of i < unat (bp_capacity p) \<and> bp_in_use p ! slot_of i"

definition pool_gen :: "block_pool \<Rightarrow> block_id \<Rightarrow> u64" where
  "pool_gen p i = (if slot_of i < unat (bp_capacity p) then bp_generations p ! slot_of i else 0)"

text \<open>A sequence of calls on an allocator, with the log of the pairs it handed out, latest
  first. A throwing \<open>free\<close> is caught by the caller, which goes on.\<close>

datatype alloc_call = Call_allocate | Call_free block_id

fun alloc_run ::
  "('p \<Rightarrow> (block_id \<times> u64) option \<times> 'p) \<Rightarrow> (block_id \<Rightarrow> 'p \<Rightarrow> unit outcome \<times> 'p) \<Rightarrow>
   alloc_call list \<Rightarrow> (block_id \<times> u64) list \<Rightarrow> 'p \<Rightarrow> (block_id \<times> u64) list \<times> 'p" where
  "alloc_run al fr [] log p = (log, p)"
| "alloc_run al fr (Call_allocate # cs) log p =
     (case al p of (None, p') \<Rightarrow> alloc_run al fr cs log p'
                 | (Some ig, p') \<Rightarrow> alloc_run al fr cs (ig # log) p')"
| "alloc_run al fr (Call_free i # cs) log p = alloc_run al fr cs log (snd (fr i p))"

locale generational_allocator =
  fixes inv :: "'p \<Rightarrow> bool"
    and al :: "'p \<Rightarrow> (block_id \<times> u64) option \<times> 'p"
    and fr :: "block_id \<Rightarrow> 'p \<Rightarrow> unit outcome \<times> 'p"
    and live :: "'p \<Rightarrow> block_id \<Rightarrow> bool"
    and gen :: "'p \<Rightarrow> block_id \<Rightarrow> u64"
  assumes inv_al: "inv p \<Longrightarrow> al p = (r, p') \<Longrightarrow> inv p'"
    and inv_fr: "inv p \<Longrightarrow> fr i p = (v, p') \<Longrightarrow> inv p'"
    and al_None: "inv p \<Longrightarrow> al p = (None, p') \<Longrightarrow> p' = p"
    and al_Some: "inv p \<Longrightarrow> al p = (Some (i, g), p') \<Longrightarrow>
      \<not> live p i \<and> live p' = (live p)(i := True) \<and> gen p' = (gen p)(i := g) \<and>
      g = (if gen p i = 0 then 1 else gen p i)"
    and fr_ok: "inv p \<Longrightarrow> fr i p = (Inr u, p') \<Longrightarrow>
      live p i \<and> live p' = (live p)(i := False) \<and> gen p' = (gen p)(i := gen p i + 1)"
    and fr_err: "inv p \<Longrightarrow> fr i p = (Inl e, p') \<Longrightarrow> p' = p \<and> \<not> live p i"
begin

lemma al_gen_nonzero: "inv p \<Longrightarrow> al p = (Some (i, g), p') \<Longrightarrow> g \<noteq> 0"
  by (metis al_Some zero_neq_one)

lemma fr_cases:
  assumes "inv p"
  obtains (ok) p' where "fr i p = (Inr (), p')" "live p i" "live p' = (live p)(i := False)"
      "gen p' = (gen p)(i := gen p i + 1)"
    | (err) e where "fr i p = (Inl e, p)" "\<not> live p i"
proof (cases "fr i p")
  case (Pair v p')
  then show ?thesis
    using that fr_ok [OF assms, of i _ p'] fr_err [OF assms, of i _ p'] by (cases v) auto
qed

text \<open>The log never holds a pair twice: every pair in it is older than its slot's present
  generation, or is the pair of the slot's present occupant.\<close>

definition log_ok :: "nat \<Rightarrow> (block_id \<times> u64) list \<Rightarrow> 'p \<Rightarrow> bool" where
  "log_ok n log p \<longleftrightarrow> inv p \<and> distinct log \<and> (\<forall>i. unat (gen p i) \<le> n) \<and>
     (\<forall>i g. (i, g) \<in> set log \<longrightarrow> g < gen p i \<or> g = gen p i \<and> live p i)"

lemma log_ok_al:
  assumes ok: "log_ok n log p" and run: "al p = (Some (i, g), p')" and n: "0 < Suc n"
  shows "log_ok (Suc n) ((i, g) # log) p'"
proof -
  have inv: "inv p" using ok by (simp add: log_ok_def)
  note a = al_Some [OF inv run]
  have older: "h < gen p i" if "(i, h) \<in> set log" for h
    using ok a that by (force simp: log_ok_def)
  then have new: "(i, g) \<notin> set log" and le: "\<And>h. (i, h) \<in> set log \<Longrightarrow> h < g"
    using a by (force split: if_splits)+
  have "unat g \<le> Suc n"
    using a ok by (auto simp: log_ok_def intro: le_SucI)
  then show ?thesis
    using ok a new le inv_al [OF inv run]
    by (auto simp: log_ok_def intro: le_SucI)
qed

lemma log_ok_fr:
  assumes ok: "log_ok n log p" and n: "Suc n < 2 ^ 64"
  shows "log_ok (Suc n) log (snd (fr i p))"
proof -
  have inv: "inv p" using ok by (simp add: log_ok_def)
  from inv show ?thesis
  proof (cases rule: fr_cases [of p i])
    case (ok p')
    have "unat (gen p i) \<le> n" using assms by (simp add: log_ok_def)
    with n have step: "unat (gen p i + 1) = Suc (unat (gen p i))"
      by (simp add: unat_word_ariths)
    then have "g < gen p i + 1" if "g \<le> gen p i" for g
      using that by (simp add: word_less_nat_alt word_le_nat_alt)
    with ok \<open>log_ok n log p\<close> step inv_fr [OF inv ok(1)] show ?thesis
      by (fastforce simp: log_ok_def intro: le_SucI)
  qed (use assms in \<open>auto simp: log_ok_def intro: le_SucI\<close>)
qed

lemma log_ok_weaken: "log_ok n log p \<Longrightarrow> log_ok (Suc n) log p"
  by (auto simp: log_ok_def intro: le_SucI)

lemma log_ok_run:
  "log_ok n log p \<Longrightarrow> n + length cs < 2 ^ 64 \<Longrightarrow>
   case alloc_run al fr cs log p of (log', p') \<Rightarrow> log_ok (n + length cs) log' p'"
proof (induction cs arbitrary: n log p)
  case (Cons c cs)
  show ?case
  proof (cases c)
    case (Call_free i)
    have "log_ok (Suc n) log (snd (fr i p))"
      using Cons.prems by (intro log_ok_fr) auto
    then show ?thesis using Cons.IH [of "Suc n"] Cons.prems Call_free by simp
  next
    case Call_allocate
    obtain r p' where r: "al p = (r, p')" by fastforce
    show ?thesis
    proof (cases r)
      case None
      then have "p' = p" using Cons.prems r by (auto simp: log_ok_def dest: al_None)
      then show ?thesis
        using Cons.IH [OF log_ok_weaken [OF Cons.prems(1)]] Cons.prems r None Call_allocate
        by simp
    next
      case (Some ig)
      then have "log_ok (Suc n) (ig # log) p'"
        using Cons.prems r log_ok_al [of n log p "fst ig" "snd ig" p'] by simp
      then show ?thesis using Cons.IH [of "Suc n"] Cons.prems r Some Call_allocate by simp
    qed
  qed
qed simp

lemma run_distinct:
  assumes "inv p" "\<And>i. gen p i = 0" "length cs < 2 ^ 64"
  shows "distinct (fst (alloc_run al fr cs [] p))"
proof -
  have "log_ok 0 [] p" using assms by (simp add: log_ok_def)
  from log_ok_run [OF this, of cs] assms(3) show ?thesis
    by (auto simp: log_ok_def split: prod.splits)
qed

end

lemma pool_allocate_SomeE:
  assumes "pool_inv p" "pool_allocate p = (Some (i, g), p')"
  shows "slot_of i < unat (bp_capacity p)" "\<not> bp_in_use p ! slot_of i"
  using pool_allocate_SomeD [OF assms(2)] assms(1) by (auto simp: pool_inv_def)

interpretation pool: generational_allocator pool_inv pool_allocate pool_free pool_live pool_gen
proof unfold_locales
  fix p p' i g assume p: "pool_inv p" and r: "pool_allocate p = (Some (i, g), p')"
  note d = pool_allocate_SomeD [OF r] and i = pool_allocate_SomeE [OF p r]
  show "\<not> pool_live p i \<and> pool_live p' = (pool_live p)(i := True) \<and>
      pool_gen p' = (pool_gen p)(i := g) \<and> g = (if pool_gen p i = 0 then 1 else pool_gen p i)"
    using p d i by (auto simp: pool_live_def pool_gen_def pool_inv_def fun_eq_iff nth_list_update)
next
  fix p p' i u assume p: "pool_inv p" and r: "pool_free i p = (Inr u, p')"
  from pool_free_okD [OF r] p
  show "pool_live p i \<and> pool_live p' = (pool_live p)(i := False) \<and>
      pool_gen p' = (pool_gen p)(i := pool_gen p i + 1)"
    by (auto simp: pool_live_def pool_gen_def pool_inv_def fun_eq_iff nth_list_update)
next
  fix p p' i e assume "pool_inv p" and r: "pool_free i p = (Inl e, p')"
  then show "p' = p \<and> \<not> pool_live p i"
    by (auto simp: pool_free_def pool_live_def Let_def split: if_splits)
qed (auto intro: pool_inv_allocate pool_inv_free simp: pool_allocate_def Let_def split: if_splits)

lemma pool_gen_make_pool [simp]: "pool_gen (make_pool c) i = 0"
  by (simp add: pool_gen_def make_pool_def)

lemma pool_live_make_pool [simp]: "\<not> pool_live (make_pool c) i"
  by (simp add: pool_live_def make_pool_def)

section \<open>Accounting\<close>

lemma used_plus_free:
  assumes "pool_inv p"
  shows "used_slots p + length (bp_free p) = unat (bp_capacity p)"
proof -
  let ?n = "unat (bp_capacity p)"
  have "bij_betw slot_of (set (bp_free p)) {k. k < ?n \<and> \<not> bp_in_use p ! k}"
  proof (rule bij_betwI')
    fix k assume k: "k \<in> {k. k < ?n \<and> \<not> bp_in_use p ! k}"
    then have "slot_of (of_nat k) = k"
      using unat_u32_lt [of "bp_capacity p"] by (intro slot_of_of_nat) simp
    with k assms show "\<exists>x\<in>set (bp_free p). k = slot_of x"
      by (intro bexI [of _ "of_nat k"]) (auto simp: pool_inv_def)
  qed (use assms in \<open>auto simp: pool_inv_def\<close>)
  then have "card (set (bp_free p)) = card {k. k < ?n \<and> \<not> bp_in_use p ! k}"
    by (rule bij_betw_same_card)
  moreover have "distinct (bp_free p)" using assms by (simp add: pool_inv_def)
  ultimately have "length (bp_free p) = card {k. k < ?n \<and> \<not> bp_in_use p ! k}"
    by (simp add: distinct_card)
  moreover have "used_slots p = card {k. k < ?n \<and> bp_in_use p ! k}"
    using assms by (simp add: used_slots_def length_filter_conv_card pool_inv_def)
  moreover have "card {k. k < ?n \<and> bp_in_use p ! k} + card {k. k < ?n \<and> \<not> bp_in_use p ! k} = ?n"
  proof -
    have "{k. k < ?n \<and> bp_in_use p ! k} \<union> {k. k < ?n \<and> \<not> bp_in_use p ! k} = {..<?n}"
      by blast
    moreover have "{k. k < ?n \<and> bp_in_use p ! k} \<inter> {k. k < ?n \<and> \<not> bp_in_use p ! k} = {}"
      by blast
    ultimately show ?thesis
      using card_Un_disjoint [of "{k. k < ?n \<and> bp_in_use p ! k}" "{k. k < ?n \<and> \<not> bp_in_use p ! k}"]
      by simp
  qed
  ultimately show ?thesis by simp
qed

lemma pool_inv_alloc_run:
  "pool_inv p \<Longrightarrow> pool_inv (snd (alloc_run pool_allocate pool_free calls acc p))"
proof (induction pool_allocate pool_free calls acc p rule: alloc_run.induct)
  case (3 i cs acc p)
  then show ?case by (cases "pool_free i p") (auto dest: pool_inv_free)
qed (auto dest: pool_inv_allocate split: prod.splits option.splits)

lemma capacity_alloc_run:
  "bp_capacity (snd (alloc_run pool_allocate pool_free calls acc p)) = bp_capacity p"
  by (induction pool_allocate pool_free calls acc p rule: alloc_run.induct)
    (auto simp: pool_allocate_def pool_free_def Let_def split: prod.splits option.splits sum.splits if_splits)

section \<open>Properties\<close>

text \<open>C18: over any sequence of fewer than $2^{64}$ calls on a new pool, no (block id, generation)
  pair is handed out twice, so a reference that holds a pair never denotes a later occupant.\<close>

theorem generations_never_reused:
  assumes "length calls < 2 ^ 64"
  shows "distinct (fst (alloc_run pool_allocate pool_free calls [] (make_pool c)))"
  by (rule pool.run_distinct) (use assms in \<open>simp_all add: pool_inv_make_pool\<close>)

theorem generations_never_reused_witness:
  "distinct (fst (alloc_run pool_allocate pool_free
     [Call_allocate, Call_allocate, Call_free 0, Call_allocate] [] (make_pool 2)))
   \<and> fst (alloc_run pool_allocate pool_free
     [Call_allocate, Call_allocate, Call_free 0, Call_allocate] [] (make_pool 2))
     = [(0, 2), (1, 1), (0, 1)]"
  using generations_never_reused
    [of "[Call_allocate, Call_allocate, Call_free 0, Call_allocate]" 2] by simp code_simp

text \<open>C26: after any sequence of calls on a new pool, successful or not, the slots in use and the
  number \<open>available\<close> reports add up to the capacity.\<close>

theorem pool_run_accounting:
  "used_slots (snd (alloc_run pool_allocate pool_free calls [] (make_pool c))) +
   unat (pool_available (snd (alloc_run pool_allocate pool_free calls [] (make_pool c)))) = unat c"
proof -
  let ?p = "snd (alloc_run pool_allocate pool_free calls [] (make_pool c))"
  have *: "used_slots ?p + length (bp_free ?p) = unat c"
    using used_plus_free [OF pool_inv_alloc_run [OF pool_inv_make_pool [of c]]]
    by (simp add: capacity_alloc_run make_pool_def)
  then have "length (bp_free ?p) < 2 ^ 32" using unat_u32_lt [of c] by simp
  with * show ?thesis by (simp add: pool_available_def)
qed

end
