(* ===== verification/Payload_Store.thy ===== *)
theory Payload_Store
  imports Ids
begin

text \<open>
  \<open>tier/payload_store.{h,cc}\<close>: a pool of fixed-size byte buffers. With \<open>bytes_per_block = 0\<close>
  (metadata-only mode) nothing is stored and every reference is the sentinel \<open>INVALID\<close>.
\<close>

section \<open>State and operations\<close>

record payload_ref =
  pr_index :: u64

definition payload_invalid :: payload_ref where
  "payload_invalid = \<lparr>pr_index = - 1\<rparr>"

definition payload_valid :: "payload_ref \<Rightarrow> bool" where
  "payload_valid r \<longleftrightarrow> pr_index r \<noteq> - 1"

record payload_store =
  ps_max_blocks :: u32
  ps_bytes_per_block :: u64
  ps_buffers :: "u8 list list"
  ps_free :: "u32 list"

definition make_payload_store :: "u32 \<Rightarrow> u64 \<Rightarrow> payload_store" where
  "make_payload_store max_blocks bytes_per_block =
     (if bytes_per_block > 0
      then \<lparr>ps_max_blocks = max_blocks, ps_bytes_per_block = bytes_per_block,
            ps_buffers = replicate (unat max_blocks) (replicate (unat bytes_per_block) 0),
            ps_free = map (\<lambda>i. max_blocks - 1 - of_nat i) [0..<unat max_blocks]\<rparr>
      else \<lparr>ps_max_blocks = max_blocks, ps_bytes_per_block = bytes_per_block,
            ps_buffers = [], ps_free = []\<rparr>)"

text \<open>\<open>copy_n\<close> overwrites the front of the buffer and leaves the rest of it as it was.\<close>

definition payload_put :: "u8 list \<Rightarrow> payload_store \<Rightarrow> payload_ref outcome \<times> payload_store" where
  "payload_put bytes s =
     (if ps_bytes_per_block s = 0 then return_with payload_invalid s
      else if ps_free s = [] then throw (Runtime_error ''PayloadStore::put: no free slots'') s
      else
        let slot = last (ps_free s);
            copy_len = min (length bytes) (unat (ps_bytes_per_block s));
            old = ps_buffers s ! unat slot
        in return_with \<lparr>pr_index = ucast slot\<rparr>
             (s\<lparr>ps_free := butlast (ps_free s),
                ps_buffers := (ps_buffers s)[unat slot := take copy_len bytes @ drop copy_len old]\<rparr>))"

definition payload_get :: "payload_ref \<Rightarrow> payload_store \<Rightarrow> u8 list outcome" where
  "payload_get r s =
     (if \<not> payload_valid r \<or> ps_bytes_per_block s = 0 then Inr []
      else let slot = unat (pr_index r) in
        if length (ps_buffers s) \<le> slot
        then Inl (Logic_error ''PayloadStore::get: invalid PayloadRef index'')
        else Inr (ps_buffers s ! slot))"

definition payload_remove :: "payload_ref \<Rightarrow> payload_store \<Rightarrow> unit outcome \<times> payload_store" where
  "payload_remove r s =
     (if \<not> payload_valid r \<or> ps_bytes_per_block s = 0 then return_with () s
      else let slot = unat (pr_index r) in
        if length (ps_buffers s) \<le> slot
        then throw (Logic_error ''PayloadStore::remove: invalid PayloadRef index'') s
        else return_with () (s\<lparr>ps_free := ps_free s @ [of_nat slot]\<rparr>))"

definition payload_bytes_used :: "payload_store \<Rightarrow> u64" where
  "payload_bytes_used s =
     (if ps_bytes_per_block s = 0 then 0
      else (ucast (ps_max_blocks s) - of_nat (length (ps_free s))) * ps_bytes_per_block s)"

section \<open>Invariant\<close>

text \<open>Every buffer has the fixed size; the free list names slots of the pool, each once.\<close>

definition payload_inv :: "payload_store \<Rightarrow> bool" where
  "payload_inv s \<longleftrightarrow> (ps_bytes_per_block s \<noteq> 0 \<longrightarrow>
     length (ps_buffers s) = unat (ps_max_blocks s) \<and>
     (\<forall>b \<in> set (ps_buffers s). length b = unat (ps_bytes_per_block s)) \<and>
     distinct (ps_free s) \<and> (\<forall>i \<in> set (ps_free s). i < ps_max_blocks s))"

text \<open>The slots whose buffer belongs to a stored payload.\<close>

definition payload_held :: "payload_store \<Rightarrow> nat \<Rightarrow> bool" where
  "payload_held s slot \<longleftrightarrow> ps_bytes_per_block s \<noteq> 0 \<and> slot < unat (ps_max_blocks s) \<and>
     (of_nat slot :: u32) \<notin> set (ps_free s)"

lemma unat_ucast_u64_u32: "unat w < 4294967296 \<Longrightarrow> unat (ucast (w :: u64) :: u32) = unat w"
  by (simp add: unsigned_ucast_eq take_bit_nat_eq_self_iff)

lemma payload_valid_ucast [simp]: "payload_valid \<lparr>pr_index = ucast (slot :: u32)\<rparr>"
proof -
  have "(ucast slot :: u64) \<noteq> - 1"
  proof
    assume "(ucast slot :: u64) = - 1"
    then have "unat slot = unat (- 1 :: u64)" by (metis unat_ucast_u32_u64)
    with unat_u32_lt [of slot] show False by (simp add: unsigned_minus_1_eq_mask mask_eq_exp_minus_1)
  qed
  then show ?thesis by (simp add: payload_valid_def)
qed

lemma payload_inv_make: "payload_inv (make_payload_store m b)"
proof -
  have "inj_on (\<lambda>i. m - 1 - of_nat i :: u32) {0..<unat m}"
  proof (rule inj_onI)
    fix i j assume ij: "i \<in> {0..<unat m}" "j \<in> {0..<unat m}"
      and eq: "m - 1 - of_nat i = m - 1 - (of_nat j :: u32)"
    from eq have "(of_nat i :: u32) = of_nat j" by simp
    then have "unat (of_nat i :: u32) = unat (of_nat j :: u32)" by simp
    with ij show "i = j" using unat_u32_lt [of m] by simp
  qed
  moreover have "m - 1 - of_nat i < m" if "i < unat m" for i
  proof -
    have "unat (m - 1 - of_nat i) = unat m - 1 - i"
      using that unat_u32_lt [of m] by (simp add: unat_sub word_le_nat_alt unat_of_nat_u32)
    with that show ?thesis by (simp add: word_less_nat_alt)
  qed
  ultimately show ?thesis
    by (auto simp: payload_inv_def make_payload_store_def distinct_map word_gt_0)
qed

lemma payload_put_okD:
  assumes inv: "payload_inv s" and run: "payload_put bytes s = (Inr r, s')"
    and mode: "ps_bytes_per_block s \<noteq> 0"
  shows "ps_free s \<noteq> []" "pr_index r = ucast (last (ps_free s))" "payload_valid r"
    "ps_max_blocks s' = ps_max_blocks s" "ps_bytes_per_block s' = ps_bytes_per_block s"
    "ps_free s' = butlast (ps_free s)"
    "ps_buffers s' = (ps_buffers s)[unat (last (ps_free s)) :=
       take (unat (ps_bytes_per_block s)) bytes
       @ drop (length bytes) (ps_buffers s ! unat (last (ps_free s)))]"
    "unat (last (ps_free s)) < length (ps_buffers s)"
proof -
  let ?slot = "last (ps_free s)"
  show ne: "ps_free s \<noteq> []" and "pr_index r = ucast ?slot" "payload_valid r"
    "ps_max_blocks s' = ps_max_blocks s" "ps_bytes_per_block s' = ps_bytes_per_block s"
    "ps_free s' = butlast (ps_free s)"
    using run mode by (auto simp: payload_put_def Let_def split: if_splits)
  have "?slot < ps_max_blocks s" using inv mode ne by (auto simp: payload_inv_def)
  then show slot: "unat ?slot < length (ps_buffers s)"
    using inv mode by (simp add: payload_inv_def word_less_nat_alt)
  have len: "length (ps_buffers s ! unat ?slot) = unat (ps_bytes_per_block s)"
    using inv mode slot by (simp add: payload_inv_def)
  show "ps_buffers s' = (ps_buffers s)[unat ?slot :=
       take (unat (ps_bytes_per_block s)) bytes @ drop (length bytes) (ps_buffers s ! unat ?slot)]"
    using run mode ne len
    by (auto simp: payload_put_def Let_def min_def split: if_splits)
qed

lemma payload_inv_put:
  assumes inv: "payload_inv s" and run: "payload_put bytes s = (v, s')"
  shows "payload_inv s'"
proof (cases "v")
  case (Inl e)
  then show ?thesis using run inv by (auto simp: payload_put_def Let_def split: if_splits)
next
  case (Inr r)
  show ?thesis
  proof (cases "ps_bytes_per_block s = 0")
    case True
    then show ?thesis using run inv by (auto simp: payload_put_def payload_inv_def)
  next
    case False
    note d = payload_put_okD [OF inv run [unfolded Inr] False]
    have "set (ps_buffers s') \<subseteq> insert (take (unat (ps_bytes_per_block s)) bytes
       @ drop (length bytes) (ps_buffers s ! unat (last (ps_free s)))) (set (ps_buffers s))"
      by (simp add: d set_update_subset_insert)
    moreover have "length (ps_buffers s ! unat (last (ps_free s))) = unat (ps_bytes_per_block s)"
      using inv False d(8) by (simp add: payload_inv_def)
    ultimately show ?thesis
      using inv False d by (fastforce simp: payload_inv_def distinct_butlast dest: in_set_butlastD)
  qed
qed

text \<open>Only a slot that is held may be removed: the code has no check against a second
  \<open>remove\<close> of the same reference, so the caller must not make one.\<close>

lemma payload_inv_remove:
  assumes "payload_inv s" "payload_remove r s = (v, s')"
    and "payload_valid r \<Longrightarrow> ps_bytes_per_block s \<noteq> 0 \<Longrightarrow> payload_held s (unat (pr_index r))"
  shows "payload_inv s'"
  using assms unat_u32_lt [of "ps_max_blocks s"]
  by (auto simp: payload_inv_def payload_remove_def payload_held_def Let_def word_less_nat_alt
      unat_ucast_u64_u32 split: if_splits)

text \<open>What is read back after a \<open>put\<close>.\<close>

lemma payload_get_stored:
  assumes "payload_inv s" and "payload_put bytes s = (Inr r, s')" and "ps_bytes_per_block s \<noteq> 0"
  shows "payload_get r s' = Inr (take (unat (ps_bytes_per_block s)) bytes
     @ drop (length bytes) (ps_buffers s ! unat (pr_index r)))"
    "length (ps_buffers s ! unat (pr_index r)) = unat (ps_bytes_per_block s)"
proof -
  note d = payload_put_okD [OF assms]
  show "length (ps_buffers s ! unat (pr_index r)) = unat (ps_bytes_per_block s)"
    using assms d(2,8) by (simp add: payload_inv_def)
  show "payload_get r s' = Inr (take (unat (ps_bytes_per_block s)) bytes
     @ drop (length bytes) (ps_buffers s ! unat (pr_index r)))"
    using assms(3) d by (simp add: payload_get_def Let_def)
qed

section \<open>Properties\<close>

text \<open>C31: reading a stored payload gives a buffer of the fixed size whose front is the payload,
  cut to that size, and whose tail is what the buffer's earlier occupant left there.\<close>

theorem payload_get_put:
  assumes "payload_inv s" and "payload_put bytes s = (Inr r, s')"
    and "ps_bytes_per_block s \<noteq> 0"
  shows "\<exists>buf. payload_get r s' = Inr buf \<and> length buf = unat (ps_bytes_per_block s) \<and>
     take (length bytes) buf = take (unat (ps_bytes_per_block s)) bytes \<and>
     drop (length bytes) buf = drop (length bytes) (ps_buffers s ! unat (pr_index r))"
  using payload_get_stored [OF assms] by (auto simp: min_def)

theorem payload_get_put_witness:
  "payload_get \<lparr>pr_index = 0\<rparr> (snd (payload_put [7, 8]
     \<lparr>ps_max_blocks = 1, ps_bytes_per_block = 3, ps_buffers = [[1, 2, 3]], ps_free = [0]\<rparr>))
   = Inr [7, 8, 3]"
proof -
  let ?s = "\<lparr>ps_max_blocks = 1, ps_bytes_per_block = 3, ps_buffers = [[1, 2, 3]], ps_free = [0]\<rparr>
    :: payload_store"
  have "payload_put [7, 8] ?s = (Inr \<lparr>pr_index = 0\<rparr>, snd (payload_put [7, 8] ?s))"
    by (simp add: payload_put_def return_with_def)
  then obtain buf where "payload_get \<lparr>pr_index = 0\<rparr> (snd (payload_put [7, 8] ?s)) = Inr buf"
      "take (Suc (Suc 0)) buf = [7, 8]" "drop (Suc (Suc 0)) buf = [3]"
    using payload_get_put [of ?s "[7, 8]" "\<lparr>pr_index = 0\<rparr>" "snd (payload_put [7, 8] ?s)"]
    by (auto simp: payload_inv_def)
  moreover from this have "buf = [7, 8, 3]" by (metis append_take_drop_id append.simps)
  ultimately show ?thesis by simp
qed

end
