(* ===== verification/Block_Store.thy ===== *)
theory Block_Store
  imports Payload_Store "HOL-Library.Numeral_Type"
begin

text \<open>
  \<open>core/block_store.{h,cc}\<close> and \<open>core/block_handle.{h,cc}\<close>: one metadata record per slot, and
  the counted references (handles) that pin a record against eviction. The accessors throw when
  the id's slot is out of range.
\<close>

section \<open>State\<close>

datatype block_state = Free | Admitting | Ready | Fetching | Migrating | Evicting

text \<open>The states are finitely many, so statements about all of them evaluate.\<close>

instantiation block_state :: enum
begin

definition enum_block_state :: "block_state list" where
  "enum_block_state = [Free, Admitting, Ready, Fetching, Migrating, Evicting]"

definition enum_all_block_state :: "(block_state \<Rightarrow> bool) \<Rightarrow> bool" where
  "enum_all_block_state P \<longleftrightarrow>
     P Free \<and> P Admitting \<and> P Ready \<and> P Fetching \<and> P Migrating \<and> P Evicting"

definition enum_ex_block_state :: "(block_state \<Rightarrow> bool) \<Rightarrow> bool" where
  "enum_ex_block_state P \<longleftrightarrow>
     P Free \<or> P Admitting \<or> P Ready \<or> P Fetching \<or> P Migrating \<or> P Evicting"

instance
proof
  show all: "(UNIV :: block_state set) = set enum_class.enum"
    by (auto simp: enum_block_state_def intro: block_state.exhaust)
  show "distinct (enum_class.enum :: block_state list)"
    by (simp add: enum_block_state_def)
  show "enum_class.enum_all P \<longleftrightarrow> Ball UNIV P" for P :: "block_state \<Rightarrow> bool"
    by (simp add: all enum_all_block_state_def enum_block_state_def)
  show "enum_class.enum_ex P \<longleftrightarrow> Bex UNIV P" for P :: "block_state \<Rightarrow> bool"
    by (simp add: all enum_ex_block_state_def enum_block_state_def)
qed

end

record block_record =
  br_id :: block_id
  br_generation :: u64
  br_hash :: content_hash
  br_block_index :: u32
  br_token_count :: u16
  br_tier :: tier
  br_refcount :: u32
  br_last_access_ns :: u64
  br_access_count :: u64
  br_payload :: payload_ref
  br_state :: block_state

text \<open>A default-constructed \<open>BlockRecord\<close>.\<close>

definition fresh_record :: block_record where
  "fresh_record = \<lparr>br_id = 0, br_generation = 0, br_hash = \<lparr>hash_lo = 0, hash_hi = 0\<rparr>,
     br_block_index = 0, br_token_count = 0, br_tier = GpuSim, br_refcount = 0,
     br_last_access_ns = 0, br_access_count = 0, br_payload = payload_invalid, br_state = Free\<rparr>"

record block_store =
  bs_capacity :: u32
  bs_records :: "block_record list"

definition make_store :: "u32 \<Rightarrow> block_store" where
  "make_store c = \<lparr>bs_capacity = c, bs_records = replicate (unat c) fresh_record\<rparr>"

section \<open>Operations\<close>

definition store_slot :: "block_id \<Rightarrow> nat" where
  "store_slot i = unat i"

definition store_exists :: "block_id \<Rightarrow> u64 \<Rightarrow> block_store \<Rightarrow> bool" where
  "store_exists i g s =
     (if unat (bs_capacity s) \<le> store_slot i then False
      else br_generation (bs_records s ! store_slot i) = g)"

definition store_get :: "block_id \<Rightarrow> block_store \<Rightarrow> block_record outcome" where
  "store_get i s =
     (if unat (bs_capacity s) \<le> store_slot i
      then Inl (Logic_error ''BlockStore::get: slot out of range'')
      else Inr (bs_records s ! store_slot i))"

text \<open>The writers share one shape: range check, then an update of the slot's record.\<close>

definition store_write ::
  "string \<Rightarrow> block_id \<Rightarrow> (block_record \<Rightarrow> block_record) \<Rightarrow> block_store \<Rightarrow> unit outcome \<times> block_store"
  where
  "store_write msg i f s =
     (if unat (bs_capacity s) \<le> store_slot i then throw (Logic_error msg) s
      else return_with ()
        (s\<lparr>bs_records := (bs_records s)[store_slot i := f (bs_records s ! store_slot i)]\<rparr>))"

definition store_initialize ::
  "block_id \<Rightarrow> u64 \<Rightarrow> content_hash \<Rightarrow> u32 \<Rightarrow> u16 \<Rightarrow> tier \<Rightarrow> block_state \<Rightarrow> block_store \<Rightarrow>
   unit outcome \<times> block_store" where
  "store_initialize i g h idx count t st =
     store_write ''BlockStore::initialize: slot out of range'' i (\<lambda>rec. rec
       \<lparr>br_id := i, br_generation := g, br_hash := h, br_block_index := idx,
        br_token_count := count, br_tier := t, br_refcount := 0, br_last_access_ns := 0,
        br_access_count := 0, br_payload := payload_invalid, br_state := st\<rparr>)"

definition store_set_state :: "block_id \<Rightarrow> block_state \<Rightarrow> block_store \<Rightarrow> unit outcome \<times> block_store" where
  "store_set_state i st =
     store_write ''BlockStore::setState: slot out of range'' i (\<lambda>rec. rec\<lparr>br_state := st\<rparr>)"

definition store_set_tier :: "block_id \<Rightarrow> tier \<Rightarrow> block_store \<Rightarrow> unit outcome \<times> block_store" where
  "store_set_tier i t =
     store_write ''BlockStore::setTier: slot out of range'' i (\<lambda>rec. rec\<lparr>br_tier := t\<rparr>)"

definition store_set_payload :: "block_id \<Rightarrow> payload_ref \<Rightarrow> block_store \<Rightarrow> unit outcome \<times> block_store" where
  "store_set_payload i r =
     store_write ''BlockStore::setPayload: slot out of range'' i (\<lambda>rec. rec\<lparr>br_payload := r\<rparr>)"

definition store_mark_accessed :: "block_id \<Rightarrow> u64 \<Rightarrow> block_store \<Rightarrow> unit outcome \<times> block_store" where
  "store_mark_accessed i now =
     store_write ''BlockStore::markAccessed: slot out of range'' i
       (\<lambda>rec. rec\<lparr>br_last_access_ns := now, br_access_count := br_access_count rec + 1\<rparr>)"

section \<open>Handles\<close>

text \<open>
  A \<open>BlockHandle\<close> holds a pointer to a record of the store: the slot it points to, or \<open>None\<close>
  for the null pointer a moved-from handle holds. Construction increments the record's count,
  destruction decrements it (32-bit, with wrap-around); moves hand the pointer over.
\<close>

type_synonym block_handle = "nat option"

definition bump_refcount :: "u32 \<Rightarrow> block_handle \<Rightarrow> block_store \<Rightarrow> block_store" where
  "bump_refcount d h s =
     (case h of None \<Rightarrow> s
      | Some k \<Rightarrow> s\<lparr>bs_records := (bs_records s)
          [k := (bs_records s ! k)\<lparr>br_refcount := br_refcount (bs_records s ! k) + d\<rparr>]\<rparr>)"

definition handle_construct :: "block_handle \<Rightarrow> block_store \<Rightarrow> block_handle \<times> block_store" where
  "handle_construct ptr s = (ptr, bump_refcount 1 ptr s)"

definition handle_destroy :: "block_handle \<Rightarrow> block_store \<Rightarrow> block_store" where
  "handle_destroy h s = bump_refcount (- 1) h s"

text \<open>The move constructor: the new handle and the emptied source.\<close>

definition handle_move :: "block_handle \<Rightarrow> block_handle \<times> block_handle" where
  "handle_move other = (other, None)"

text \<open>Move assignment: the target, the source and the store after \<open>this = std::move(other)\<close>;
  \<open>self\<close> says that both are the same object.\<close>

definition handle_move_assign ::
  "bool \<Rightarrow> block_handle \<Rightarrow> block_handle \<Rightarrow> block_store \<Rightarrow>
   (block_handle \<times> block_handle) \<times> block_store" where
  "handle_move_assign self this other s =
     (if \<not> self then ((other, None), bump_refcount (- 1) this s) else ((this, other), s))"

definition handle_valid :: "block_handle \<Rightarrow> bool" where
  "handle_valid h \<longleftrightarrow> h \<noteq> None"

text \<open>\<open>metadata()\<close> and \<open>id()\<close> dereference the pointer; a null handle has none.\<close>

definition handle_metadata :: "block_handle \<Rightarrow> block_store \<Rightarrow> block_record outcome" where
  "handle_metadata h s =
     (case h of None \<Rightarrow> Inl (Undefined_behaviour ''BlockHandle::metadata: null record'')
      | Some k \<Rightarrow> Inr (bs_records s ! k))"

definition handle_id :: "block_handle \<Rightarrow> block_store \<Rightarrow> block_id outcome" where
  "handle_id h s =
     (case h of None \<Rightarrow> Inl (Undefined_behaviour ''BlockHandle::id: null record'')
      | Some k \<Rightarrow> Inr (br_id (bs_records s ! k)))"

definition store_create_handle :: "block_id \<Rightarrow> block_store \<Rightarrow> block_handle outcome \<times> block_store" where
  "store_create_handle i s =
     (if unat (bs_capacity s) \<le> store_slot i
      then throw (Logic_error ''BlockStore::createHandle: slot out of range'') s
      else case handle_construct (Some (store_slot i)) s of (h, s') \<Rightarrow> return_with h s')"

section \<open>Lemmas\<close>

definition store_inv :: "block_store \<Rightarrow> bool" where
  "store_inv s \<longleftrightarrow> length (bs_records s) = unat (bs_capacity s)"

definition in_store :: "block_id \<Rightarrow> block_store \<Rightarrow> bool" where
  "in_store i s \<longleftrightarrow> store_slot i < unat (bs_capacity s)"

definition record_of :: "block_id \<Rightarrow> block_store \<Rightarrow> block_record" where
  "record_of i s = bs_records s ! store_slot i"

lemma store_slot_inject [simp]: "store_slot i = store_slot j \<longleftrightarrow> i = j"
  by (simp add: store_slot_def word_unat_eq_iff)

lemma store_inv_make [simp]: "store_inv (make_store c)"
  by (simp add: store_inv_def make_store_def)

named_theorems store_writers \<open>the writers of the block store, unfolded to store_write\<close>

lemmas [store_writers] = store_initialize_def store_set_state_def store_set_tier_def
  store_set_payload_def store_mark_accessed_def

lemma store_get_Inr: "store_get i s = Inr r \<longleftrightarrow> in_store i s \<and> r = record_of i s"
  by (auto simp: store_get_def in_store_def record_of_def)

lemma store_get_in [simp]: "in_store i s \<Longrightarrow> store_get i s = Inr (record_of i s)"
  by (simp add: store_get_Inr)

lemma store_get_out: "\<not> in_store i s \<Longrightarrow>
    store_get i s = Inl (Logic_error ''BlockStore::get: slot out of range'')"
  by (simp add: store_get_def in_store_def)

definition put_record :: "block_id \<Rightarrow> block_record \<Rightarrow> block_store \<Rightarrow> block_store" where
  "put_record i r s = s\<lparr>bs_records := (bs_records s)[store_slot i := r]\<rparr>"

lemma store_write_in:
  "in_store i s \<Longrightarrow> store_write msg i f s = return_with () (put_record i (f (record_of i s)) s)"
  by (simp add: store_write_def in_store_def put_record_def record_of_def)

lemma store_write_out: "\<not> in_store i s \<Longrightarrow> store_write msg i f s = throw (Logic_error msg) s"
  by (simp add: store_write_def in_store_def)

lemma store_write_Inr: "store_write msg i f s = (Inr u, s') \<longleftrightarrow>
    in_store i s \<and> s' = put_record i (f (record_of i s)) s"
  by (cases "in_store i s") (auto simp: store_write_in store_write_out)

lemma store_write_Inl: "store_write msg i f s = (Inl e, s') \<longleftrightarrow>
    \<not> in_store i s \<and> s' = s \<and> e = Logic_error msg"
  by (cases "in_store i s") (auto simp: store_write_in store_write_out)

lemma record_of_put_record:
  "store_inv s \<Longrightarrow> in_store i s \<Longrightarrow> record_of j (put_record i r s) = (if j = i then r else record_of j s)"
  by (auto simp: record_of_def put_record_def store_inv_def in_store_def nth_list_update)

lemma put_record_simps [simp]:
  "bs_capacity (put_record i r s) = bs_capacity s"
  "store_inv (put_record i r s) = store_inv s"
  "in_store j (put_record i r s) = in_store j s"
  by (simp_all add: put_record_def store_inv_def in_store_def)

lemma put_record_put_record [simp]: "put_record i r (put_record i q s) = put_record i r s"
  by (simp add: put_record_def)

lemma bump_refcount_simps [simp]:
  "bs_capacity (bump_refcount d h s) = bs_capacity s"
  "store_inv (bump_refcount d h s) = store_inv s"
  "in_store j (bump_refcount d h s) = in_store j s"
  by (simp_all add: bump_refcount_def store_inv_def in_store_def split: option.splits)

lemma bump_refcount_record:
  assumes "store_inv s" "in_store i s"
  shows "record_of j (bump_refcount d (Some (store_slot i)) s) =
    (if j = i then (record_of i s)\<lparr>br_refcount := br_refcount (record_of i s) + d\<rparr> else record_of j s)"
  using assms by (auto simp: record_of_def bump_refcount_def store_inv_def in_store_def nth_list_update)

lemma store_create_handle_in:
  "in_store i s \<Longrightarrow> store_create_handle i s =
     return_with (Some (store_slot i)) (bump_refcount 1 (Some (store_slot i)) s)"
  by (simp add: store_create_handle_def in_store_def handle_construct_def)


section \<open>Reference counting\<close>

text \<open>
  A program that owns a list of handle variables: \<open>New\<close> creates a handle on a slot, \<open>Drop\<close>
  destroys a variable, \<open>Move\<close> move-constructs a new variable from an old one and \<open>Assign\<close>
  move-assigns between two variables, possibly the same one. An index past the end does nothing.
\<close>

datatype handle_op = New nat | Drop nat | Move nat | Assign nat nat

fun handle_step :: "handle_op \<Rightarrow> block_handle list \<times> block_store \<Rightarrow> block_handle list \<times> block_store" where
  "handle_step (New k) (hs, s) =
     (if k < length (bs_records s)
      then case handle_construct (Some k) s of (h, s') \<Rightarrow> (hs @ [h], s') else (hs, s))"
| "handle_step (Drop j) (hs, s) =
     (if j < length hs then (take j hs @ drop (Suc j) hs, handle_destroy (hs ! j) s) else (hs, s))"
| "handle_step (Move j) (hs, s) =
     (if j < length hs
      then case handle_move (hs ! j) of (h, h') \<Rightarrow> (hs[j := h'] @ [h], s) else (hs, s))"
| "handle_step (Assign i j) (hs, s) =
     (if i < length hs \<and> j < length hs
      then case handle_move_assign (i = j) (hs ! i) (hs ! j) s of
             ((h, h'), s') \<Rightarrow> (hs[i := h, j := h'], s') else (hs, s))"

definition refcounts_match :: "block_handle list \<Rightarrow> block_store \<Rightarrow> bool" where
  "refcounts_match hs s \<longleftrightarrow>
     (\<forall>k. Some k \<in> set hs \<longrightarrow> k < length (bs_records s)) \<and>
     (\<forall>k < length (bs_records s). br_refcount (bs_records s ! k) = of_nat (count_list hs (Some k)))"

lemma bump_refcount_length [simp]: "length (bs_records (bump_refcount d h s)) = length (bs_records s)"
  by (simp add: bump_refcount_def split: option.splits)

lemma bump_refcount_nth:
  "k < length (bs_records s) \<Longrightarrow>
   br_refcount (bs_records (bump_refcount d h s) ! k) =
     br_refcount (bs_records s ! k) + (if h = Some k then d else 0)"
  by (auto simp: bump_refcount_def nth_list_update split: option.splits)

lemma count_list_take_drop:
  "j < length hs \<Longrightarrow> count_list hs x =
     count_list (take j hs @ drop (Suc j) hs) x + (if hs ! j = x then 1 else 0)"
  by (subst id_take_nth_drop [of j hs]) auto

lemma count_list_update:
  "j < length hs \<Longrightarrow> count_list (hs[j := y]) x + (if hs ! j = x then 1 else 0) =
     count_list hs x + (if y = x then 1 else 0)"
  by (simp add: upd_conv_take_nth_drop count_list_take_drop [of j hs x])

lemma refcounts_matchI:
  assumes "refcounts_match hs s" and "length (bs_records s') = length (bs_records s)"
    and "\<And>k. Some k \<in> set hs' \<Longrightarrow> Some k \<in> set hs"
    and "\<And>k. k < length (bs_records s) \<Longrightarrow>
      br_refcount (bs_records s' ! k) + of_nat (count_list hs (Some k)) =
      br_refcount (bs_records s ! k) + of_nat (count_list hs' (Some k))"
  shows "refcounts_match hs' s'"
  using assms by (auto simp: refcounts_match_def)

lemma refcounts_match_new:
  "refcounts_match hs s \<Longrightarrow> k < length (bs_records s) \<Longrightarrow>
   refcounts_match (hs @ [Some k]) (bump_refcount 1 (Some k) s)"
  by (auto simp: refcounts_match_def bump_refcount_nth)

lemma refcounts_match_drop:
  assumes m: "refcounts_match hs s" and j: "j < length hs"
  shows "refcounts_match (take j hs @ drop (Suc j) hs) (handle_destroy (hs ! j) s)"
proof (rule refcounts_matchI [OF m])
  fix k assume k: "k < length (bs_records s)"
  show "br_refcount (bs_records (handle_destroy (hs ! j) s) ! k) + of_nat (count_list hs (Some k)) =
      br_refcount (bs_records s ! k) + of_nat (count_list (take j hs @ drop (Suc j) hs) (Some k))"
    using count_list_take_drop [OF j, of "Some k"]
    by (simp add: handle_destroy_def bump_refcount_nth [OF k] del: count_list_append)
qed (auto simp: handle_destroy_def dest: in_set_takeD in_set_dropD)

lemma refcounts_match_move:
  assumes m: "refcounts_match hs s" and j: "j < length hs"
  shows "refcounts_match (hs[j := None] @ [hs ! j]) s"
proof (rule refcounts_matchI [OF m])
  fix k
  show "br_refcount (bs_records s ! k) + of_nat (count_list hs (Some k)) =
      br_refcount (bs_records s ! k) + of_nat (count_list (hs[j := None] @ [hs ! j]) (Some k))"
    using count_list_update [OF j, of None "Some k", symmetric] by simp
next
  fix k assume "Some k \<in> set (hs[j := None] @ [hs ! j])"
  then show "Some k \<in> set hs"
    using set_update_subset_insert [of hs j None] j nth_mem [OF j] by auto
qed simp

lemma refcounts_match_assign:
  assumes m: "refcounts_match hs s" and j: "i < length hs" "j < length hs" "i \<noteq> j"
  shows "refcounts_match (hs[i := hs ! j, j := None]) (bump_refcount (- 1) (hs ! i) s)"
proof (rule refcounts_matchI [OF m])
  fix k assume k: "k < length (bs_records s)"
  have "count_list (hs[i := hs ! j, j := None]) (Some k) + (if hs ! i = Some k then 1 else 0)
      = count_list hs (Some k)"
    using count_list_update [OF j(1), of "hs ! j" "Some k"]
      count_list_update [of j "hs[i := hs ! j]" None "Some k"] j by simp
  from this [symmetric]
  show "br_refcount (bs_records (bump_refcount (- 1) (hs ! i) s) ! k) + of_nat (count_list hs (Some k)) =
      br_refcount (bs_records s ! k) + of_nat (count_list (hs[i := hs ! j, j := None]) (Some k))"
    by (simp add: bump_refcount_nth [OF k])
next
  fix k assume "Some k \<in> set (hs[i := hs ! j, j := None])"
  then show "Some k \<in> set hs"
    using set_update_subset_insert [of "hs[i := hs ! j]" j None]
      set_update_subset_insert [of hs i "hs ! j"] nth_mem [OF j(2)] by auto
qed simp

lemma refcounts_match_step:
  assumes "refcounts_match hs s"
  shows "case handle_step c (hs, s) of (hs', s') \<Rightarrow> refcounts_match hs' s'"
  using assms refcounts_match_new refcounts_match_drop refcounts_match_move refcounts_match_assign
  by (cases c) (simp_all add: handle_construct_def handle_move_def handle_move_assign_def)

text \<open>C25: after any sequence of handle creations, destructions, moves and (self-)assignments on a
  new store, each record's count is the number of handles that point to it.\<close>

theorem refcount_counts_handles:
  assumes "fold handle_step ops ([], make_store c) = (hs, s)"
  shows "refcounts_match hs s"
proof -
  have "refcounts_match hs0 s0 \<Longrightarrow> fold handle_step ops (hs0, s0) = (hs, s) \<Longrightarrow> refcounts_match hs s"
    for hs0 s0
  proof (induction ops arbitrary: hs0 s0)
    case (Cons c ops)
    obtain hs1 s1 where "handle_step c (hs0, s0) = (hs1, s1)" by fastforce
    with Cons refcounts_match_step [OF Cons.prems(1), of c] show ?case by auto
  qed simp
  moreover have "refcounts_match [] (make_store c)"
    by (simp add: refcounts_match_def make_store_def fresh_record_def)
  ultimately show ?thesis using assms by blast
qed

theorem refcount_counts_handles_witness:
  "refcounts_match [Some 0, None, Some 1] (snd (fold handle_step
     [New 0, New 1, New 0, Move 1, Assign 0 2, Drop 2] ([], make_store 2)))"
proof -
  have "fst (fold handle_step [New 0, New 1, New 0, Move 1, Assign 0 2, Drop 2] ([], make_store 2))
      = [Some 0, None, Some 1]"
    by (simp add: make_store_def handle_construct_def handle_destroy_def handle_move_def
        handle_move_assign_def bump_refcount_def)
  then show ?thesis
    using refcount_counts_handles
      [of "[New 0, New 1, New 0, Move 1, Assign 0 2, Drop 2]" 2]
    by (metis prod.collapse)
qed

end
