(* ===== verification/Block_Manager.thy ===== *)
theory Block_Manager
  imports Block_Pool Block_Store
begin

text \<open>
  \<open>core/block_manager.{h,cc}\<close>: the life cycle of a block. The manager owns a pool (which slots are
  occupied) and a store (their records) and keeps the two in step. The clock is the argument
  \<open>now\<close>, the value \<open>clock_.nowNs()\<close> returns at the call.
\<close>

section \<open>State and operations\<close>

text \<open>\<open>isLegalTransition\<close>.\<close>

fun is_legal_transition :: "block_state \<Rightarrow> block_state \<Rightarrow> bool" where
  "is_legal_transition Free st = (st = Admitting \<or> st = Fetching)"
| "is_legal_transition Admitting st = (st = Ready \<or> st = Free)"
| "is_legal_transition Fetching st = (st = Ready \<or> st = Free)"
| "is_legal_transition Ready st = (st = Migrating \<or> st = Evicting)"
| "is_legal_transition Migrating st = (st = Ready)"
| "is_legal_transition Evicting st = (st = Free)"

datatype fetch_status = Hit | NotFound | StaleGeneration

record fetch_local_result =
  fl_status :: fetch_status
  fl_handle :: "block_handle option"

record block_manager =
  bm_pool :: block_pool
  bm_store :: block_store

definition make_manager :: "u32 \<Rightarrow> block_manager" where
  "make_manager c = \<lparr>bm_pool = make_pool c, bm_store = make_store c\<rparr>"

definition on_store :: "block_manager \<Rightarrow> 'a outcome \<times> block_store \<Rightarrow> 'a outcome \<times> block_manager" where
  "on_store m = on_member (\<lambda>s m. m\<lparr>bm_store := s\<rparr>) m"

definition manager_create_block ::
  "content_hash \<Rightarrow> u32 \<Rightarrow> u16 \<Rightarrow> tier \<Rightarrow> block_manager \<Rightarrow>
   (block_id \<times> u64) option outcome \<times> block_manager" where
  "manager_create_block h idx count t m =
     (case pool_allocate (bm_pool m) of
        (None, p) \<Rightarrow> return_with None (m\<lparr>bm_pool := p\<rparr>)
      | (Some (i, g), p) \<Rightarrow>
          let m1 = m\<lparr>bm_pool := p\<rparr> in
          and_then (on_store m1 (store_initialize i g h idx count t Admitting (bm_store m1)))
            (\<lambda>_ m2. return_with (Some (i, g)) m2))"

definition manager_mark_accessed :: "u64 \<Rightarrow> block_id \<Rightarrow> block_manager \<Rightarrow> unit outcome \<times> block_manager" where
  "manager_mark_accessed now i m = on_store m (store_mark_accessed i now (bm_store m))"

definition manager_acquire ::
  "u64 \<Rightarrow> block_id \<Rightarrow> block_manager \<Rightarrow> block_handle option outcome \<times> block_manager" where
  "manager_acquire now i m =
     (if unat (pool_capacity (bm_pool m)) \<le> unat i then return_with None m
      else case store_get i (bm_store m) of
        Inl e \<Rightarrow> throw e m
      | Inr rec \<Rightarrow>
          if br_generation rec = 0 \<or> br_state rec \<noteq> Ready then return_with None m
          else
            and_then (on_store m (store_mark_accessed i now (bm_store m))) (\<lambda>_ m1.
            and_then (on_store m1 (store_create_handle i (bm_store m1))) (\<lambda>h m2.
            return_with (Some h) m2)))"

definition manager_fetch_local ::
  "u64 \<Rightarrow> block_id \<Rightarrow> u64 \<Rightarrow> block_manager \<Rightarrow> fetch_local_result outcome \<times> block_manager" where
  "manager_fetch_local now i g m =
     (if unat (pool_capacity (bm_pool m)) \<le> unat i
      then return_with \<lparr>fl_status = NotFound, fl_handle = None\<rparr> m
      else case store_get i (bm_store m) of
        Inl e \<Rightarrow> throw e m
      | Inr rec \<Rightarrow>
          if br_generation rec = 0 then return_with \<lparr>fl_status = NotFound, fl_handle = None\<rparr> m
          else if br_generation rec \<noteq> g
          then return_with \<lparr>fl_status = StaleGeneration, fl_handle = None\<rparr> m
          else if br_state rec \<noteq> Ready then return_with \<lparr>fl_status = NotFound, fl_handle = None\<rparr> m
          else
            and_then (on_store m (store_mark_accessed i now (bm_store m))) (\<lambda>_ m1.
            and_then (on_store m1 (store_create_handle i (bm_store m1))) (\<lambda>h m2.
            return_with \<lparr>fl_status = Hit, fl_handle = Some h\<rparr> m2)))"

definition manager_transition ::
  "block_id \<Rightarrow> block_state \<Rightarrow> block_state \<Rightarrow> block_manager \<Rightarrow> unit outcome \<times> block_manager" where
  "manager_transition i from_st to_st m =
     (case store_get i (bm_store m) of
        Inl e \<Rightarrow> throw e m
      | Inr rec \<Rightarrow>
          if br_state rec \<noteq> from_st
          then throw (Logic_error ''BlockManager::transitionState: unexpected current state'') m
          else if \<not> is_legal_transition from_st to_st
          then throw (Logic_error ''BlockManager::transitionState: illegal state transition'') m
          else if from_st = Ready \<and> to_st = Evicting \<and> br_refcount rec > 0
          then throw (Logic_error
            ''BlockManager::transitionState: cannot evict block with active handles'') m
          else
            and_then (on_store m (store_set_state i to_st (bm_store m))) (\<lambda>_ m1.
              if to_st = Free
              then on_member (\<lambda>p m. m\<lparr>bm_pool := p\<rparr>) m1 (pool_free i (bm_pool m1))
              else return_with () m1))"

definition manager_free_block :: "block_id \<Rightarrow> block_manager \<Rightarrow> unit outcome \<times> block_manager" where
  "manager_free_block i m = manager_transition i Evicting Free m"

definition manager_available :: "block_manager \<Rightarrow> u32" where
  "manager_available m = pool_available (bm_pool m)"

section \<open>Invariant\<close>

text \<open>
  Pool and store agree on the capacity. A slot is live in the pool exactly when its record's
  state is not \<open>Free\<close>; then the record names the slot and carries the pool's generation. A slot
  that is not live was never used (generation 0) or its pool generation is one past the record's.
\<close>

definition slot_agrees :: "block_pool \<Rightarrow> block_id \<Rightarrow> block_record \<Rightarrow> bool" where
  "slot_agrees p i r \<longleftrightarrow>
     (pool_live p i \<longleftrightarrow> br_state r \<noteq> Free) \<and>
     (pool_live p i \<longrightarrow> br_generation r = pool_gen p i) \<and>
     (\<not> pool_live p i \<longrightarrow> br_refcount r = 0 \<and>
        (br_generation r = 0 \<and> pool_gen p i = 0 \<or>
         br_generation r \<noteq> 0 \<and> pool_gen p i = br_generation r + 1)) \<and>
     (br_generation r \<noteq> 0 \<longrightarrow> br_id r = i)"

definition manager_inv :: "block_manager \<Rightarrow> bool" where
  "manager_inv m \<longleftrightarrow> pool_inv (bm_pool m) \<and> store_inv (bm_store m) \<and>
     bp_capacity (bm_pool m) = bs_capacity (bm_store m) \<and>
     (\<forall>i. in_store i (bm_store m) \<longrightarrow> slot_agrees (bm_pool m) i (record_of i (bm_store m)))"

abbreviation block_of :: "block_id \<Rightarrow> block_manager \<Rightarrow> block_record" where
  "block_of i m \<equiv> record_of i (bm_store m)"

abbreviation has_block :: "block_id \<Rightarrow> block_manager \<Rightarrow> bool" where
  "has_block i m \<equiv> in_store i (bm_store m)"

definition put_block :: "block_id \<Rightarrow> block_record \<Rightarrow> block_manager \<Rightarrow> block_manager" where
  "put_block i r m = m\<lparr>bm_store := put_record i r (bm_store m)\<rparr>"

lemma put_block_simps [simp]:
  "bm_pool (put_block i r m) = bm_pool m"
  "bm_store (put_block i r m) = put_record i r (bm_store m)"
  "has_block j (put_block i r m) = has_block j m"
  by (simp_all add: put_block_def)

lemma manager_invD:
  assumes "manager_inv m"
  shows "pool_inv (bm_pool m)" "store_inv (bm_store m)"
    "bp_capacity (bm_pool m) = bs_capacity (bm_store m)"
    "has_block i m \<Longrightarrow> slot_agrees (bm_pool m) i (block_of i m)"
  using assms by (auto simp: manager_inv_def)

lemma has_block_iff:
  "manager_inv m \<Longrightarrow> has_block i m \<longleftrightarrow> slot_of i < unat (bp_capacity (bm_pool m))"
  by (simp add: manager_inv_def in_store_def store_slot_def slot_of_def)

lemma live_has_block: "manager_inv m \<Longrightarrow> pool_live (bm_pool m) i \<Longrightarrow> has_block i m"
  by (simp add: has_block_iff pool_live_def)

lemma block_of_put_block:
  "manager_inv m \<Longrightarrow> has_block i m \<Longrightarrow> block_of j (put_block i r m) = (if j = i then r else block_of j m)"
  by (simp add: manager_invD record_of_put_record)

text \<open>A write that leaves a record in agreement with the pool keeps the invariant.\<close>

lemma manager_inv_put_block:
  assumes "manager_inv m" "has_block i m" "slot_agrees (bm_pool m) i r"
  shows "manager_inv (put_block i r m)"
  unfolding manager_inv_def
  using assms by (auto simp: manager_invD record_of_put_record)

lemma manager_inv_make: "manager_inv (make_manager c)"
  by (simp add: manager_inv_def make_manager_def pool_inv_make_pool slot_agrees_def make_store_def
      store_inv_def record_of_def in_store_def fresh_record_def)
    (simp add: make_pool_def)

section \<open>The operations on a consistent manager\<close>

lemma on_store_simps [simp]:
  "on_store m (return_with x s) = return_with x (m\<lparr>bm_store := s\<rparr>)"
  "on_store m (throw e s) = throw e (m\<lparr>bm_store := s\<rparr>)"
  by (simp_all add: on_store_def on_member_def return_with_def throw_def)

definition touched :: "u64 \<Rightarrow> block_record \<Rightarrow> block_record" where
  "touched now r = r\<lparr>br_last_access_ns := now, br_access_count := br_access_count r + 1\<rparr>"

definition pinned :: "u64 \<Rightarrow> block_record \<Rightarrow> block_record" where
  "pinned now r = (touched now r)\<lparr>br_refcount := br_refcount r + 1\<rparr>"

lemma touched_simps [simp]:
  "br_id (touched now r) = br_id r" "br_generation (touched now r) = br_generation r"
  "br_state (touched now r) = br_state r" "br_refcount (touched now r) = br_refcount r"
  "br_hash (touched now r) = br_hash r" "br_block_index (touched now r) = br_block_index r"
  "br_token_count (touched now r) = br_token_count r" "br_tier (touched now r) = br_tier r"
  "br_payload (touched now r) = br_payload r" "br_last_access_ns (touched now r) = now"
  "br_access_count (touched now r) = br_access_count r + 1"
  by (simp_all add: touched_def)

lemma pinned_simps [simp]:
  "br_id (pinned now r) = br_id r" "br_generation (pinned now r) = br_generation r"
  "br_state (pinned now r) = br_state r" "br_refcount (pinned now r) = br_refcount r + 1"
  "br_hash (pinned now r) = br_hash r" "br_block_index (pinned now r) = br_block_index r"
  "br_token_count (pinned now r) = br_token_count r" "br_tier (pinned now r) = br_tier r"
  "br_payload (pinned now r) = br_payload r" "br_last_access_ns (pinned now r) = now"
  "br_access_count (pinned now r) = br_access_count r + 1"
  by (simp_all add: pinned_def)

lemma bump_as_put_record:
  "in_store i s \<Longrightarrow> bump_refcount d (Some (store_slot i)) s =
     put_record i ((record_of i s)\<lparr>br_refcount := br_refcount (record_of i s) + d\<rparr>) s"
  by (simp add: bump_refcount_def put_record_def record_of_def)

lemma pin_steps:
  assumes "manager_inv m" "has_block i m"
  shows "and_then (on_store m (store_mark_accessed i now (bm_store m))) (\<lambda>_ m1.
           and_then (on_store m1 (store_create_handle i (bm_store m1))) k) =
         k (Some (store_slot i)) (put_block i (pinned now (block_of i m)) m)"
  using assms
  by (simp add: store_mark_accessed_def store_write_in store_create_handle_in bump_as_put_record
      record_of_put_record manager_invD put_block_def pinned_def touched_def)

lemma manager_acquire_eq:
  assumes "manager_inv m"
  shows "manager_acquire now i m =
    (if has_block i m \<and> br_generation (block_of i m) \<noteq> 0 \<and> br_state (block_of i m) = Ready
     then return_with (Some (Some (store_slot i))) (put_block i (pinned now (block_of i m)) m)
     else return_with None m)"
  using assms pin_steps [OF assms, of i now]
  by (auto simp: manager_acquire_def pool_capacity_def has_block_iff [OF assms] slot_of_def)

lemma manager_fetch_local_eq:
  assumes "manager_inv m"
  shows "manager_fetch_local now i g m =
    (if \<not> has_block i m \<or> br_generation (block_of i m) = 0
     then return_with \<lparr>fl_status = NotFound, fl_handle = None\<rparr> m
     else if br_generation (block_of i m) \<noteq> g
     then return_with \<lparr>fl_status = StaleGeneration, fl_handle = None\<rparr> m
     else if br_state (block_of i m) \<noteq> Ready
     then return_with \<lparr>fl_status = NotFound, fl_handle = None\<rparr> m
     else return_with \<lparr>fl_status = Hit, fl_handle = Some (Some (store_slot i))\<rparr>
            (put_block i (pinned now (block_of i m)) m))"
  using assms pin_steps [OF assms, of i now]
  by (auto simp: manager_fetch_local_def pool_capacity_def has_block_iff [OF assms] slot_of_def)

lemma ready_live:
  "manager_inv m \<Longrightarrow> has_block i m \<Longrightarrow> br_state (block_of i m) \<noteq> Free \<Longrightarrow> pool_live (bm_pool m) i"
  by (auto dest: manager_invD(4) simp: slot_agrees_def)

lemma slot_agrees_pinned:
  "slot_agrees p i r \<Longrightarrow> br_state r \<noteq> Free \<Longrightarrow> slot_agrees p i (pinned now r)"
  by (auto simp: slot_agrees_def)

lemma manager_inv_pinned:
  "manager_inv m \<Longrightarrow> has_block i m \<Longrightarrow> br_state (block_of i m) \<noteq> Free \<Longrightarrow>
   manager_inv (put_block i (pinned now (block_of i m)) m)"
  by (intro manager_inv_put_block) (auto intro: slot_agrees_pinned dest: manager_invD(4))

lemma manager_inv_acquire:
  assumes "manager_inv m" "manager_acquire now i m = (v, m')"
  shows "manager_inv m'"
  using assms by (auto simp: manager_acquire_eq intro: manager_inv_pinned split: if_splits)

lemma manager_inv_fetch_local:
  assumes "manager_inv m" "manager_fetch_local now i g m = (v, m')"
  shows "manager_inv m'"
  using assms by (auto simp: manager_fetch_local_eq intro: manager_inv_pinned split: if_splits)


definition new_record :: "block_id \<Rightarrow> u64 \<Rightarrow> content_hash \<Rightarrow> u32 \<Rightarrow> u16 \<Rightarrow> tier \<Rightarrow> block_record" where
  "new_record i g h idx count t = \<lparr>br_id = i, br_generation = g, br_hash = h,
     br_block_index = idx, br_token_count = count, br_tier = t, br_refcount = 0,
     br_last_access_ns = 0, br_access_count = 0, br_payload = payload_invalid,
     br_state = Admitting\<rparr>"

lemma overwrite_new_record:
  "r\<lparr>br_id := i, br_generation := g, br_hash := h, br_block_index := idx, br_token_count := count,
     br_tier := t, br_refcount := 0, br_last_access_ns := 0, br_access_count := 0,
     br_payload := payload_invalid, br_state := Admitting\<rparr> = new_record i g h idx count t"
  by (cases r) (simp add: new_record_def)

lemma pool_live_gen: "pool_inv p \<Longrightarrow> pool_live p i \<Longrightarrow> pool_gen p i \<noteq> 0"
  by (simp add: pool_inv_def pool_live_def pool_gen_def)

lemma on_store_pool [simp]: "on_store (m\<lparr>bm_pool := p\<rparr>) (return_with x s) = return_with x (m\<lparr>bm_pool := p, bm_store := s\<rparr>)"
  by (simp add: on_store_def on_member_def return_with_def)

lemma manager_create_block_cases:
  assumes inv: "manager_inv m"
  obtains (full) "bp_free (bm_pool m) = []" "manager_create_block h idx count t m = (Inr None, m)"
    | (created) i g p where "pool_allocate (bm_pool m) = (Some (i, g), p)"
      "\<not> pool_live (bm_pool m) i" "has_block i m" "g \<noteq> 0"
      "pool_live p = (pool_live (bm_pool m))(i := True)"
      "pool_gen p = (pool_gen (bm_pool m))(i := g)"
      "g = (if pool_gen (bm_pool m) i = 0 then 1 else pool_gen (bm_pool m) i)"
      "pool_inv p" "bp_capacity p = bp_capacity (bm_pool m)"
      "manager_create_block h idx count t m =
        (Inr (Some (i, g)), put_block i (new_record i g h idx count t) (m\<lparr>bm_pool := p\<rparr>))"
proof (cases "pool_allocate (bm_pool m)")
  case (Pair r p)
  have pinv: "pool_inv (bm_pool m)" using inv by (rule manager_invD)
  show ?thesis
  proof (cases r)
    case None
    then have "p = bm_pool m" and "bp_free (bm_pool m) = []"
      using Pair pool.al_None [OF pinv] pool_allocate_None [of "bm_pool m"] by auto
    then show ?thesis
      using None Pair by (intro full) (auto simp: manager_create_block_def return_with_def)
  next
    case (Some ig)
    then obtain i g where ig: "pool_allocate (bm_pool m) = (Some (i, g), p)" using Pair by (cases ig) auto
    note a = pool.al_Some [OF pinv ig] and d = pool_allocate_SomeD [OF ig]
    have blk: "has_block i m"
      using has_block_iff [OF inv] pool_allocate_SomeE [OF pinv ig] by simp
    then have "manager_create_block h idx count t m =
        (Inr (Some (i, g)), put_block i (new_record i g h idx count t) (m\<lparr>bm_pool := p\<rparr>))"
      by (simp add: manager_create_block_def ig store_initialize_def store_write_in
          put_block_def overwrite_new_record)
    then show ?thesis
      using created [OF ig] a d blk pool.al_gen_nonzero [OF pinv ig] pool.inv_al [OF pinv ig] by blast
  qed
qed

lemma manager_inv_create_block:
  assumes inv: "manager_inv m" and run: "manager_create_block h idx count t m = (v, m')"
  shows "manager_inv m'"
  using inv
proof (cases rule: manager_create_block_cases [of m h idx count t])
  case (created i g p)
  have "slot_agrees p j (block_of j m')" if "has_block j m" for j
    using that created run inv manager_invD(4) [OF inv that]
    by (cases "j = i") (auto simp: record_of_put_record manager_invD slot_agrees_def new_record_def)
  then show ?thesis using created run inv by (auto simp: manager_inv_def)
qed (use run inv in auto)

text \<open>Transitions. On a consistent manager the pool never refuses the \<open>free\<close>, unless the block
  was already \<open>Free\<close>; so a throwing transition leaves everything as it was.\<close>

definition transition_guard :: "block_id \<Rightarrow> block_state \<Rightarrow> block_state \<Rightarrow> block_manager \<Rightarrow> bool" where
  "transition_guard i from_st to_st m \<longleftrightarrow> has_block i m \<and> br_state (block_of i m) = from_st \<and>
     is_legal_transition from_st to_st \<and>
     (from_st = Ready \<and> to_st = Evicting \<longrightarrow> br_refcount (block_of i m) = 0)"

definition set_block_state :: "block_id \<Rightarrow> block_state \<Rightarrow> block_manager \<Rightarrow> block_manager" where
  "set_block_state i st m = put_block i ((block_of i m)\<lparr>br_state := st\<rparr>) m"

lemma manager_transition_not_guard:
  "\<not> transition_guard i f t m \<Longrightarrow> \<exists>e. manager_transition i f t m = (Inl (Logic_error e), m)"
  by (cases "has_block i m")
    (auto simp: manager_transition_def transition_guard_def store_get_out throw_def word_neq_0_conv)

lemma manager_transition_guard:
  assumes "transition_guard i f t m"
  shows "manager_transition i f t m =
    (if t = Free
     then on_member (\<lambda>p m. m\<lparr>bm_pool := p\<rparr>) (set_block_state i t m) (pool_free i (bm_pool m))
     else (Inr (), set_block_state i t m))"
  using assms
  by (auto simp: manager_transition_def transition_guard_def store_set_state_def store_write_in
      set_block_state_def put_block_def)

lemma legal_to_Free: "is_legal_transition f t \<Longrightarrow> f \<noteq> Free \<Longrightarrow> t \<noteq> f"
  by (cases f) auto

lemma manager_transition_Free:
  assumes inv: "manager_inv m" and g: "transition_guard i f Free m"
  obtains p where "pool_free i (bm_pool m) = (Inr (), p)" "pool_inv p"
    "pool_live p = (pool_live (bm_pool m))(i := False)"
    "pool_gen p = (pool_gen (bm_pool m))(i := pool_gen (bm_pool m) i + 1)"
    "bp_capacity p = bp_capacity (bm_pool m)"
    "manager_transition i f Free m = (Inr (), (set_block_state i Free m)\<lparr>bm_pool := p\<rparr>)"
proof -
  have pinv: "pool_inv (bm_pool m)" using inv by (rule manager_invD)
  have "f \<noteq> Free" using g by (auto simp: transition_guard_def)
  then have live: "pool_live (bm_pool m) i"
    using g inv by (auto simp: transition_guard_def intro: ready_live)
  from pinv show thesis
  proof (cases rule: pool.fr_cases [of "bm_pool m" i])
    case (ok p)
    have "manager_transition i f Free m = (Inr (), (set_block_state i Free m)\<lparr>bm_pool := p\<rparr>)"
      using manager_transition_guard [OF g] ok(1) by (simp add: on_member_def)
    then show thesis
      using that ok pool.inv_fr [OF pinv ok(1)] pool_free_okD(3) [OF ok(1)] by blast
  qed (use live in blast)
qed

text \<open>Only a block with no handle may reach \<open>Free\<close>, because the record's count is what the next
  occupant's \<open>initialize\<close> resets. \<open>Admitting\<close> and \<open>Fetching\<close> blocks have no handles: the
  manager hands them out for \<open>Ready\<close> blocks only.\<close>

definition unready_unpinned :: "block_manager \<Rightarrow> bool" where
  "unready_unpinned m \<longleftrightarrow> (\<forall>i. has_block i m \<longrightarrow>
     br_state (block_of i m) \<notin> {Ready, Migrating} \<longrightarrow> br_refcount (block_of i m) = 0)"

lemma manager_inv_transition:
  assumes inv: "manager_inv m" and unp: "unready_unpinned m" and from_st: "f \<noteq> Free"
    and run: "manager_transition i f t m = (v, m')"
  shows "manager_inv m' \<and> unready_unpinned m'"
proof (cases "transition_guard i f t m")
  case False
  then have "m' = m" using run manager_transition_not_guard [of i f t m] by auto
  with inv unp show ?thesis by simp
next
  case g: True
  then have blk: "has_block i m" and st: "br_state (block_of i m) = f" and leg: "is_legal_transition f t"
    by (auto simp: transition_guard_def)
  have agree: "slot_agrees (bm_pool m) i (block_of i m)" using inv blk by (rule manager_invD)
  show ?thesis
  proof (cases "t = Free")
    case True
    have zero: "br_refcount (block_of i m) = 0"
      using unp blk leg st True from_st by (cases f) (auto simp: unready_unpinned_def)
    from inv g [unfolded True] show ?thesis
    proof (rule manager_transition_Free)
      fix p assume p: "pool_inv p" "pool_live p = (pool_live (bm_pool m))(i := False)"
        "pool_gen p = (pool_gen (bm_pool m))(i := pool_gen (bm_pool m) i + 1)"
        "bp_capacity p = bp_capacity (bm_pool m)"
        "manager_transition i f Free m = (Inr (), (set_block_state i Free m)\<lparr>bm_pool := p\<rparr>)"
      have m': "m' = (set_block_state i Free m)\<lparr>bm_pool := p\<rparr>" using p run True by simp
      have live: "pool_live (bm_pool m) i" using inv blk st from_st by (simp add: ready_live)
      note old = agree pool_live_gen [OF manager_invD(1) [OF inv] live] live zero
      have rec: "block_of j m' = (if j = i then (block_of i m)\<lparr>br_state := Free\<rparr> else block_of j m)" for j
        using record_of_put_record [OF manager_invD(2) [OF inv] blk] by (simp add: m' set_block_state_def)
      have "slot_agrees p j (block_of j m')" if "has_block j m" for j
      proof (cases "j = i")
        case True
        show ?thesis unfolding True rec using old p(2,3) by (simp add: slot_agrees_def)
      next
        case False
        then show ?thesis
          unfolding rec using manager_invD(4) [OF inv that] p(2,3) by (simp add: slot_agrees_def)
      qed
      moreover have "unready_unpinned m'"
        using unp zero by (simp add: unready_unpinned_def rec) (simp add: m' set_block_state_def)
      ultimately show ?thesis
        using inv p by (auto simp: manager_inv_def m' set_block_state_def)
    qed
  next
    case False
    then have m': "m' = set_block_state i t m" using run manager_transition_guard [OF g] by simp
    have "slot_agrees (bm_pool m) i ((block_of i m)\<lparr>br_state := t\<rparr>)"
      using agree False st from_st by (auto simp: slot_agrees_def)
    then have "manager_inv m'" unfolding m' set_block_state_def by (rule manager_inv_put_block [OF inv blk])
    moreover have "unready_unpinned m'"
      using unp blk st leg False g
      by (cases f) (auto simp: unready_unpinned_def m' set_block_state_def block_of_put_block [OF inv blk]
          transition_guard_def simp del: put_block_simps(2))
    ultimately show ?thesis by simp
  qed
qed


section \<open>Properties\<close>

text \<open>C27: \<open>fetchLocal\<close> hits exactly when the id names a live, ready slot whose present occupant
  has the asked generation; it reports a stale generation exactly when the slot was used under
  another one. A hit pins the record by one, stamps it with the time and changes nothing else;
  a miss changes nothing.\<close>

theorem fetch_local_outcomes:
  assumes "manager_inv m"
  shows "\<exists>r m'. manager_fetch_local now i g m = (Inr r, m') \<and>
    (fl_status r = Hit \<longleftrightarrow> pool_live (bm_pool m) i \<and> br_state (block_of i m) = Ready \<and>
        pool_gen (bm_pool m) i = g) \<and>
    (fl_status r = StaleGeneration \<longleftrightarrow> has_block i m \<and> br_generation (block_of i m) \<noteq> 0 \<and>
        br_generation (block_of i m) \<noteq> g) \<and>
    (if fl_status r = Hit
     then fl_handle r = Some (Some (slot_of i)) \<and>
          m' = m\<lparr>bm_store := put_record i ((block_of i m)
            \<lparr>br_last_access_ns := now, br_access_count := br_access_count (block_of i m) + 1,
             br_refcount := br_refcount (block_of i m) + 1\<rparr>) (bm_store m)\<rparr>
     else fl_handle r = None \<and> m' = m)"
proof (cases "has_block i m")
  case True
  have "slot_agrees (bm_pool m) i (block_of i m)" using assms True by (rule manager_invD)
  moreover have "pool_live (bm_pool m) i \<Longrightarrow> pool_gen (bm_pool m) i \<noteq> 0"
    using pool_live_gen [OF manager_invD(1) [OF assms]] .
  ultimately show ?thesis
    using True unfolding manager_fetch_local_eq [OF assms]
    by (auto simp: slot_agrees_def put_block_def pinned_def touched_def store_slot_def slot_of_def)
next
  case False
  then show ?thesis
    using live_has_block [OF assms] unfolding manager_fetch_local_eq [OF assms] by auto
qed

definition demo_hash :: content_hash where
  "demo_hash = \<lparr>hash_lo = 1, hash_hi = 2\<rparr>"

definition demo_manager :: block_manager where
  "demo_manager = snd (manager_transition 0 Admitting Ready
     (snd (manager_create_block demo_hash 0 4 GpuSim (make_manager 2))))"

lemma demo_manager_inv: "manager_inv demo_manager \<and> unready_unpinned demo_manager"
proof -
  let ?m1 = "snd (manager_create_block demo_hash 0 4 GpuSim (make_manager 2))"
  have m1: "manager_inv ?m1"
    by (rule manager_inv_create_block [OF manager_inv_make [of 2]]) (rule prod.collapse [symmetric])
  have "br_refcount r = 0" if "r \<in> set (bs_records (bm_store ?m1))" for r
  proof -
    have "list_all (\<lambda>r. br_refcount r = 0) (bs_records (bm_store ?m1))" by code_simp
    with that show ?thesis by (simp add: list_all_iff)
  qed
  moreover have "record_of i s \<in> set (bs_records s)" if "in_store i s" "store_inv s" for i s
    using that by (simp add: record_of_def in_store_def store_inv_def)
  ultimately have "unready_unpinned ?m1"
    using manager_invD(2) [OF m1] by (auto simp: unready_unpinned_def)
  then show ?thesis
    unfolding demo_manager_def
    by (rule manager_inv_transition [OF m1, of Admitting 0 Ready]) (auto intro: prod.collapse [symmetric])
qed

theorem fetch_local_outcomes_witness:
  "fl_status (projr (fst (manager_fetch_local 7 0 1 demo_manager))) = Hit \<and>
   fl_status (projr (fst (manager_fetch_local 7 0 2 demo_manager))) = StaleGeneration \<and>
   (\<exists>r m'. manager_fetch_local 7 0 1 demo_manager = (Inr r, m') \<and>
      br_refcount (block_of 0 m') = 1 \<and> br_last_access_ns (block_of 0 m') = 7)"
proof -
  have h: "fl_status (projr (fst (manager_fetch_local 7 0 1 demo_manager))) = Hit" by code_simp
  have s: "fl_status (projr (fst (manager_fetch_local 7 0 2 demo_manager))) = StaleGeneration" by code_simp
  have z: "br_refcount (block_of 0 demo_manager) = 0" "has_block 0 demo_manager" by code_simp+
  obtain r m' where run: "manager_fetch_local 7 0 1 demo_manager = (Inr r, m')"
    and upd: "fl_status r = Hit \<Longrightarrow> m' = demo_manager\<lparr>bm_store := put_record 0 ((block_of 0 demo_manager)
            \<lparr>br_last_access_ns := 7, br_access_count := br_access_count (block_of 0 demo_manager) + 1,
             br_refcount := br_refcount (block_of 0 demo_manager) + 1\<rparr>) (bm_store demo_manager)\<rparr>"
    using fetch_local_outcomes [of demo_manager 7 0 1] demo_manager_inv by (auto split: if_splits)
  then show ?thesis
    using h s z demo_manager_inv by (auto simp: record_of_put_record manager_invD)
qed

text \<open>C24: a transition out of a state other than \<open>Free\<close> succeeds exactly when the record is in
  the stated state, the state graph has the edge and, for an eviction, no handle is outstanding.
  When it succeeds the record's state is the new one; when it throws nothing has changed.\<close>

theorem transition_outcomes:
  assumes "manager_inv m" and "f \<noteq> Free" and run: "manager_transition i f t m = (v, m')"
  shows "(v = Inr () \<longleftrightarrow>
      has_block i m \<and> br_state (block_of i m) = f \<and> is_legal_transition f t \<and>
      (f = Ready \<and> t = Evicting \<longrightarrow> br_refcount (block_of i m) = 0)) \<and>
    (if v = Inr () then bm_store m' = put_record i ((block_of i m)\<lparr>br_state := t\<rparr>) (bm_store m)
     else m' = m)"
proof (cases "transition_guard i f t m")
  case False
  then show ?thesis
    using manager_transition_not_guard [OF False] run by (auto simp: transition_guard_def)
next
  case g: True
  have "v = Inr () \<and> bm_store m' = put_record i ((block_of i m)\<lparr>br_state := t\<rparr>) (bm_store m)"
  proof (cases "t = Free")
    case True
    from assms(1) g [unfolded True] show ?thesis
      by (rule manager_transition_Free) (use run True in \<open>auto simp: set_block_state_def\<close>)
  next
    case False
    then show ?thesis using manager_transition_guard [OF g] run by (simp add: set_block_state_def)
  qed
  with g show ?thesis by (simp add: transition_guard_def)
qed

theorem transition_outcomes_witness:
  "fst (manager_transition 0 Ready Evicting demo_manager) = Inr () \<and>
   fst (manager_transition 0 Ready Evicting (snd (manager_acquire 7 0 demo_manager))) \<noteq> Inr ()"
proof -
  let ?p = "snd (manager_acquire 7 0 demo_manager)"
  have i: "manager_inv demo_manager" "manager_inv ?p"
    using demo_manager_inv manager_inv_acquire [of demo_manager 7 0 _ ?p] by (auto intro: prod.collapse [symmetric])
  have "has_block 0 demo_manager \<and> br_state (block_of 0 demo_manager) = Ready \<and>
      br_refcount (block_of 0 demo_manager) = 0" by code_simp
  moreover have "br_refcount (block_of 0 ?p) = 1" by code_simp
  ultimately show ?thesis
    using transition_outcomes [OF i(1), of Ready 0 Evicting "fst (manager_transition 0 Ready Evicting demo_manager)"]
      transition_outcomes [OF i(2), of Ready 0 Evicting "fst (manager_transition 0 Ready Evicting ?p)"]
    by (metis block_state.distinct(3) is_legal_transition.simps(4) prod.collapse zero_neq_one)
qed

end
