(* ===== verification/Prefix_Index.thy ===== *)
theory Prefix_Index
  imports Ids
begin

text \<open>
  \<open>prefix/prefix_index.{h,cc}\<close>: a radix tree over token sequences, one tree per context hash, held
  in one vector of nodes that refer to each other by index. A node at a block boundary may carry
  the block that caches the tokens up to it.

  The loops return an option: \<open>None\<close> stands for a run with no defined result, one that reads past
  the end of a vector or divides by zero (undefined behaviour), or never ends. The refinement
  theory proves that on a well-formed index every operation returns.

  The maps \<open>children\<close>, \<open>namespace_roots_\<close> and \<open>block_node_index_\<close> are association lists with
  distinct keys; the order of \<open>std::unordered_map\<close> iteration is unspecified, and the results of the
  two loops that iterate (the counts) are proved independent of it. Node indices are the
  \<open>uint32_t\<close> of the code, as naturals with the conversion's wrap-around written out.
\<close>

section \<open>State\<close>

definition invalid_node :: nat where
  "invalid_node = 4294967295"

record index_node =
  nd_edge :: "token_id list"
  nd_terminal :: "block_id option"
  nd_children :: "(token_id \<times> nat) list"
  nd_parent :: nat
  nd_first :: token_id

definition empty_node :: index_node where
  "empty_node = \<lparr>nd_edge = [], nd_terminal = None, nd_children = [],
     nd_parent = invalid_node, nd_first = 0\<rparr>"

record prefix_index =
  px_block_size :: u32
  px_nodes :: "index_node list"
  px_roots :: "(context_hash \<times> nat) list"
  px_block_node :: "(block_id \<times> nat) list"

record index_lookup_result =
  il_blocks :: "block_id list"
  il_matched_tokens :: u32

definition make_index :: "u32 \<Rightarrow> prefix_index" where
  "make_index bs = \<lparr>px_block_size = bs, px_nodes = [], px_roots = [], px_block_node = []\<rparr>"

definition index_bs :: "prefix_index \<Rightarrow> nat" where
  "index_bs x = unat (px_block_size x)"

text \<open>\<open>nodes_[n]\<close>, undefined out of range, and an update of one node.\<close>

definition node_at :: "prefix_index \<Rightarrow> nat \<Rightarrow> index_node option" where
  "node_at x n = (if n < length (px_nodes x) then Some (px_nodes x ! n) else None)"

definition set_node :: "nat \<Rightarrow> (index_node \<Rightarrow> index_node) \<Rightarrow> prefix_index \<Rightarrow> prefix_index" where
  "set_node n f x = x\<lparr>px_nodes := (px_nodes x)[n := f (px_nodes x ! n)]\<rparr>"

section \<open>Creating nodes\<close>

definition new_node :: "prefix_index \<Rightarrow> nat \<times> prefix_index" where
  "new_node x = (length (px_nodes x) mod 2 ^ 32, x\<lparr>px_nodes := px_nodes x @ [empty_node]\<rparr>)"

definition get_or_create_root :: "context_hash \<Rightarrow> prefix_index \<Rightarrow> nat \<times> prefix_index" where
  "get_or_create_root ctx x =
     (case map_of (px_roots x) ctx of
        Some r \<Rightarrow> (r, x)
      | None \<Rightarrow>
          let (root, x1) = new_node x
          in (root, x1\<lparr>px_roots := AList.update ctx root (px_roots x1)\<rparr>))"

section \<open>Lookup\<close>

text \<open>The comparison loop: some token of the edge differs from the query at \<open>pos\<close>.\<close>

definition edge_mismatch :: "token_id list \<Rightarrow> nat \<Rightarrow> token_id list \<Rightarrow> bool" where
  "edge_mismatch toks pos edge = list_ex (\<lambda>i. toks ! (pos + i) \<noteq> edge ! i) [0..<length edge]"

partial_function (option) lookup_loop ::
  "prefix_index \<Rightarrow> token_id list \<Rightarrow> nat \<Rightarrow> nat \<Rightarrow> block_id list \<Rightarrow> block_id list option" where
  "lookup_loop x toks n pos acc =
     (if length toks \<le> pos then Some acc
      else Option.bind (node_at x n) (\<lambda>nd.
        case map_of (nd_children nd) (toks ! pos) of
          None \<Rightarrow> Some acc
        | Some c \<Rightarrow> Option.bind (node_at x c) (\<lambda>cn.
            if length toks - pos < length (nd_edge cn) then Some acc
            else if edge_mismatch toks pos (nd_edge cn) then Some acc
            else if index_bs x = 0 then None
            else if (pos + length (nd_edge cn)) mod index_bs x = 0
            then (case nd_terminal cn of
                Some b \<Rightarrow> lookup_loop x toks c (pos + length (nd_edge cn)) (acc @ [b])
              | None \<Rightarrow> Some acc)
            else lookup_loop x toks c (pos + length (nd_edge cn)) acc)))"

definition index_lookup :: "context_hash \<Rightarrow> token_id list \<Rightarrow> prefix_index \<Rightarrow> index_lookup_result option" where
  "index_lookup ctx toks x =
     (if toks = [] then Some \<lparr>il_blocks = [], il_matched_tokens = 0\<rparr>
      else case map_of (px_roots x) ctx of
        None \<Rightarrow> Some \<lparr>il_blocks = [], il_matched_tokens = 0\<rparr>
      | Some root \<Rightarrow> map_option (\<lambda>blocks.
          \<lparr>il_blocks = blocks, il_matched_tokens = of_nat (length blocks * index_bs x)\<rparr>)
          (lookup_loop x toks root 0 []))"

section \<open>Insertion\<close>

text \<open>The loop \<open>while (lcp < max_match && tokens[pos + lcp] == edge[lcp]) ++lcp\<close>.\<close>

function lcp_loop :: "token_id list \<Rightarrow> nat \<Rightarrow> token_id list \<Rightarrow> nat \<Rightarrow> nat \<Rightarrow> nat" where
  "lcp_loop toks pos edge max_match lcp =
     (if lcp < max_match \<and> toks ! (pos + lcp) = edge ! lcp
      then lcp_loop toks pos edge max_match (Suc lcp) else lcp)"
  by pat_completeness auto
termination
  by (relation "measure (\<lambda>(toks, pos, edge, max_match, lcp). max_match - lcp)") auto

declare lcp_loop.simps [simp del]

text \<open>No child on the first token: a leaf that covers the rest of the segment.\<close>

definition create_leaf ::
  "token_id list \<Rightarrow> block_id \<Rightarrow> nat \<Rightarrow> nat \<Rightarrow> nat \<Rightarrow> prefix_index \<Rightarrow> nat \<times> prefix_index" where
  "create_leaf toks block segment_end n pos x =
     (let edge = take (segment_end - pos) (drop pos toks);
          first = toks ! pos;
          (new_idx, x1) = new_node x;
          x2 = set_node new_idx (\<lambda>nd. nd\<lparr>nd_edge := edge, nd_terminal := Some block,
                 nd_parent := n, nd_first := first\<rparr>) x1;
          x3 = x2\<lparr>px_block_node := AList.update block new_idx (px_block_node x2)\<rparr>;
          x4 = set_node n (\<lambda>nd. nd\<lparr>nd_children := AList.update first new_idx (nd_children nd)\<rparr>) x3
      in (new_idx, x4))"

definition set_terminal_if_none :: "nat \<Rightarrow> block_id \<Rightarrow> prefix_index \<Rightarrow> prefix_index" where
  "set_terminal_if_none c block x =
     (if nd_terminal (px_nodes x ! c) = None
      then (set_node c (\<lambda>nd. nd\<lparr>nd_terminal := Some block\<rparr>) x)
             \<lparr>px_block_node := AList.update block c (px_block_node x)\<rparr>
      else x)"

text \<open>The child's edge is cut at \<open>lcp\<close>: a new node below it takes the rest of the edge, the
  terminal block and the children.\<close>

definition split_edge :: "nat \<Rightarrow> nat \<Rightarrow> prefix_index \<Rightarrow> prefix_index" where
  "split_edge c lcp x =
     (let cn = px_nodes x ! c;
          split_terminal = nd_terminal cn;
          split_edge = drop lcp (nd_edge cn);
          split_first = hd split_edge;
          (split_idx, x1) = new_node x;
          x2 = set_node split_idx (\<lambda>nd. nd\<lparr>nd_edge := split_edge, nd_terminal := split_terminal,
                 nd_children := nd_children cn, nd_parent := c, nd_first := split_first\<rparr>) x1;
          x3 = fold (\<lambda>(tok, grandchild). set_node grandchild (\<lambda>nd. nd\<lparr>nd_parent := split_idx\<rparr>))
                 (nd_children cn) x2;
          x4 = (case split_terminal of
                  Some b \<Rightarrow> x3\<lparr>px_block_node := AList.update b split_idx (px_block_node x3)\<rparr>
                | None \<Rightarrow> x3)
      in set_node c (\<lambda>nd. nd\<lparr>nd_edge := take lcp (nd_edge nd), nd_terminal := None,
           nd_children := [(split_first, split_idx)]\<rparr>) x4)"

text \<open>The inner loop over one block's segment of the tokens. Every path reads the segment to its
  end, so a token vector that is too short is undefined behaviour at once.\<close>

partial_function (option) insert_segment ::
  "token_id list \<Rightarrow> block_id \<Rightarrow> nat \<Rightarrow> prefix_index \<Rightarrow> nat \<Rightarrow> nat \<Rightarrow>
   (prefix_index \<times> nat \<times> nat) option" where
  "insert_segment toks block segment_end x n pos =
     (if segment_end \<le> pos then Some (x, n, pos)
      else if length toks < segment_end then None
      else Option.bind (node_at x n) (\<lambda>nd.
        case map_of (nd_children nd) (toks ! pos) of
          None \<Rightarrow>
            (case create_leaf toks block segment_end n pos x of
               (new_idx, x1) \<Rightarrow> Some (x1, new_idx, segment_end))
        | Some c \<Rightarrow> Option.bind (node_at x c) (\<lambda>cn.
            let lcp = lcp_loop toks pos (nd_edge cn)
                        (min (length (nd_edge cn)) (segment_end - pos)) 0
            in if lcp = length (nd_edge cn)
               then if pos + lcp = segment_end
                 then Some (set_terminal_if_none c block x, c, pos + lcp)
                 else insert_segment toks block segment_end x c (pos + lcp)
               else if list_all (\<lambda>(tok, g). g < length (px_nodes x)) (nd_children cn)
               then insert_segment toks block segment_end (split_edge c lcp x) c (pos + lcp)
               else None)))"

fun insert_loop ::
  "token_id list \<Rightarrow> block_id list \<Rightarrow> nat \<Rightarrow> prefix_index \<Rightarrow> nat \<Rightarrow> nat \<Rightarrow> prefix_index option" where
  "insert_loop toks [] block_counter x n pos = Some x"
| "insert_loop toks (b # blocks) block_counter x n pos =
     Option.bind (insert_segment toks b (Suc block_counter * index_bs x) x n pos)
       (\<lambda>(x1, n1, pos1). insert_loop toks blocks (Suc block_counter) x1 n1 pos1)"

definition index_insert ::
  "context_hash \<Rightarrow> token_id list \<Rightarrow> block_id list \<Rightarrow> prefix_index \<Rightarrow> prefix_index option" where
  "index_insert ctx toks blocks x =
     (if blocks = [] then Some x
      else case get_or_create_root ctx x of
        (root, x1) \<Rightarrow> insert_loop toks blocks 0 x1 root 0)"

section \<open>Removal\<close>

partial_function (option) prune_if_empty :: "prefix_index \<Rightarrow> nat \<Rightarrow> prefix_index option" where
  "prune_if_empty x n =
     (if n = invalid_node then Some x
      else Option.bind (node_at x n) (\<lambda>nd.
        if nd_children nd \<noteq> [] \<or> nd_terminal nd \<noteq> None then Some x
        else if nd_parent nd = invalid_node then Some x
        else Option.bind (node_at x (nd_parent nd)) (\<lambda>parent.
          prune_if_empty
            (set_node (nd_parent nd)
              (\<lambda>p. p\<lparr>nd_children := AList.delete (nd_first nd) (nd_children p)\<rparr>) x)
            (nd_parent nd))))"

definition index_remove :: "block_id \<Rightarrow> prefix_index \<Rightarrow> prefix_index option" where
  "index_remove i x =
     (case map_of (px_block_node x) i of
        None \<Rightarrow> Some x
      | Some n \<Rightarrow>
          if n < length (px_nodes x)
          then prune_if_empty
            ((set_node n (\<lambda>nd. nd\<lparr>nd_terminal := None\<rparr>) x)
               \<lparr>px_block_node := AList.delete i (px_block_node x)\<rparr>) n
          else None)"

section \<open>Counts\<close>

text \<open>The children whose edge fits in what remains of the block, with what then remains.\<close>

fun push_children :: "prefix_index \<Rightarrow> u32 \<Rightarrow> (token_id \<times> nat) list \<Rightarrow> (nat \<times> u32) list option" where
  "push_children x remaining [] = Some []"
| "push_children x remaining ((tok, child) # cs) =
     Option.bind (node_at x child) (\<lambda>cn.
     Option.bind (push_children x remaining cs) (\<lambda>rest.
       let edge_len = of_nat (length (nd_edge cn)) in
       Some (if edge_len \<le> remaining then (child, remaining - edge_len) # rest else rest)))"

partial_function (option) child_count_loop :: "prefix_index \<Rightarrow> (nat \<times> u32) list \<Rightarrow> u32 \<Rightarrow> u32 option" where
  "child_count_loop x q cnt =
     (case q of
        [] \<Rightarrow> Some cnt
      | (n, rem) # rest \<Rightarrow> Option.bind (node_at x n) (\<lambda>nd.
          if rem = 0
          then child_count_loop x rest (if nd_terminal nd \<noteq> None then cnt + 1 else cnt)
          else Option.bind (push_children x rem (nd_children nd))
            (\<lambda>pushed. child_count_loop x (rest @ pushed) cnt)))"

definition block_child_count :: "block_id \<Rightarrow> prefix_index \<Rightarrow> u32 option" where
  "block_child_count i x =
     (case map_of (px_block_node x) i of
        None \<Rightarrow> Some 0
      | Some start \<Rightarrow> Option.bind (node_at x start) (\<lambda>nd.
          Option.bind (push_children x (px_block_size x) (nd_children nd))
            (\<lambda>q. child_count_loop x q 0)))"

text \<open>The stack's top is the vector's back.\<close>

partial_function (option) descendant_count_loop :: "prefix_index \<Rightarrow> nat list \<Rightarrow> u32 \<Rightarrow> u32 option" where
  "descendant_count_loop x stack cnt =
     (if stack = [] then Some cnt
      else Option.bind (node_at x (last stack)) (\<lambda>nd.
        descendant_count_loop x (butlast stack @ map snd (nd_children nd))
          (if nd_terminal nd \<noteq> None then cnt + 1 else cnt)))"

definition block_descendant_count :: "block_id \<Rightarrow> prefix_index \<Rightarrow> u32 option" where
  "block_descendant_count i x =
     (case map_of (px_block_node x) i of
        None \<Rightarrow> Some 0
      | Some n \<Rightarrow> Option.bind (node_at x n)
          (\<lambda>nd. descendant_count_loop x (map snd (nd_children nd)) 0))"

text \<open>The loops evaluate by their equations.\<close>

declare lookup_loop.simps [code]
declare insert_segment.simps [code]
declare prune_if_empty.simps [code]
declare child_count_loop.simps [code]
declare descendant_count_loop.simps [code]

end
