(* ===== verification/Policy.thy ===== *)
theory Policy
  imports Block_Store Prefix_Index
begin

text \<open>
  \<open>policy/\<close>: what the policies see of a block, a candidate, a request and a node
  (\<open>policy_features.h\<close>, built by \<open>feature_builders.cc\<close>), the interfaces of the policies and the
  policies of \<open>policies/\<close>.

  A policy object is its decision function with its name. The policies under \<open>policies/\<close> keep no
  state (but \<open>RandomRoutingPolicy\<close>, whose generator state is passed explicitly), so a policy is a
  record of pure functions, and a controller takes any such record.
\<close>

section \<open>Features\<close>

record block_features =
  bf_id :: block_id
  bf_hash :: content_hash
  bf_tier :: tier
  bf_payload_bytes :: u64
  bf_age_ns :: u64
  bf_last_access_ns :: u64
  bf_access_count :: u64
  bf_prefix_depth_blocks :: u32
  bf_prefix_child_count :: u32
  bf_descendant_block_count :: u32
  bf_is_shared_prefix :: bool
  bf_is_remote_origin :: bool
  bf_estimated_recompute_cost_ns :: u64
  bf_estimated_refetch_cost_ns :: u64

record candidate_features =
  cf_hash :: content_hash
  cf_block_index :: u32
  cf_token_count :: u16
  cf_payload_bytes :: u64
  cf_origin :: block_origin
  cf_prefix_depth_blocks :: u32
  cf_estimated_recompute_cost_ns :: u64

record request_features =
  qf_context_hash :: context_hash
  qf_request_id :: request_id
  qf_token_count :: u32
  qf_full_block_count :: u32
  qf_already_matched_blocks :: u32
  qf_missing_blocks :: u32
  qf_estimated_prefill_cost_ns :: u64

record node_features =
  nf_node_id :: node_id
  nf_gpu_sim_used_bytes :: u64
  nf_gpu_sim_capacity_bytes :: u64
  nf_host_used_bytes :: u64
  nf_host_capacity_bytes :: u64
  nf_recent_local_hits :: u64
  nf_recent_remote_hits :: u64
  nf_recent_evictions :: u64
  nf_estimated_queue_delay_ns :: u64

text \<open>\<open>BlockFeatureBuilder::build\<close>. The counts walk the index; a walk with no defined result (see
  \<^theory_text>\<open>Prefix_Index\<close>) is undefined behaviour here too.\<close>

definition defined_or :: "string \<Rightarrow> 'a option \<Rightarrow> 'a outcome" where
  "defined_or what r = (case r of None \<Rightarrow> Inl (Undefined_behaviour what) | Some x \<Rightarrow> Inr x)"

definition build_features ::
  "block_store \<Rightarrow> prefix_index \<Rightarrow> block_id \<Rightarrow> u64 \<Rightarrow> block_features outcome" where
  "build_features s x i now =
     (case store_get i s of
        Inl e \<Rightarrow> Inl e
      | Inr rec \<Rightarrow>
          (case defined_or ''blockChildCount'' (block_child_count i x) of
             Inl e \<Rightarrow> Inl e
           | Inr child_count \<Rightarrow>
               (case defined_or ''blockDescendantCount'' (block_descendant_count i x) of
                  Inl e \<Rightarrow> Inl e
                | Inr descendants \<Rightarrow>
                    (let last_ns = br_last_access_ns rec;
                         age_ns = (if last_ns \<le> now then now - last_ns else 0)
                     in Inr \<lparr>bf_id = i, bf_hash = br_hash rec, bf_tier = br_tier rec,
                          bf_payload_bytes = 0, bf_age_ns = age_ns, bf_last_access_ns = last_ns,
                          bf_access_count = br_access_count rec,
                          bf_prefix_depth_blocks = br_block_index rec,
                          bf_prefix_child_count = child_count,
                          bf_descendant_block_count = descendants,
                          bf_is_shared_prefix = (child_count > 0), bf_is_remote_origin = False,
                          bf_estimated_recompute_cost_ns = 0,
                          bf_estimated_refetch_cost_ns = 0\<rparr>))))"

section \<open>Interfaces\<close>

datatype admission_choice = Admit | Reject

record admission_context =
  ac_request_id :: request_id
  ac_context_hash :: context_hash
  ac_missing_blocks :: u32
  ac_timestamp_ns :: u64

record admission_policy =
  ap_name :: string
  ap_decide :: "admission_context \<Rightarrow> candidate_features \<Rightarrow> admission_choice"

record eviction_context =
  ec_tier :: tier
  ec_needed_bytes :: u64
  ec_timestamp_ns :: u64

record eviction_policy =
  ep_name :: string
  ep_choose_victim :: "eviction_context \<Rightarrow> block_features list \<Rightarrow> block_id option"

record placement_context =
  pc_gpu_sim_used_blocks :: u32
  pc_gpu_sim_capacity_blocks :: u32
  pc_host_used_blocks :: u32
  pc_host_capacity_blocks :: u32
  pc_timestamp_ns :: u64

record placement_policy =
  pp_name :: string
  pp_choose_tier :: "placement_context \<Rightarrow> candidate_features \<Rightarrow> tier"

datatype promotion_choice = Promote | Stay

record scan_context =
  sc_gpu_sim_used_blocks :: u32
  sc_gpu_sim_capacity_blocks :: u32
  sc_timestamp_ns :: u64

record promotion_policy =
  mp_name :: string
  mp_decide :: "scan_context \<Rightarrow> block_features \<Rightarrow> promotion_choice"

datatype demotion_choice = Demote | Remain

record demotion_policy =
  dp_name :: string
  dp_decide :: "scan_context \<Rightarrow> block_features \<Rightarrow> demotion_choice"

record replica_context =
  rc_target_hash :: content_hash
  rc_requesting_node :: node_id
  rc_timestamp_ns :: u64

record replica_policy =
  rp_name :: string
  rp_choose_replica :: "replica_context \<Rightarrow> global_block_ref list \<Rightarrow> global_block_ref option"

record routing_context =
  tc_context_hash :: context_hash
  tc_full_block_count :: u32
  tc_first_block_hash :: content_hash
  tc_timestamp_ns :: u64

record prefetch_context =
  fc_context_hash :: context_hash
  fc_last_matched_block_index :: u32
  fc_node_id :: node_id
  fc_timestamp_ns :: u64

record tier_access_input =
  ta_tier :: tier
  ta_payload_bytes :: u64

record migration_input =
  mi_source :: tier
  mi_dest :: tier
  mi_payload_bytes :: u64

record network_fetch_input =
  ni_payload_bytes :: u64
  ni_estimated_rtt_ns :: u64

record lookup_cost_input =
  li_token_count :: u32
  li_matched_blocks :: u32

record latency_model =
  lm_name :: string
  lm_local_lookup_ns :: "lookup_cost_input \<Rightarrow> u64"
  lm_tier_access_ns :: "tier_access_input \<Rightarrow> u64"
  lm_migration_ns :: "migration_input \<Rightarrow> u64"
  lm_network_fetch_ns :: "network_fetch_input \<Rightarrow> u64"

section \<open>Policies\<close>

definition always_admit :: admission_policy where
  "always_admit = \<lparr>ap_name = ''always_admit'', ap_decide = (\<lambda>ctx cand. Admit)\<rparr>"

definition no_eviction :: eviction_policy where
  "no_eviction = \<lparr>ep_name = ''no_eviction'', ep_choose_victim = (\<lambda>ctx cands. None)\<rparr>"

text \<open>\<open>std::min_element\<close>: the first of the least elements.\<close>

fun min_element :: "('a \<Rightarrow> 'b :: linorder) \<Rightarrow> 'a \<Rightarrow> 'a list \<Rightarrow> 'a" where
  "min_element f best [] = best"
| "min_element f best (c # cs) = (if f c < f best then min_element f c cs else min_element f best cs)"

definition lru_choose_victim :: "eviction_context \<Rightarrow> block_features list \<Rightarrow> block_id option" where
  "lru_choose_victim ctx cands =
     (case cands of [] \<Rightarrow> None | c # cs \<Rightarrow> Some (bf_id (min_element bf_last_access_ns c cs)))"

definition lru_eviction :: eviction_policy where
  "lru_eviction = \<lparr>ep_name = ''lru'', ep_choose_victim = lru_choose_victim\<rparr>"

text \<open>\<open>PrefixAwareEvictionPolicy\<close>: the loop keeps the first candidate of the least score. The score
  is a \<open>double\<close>; its arithmetic is in \<^theory_text>\<open>Double\<close>.\<close>

fun least_score_loop :: "('a \<Rightarrow> 's :: linorder) \<Rightarrow> 'a list \<Rightarrow> 'a \<Rightarrow> 's \<Rightarrow> 'a" where
  "least_score_loop score [] best best_score = best"
| "least_score_loop score (c # cs) best best_score =
     (if score c < best_score then least_score_loop score cs c (score c)
      else least_score_loop score cs best best_score)"

definition least_score_victim ::
  "(block_features \<Rightarrow> 's :: linorder) \<Rightarrow> eviction_context \<Rightarrow> block_features list \<Rightarrow> block_id option" where
  "least_score_victim score ctx cands =
     (case cands of [] \<Rightarrow> None | c # cs \<Rightarrow> Some (bf_id (least_score_loop score cs c (score c))))"

definition gpu_first_placement :: placement_policy where
  "gpu_first_placement = \<lparr>pp_name = ''gpu_first'',
     pp_choose_tier = (\<lambda>ctx cand.
       if pc_gpu_sim_used_blocks ctx < pc_gpu_sim_capacity_blocks ctx then GpuSim else Host)\<rparr>"

definition no_promotion :: promotion_policy where
  "no_promotion = \<lparr>mp_name = ''no_promotion'', mp_decide = (\<lambda>ctx block. Stay)\<rparr>"

definition no_demotion :: demotion_policy where
  "no_demotion = \<lparr>dp_name = ''no_demotion'', dp_decide = (\<lambda>ctx cand. Remain)\<rparr>"

definition first_replica :: replica_policy where
  "first_replica = \<lparr>rp_name = ''first_replica'',
     rp_choose_replica = (\<lambda>ctx replicas. if replicas = [] then None else Some (replicas ! 0))\<rparr>"

definition hash_first_block_choose :: "routing_context \<Rightarrow> node_features list \<Rightarrow> node_id outcome" where
  "hash_first_block_choose ctx nodes =
     (if nodes = [] then Inl (Logic_error ''HashFirstBlockRoutingPolicy: no nodes'')
      else Inr (nf_node_id (nodes ! (unat (hash_lo (tc_first_block_hash ctx)) mod length nodes))))"

text \<open>\<open>RandomRoutingPolicy\<close>: the generator and the distribution are the standard library's; a draw
  from \<open>uniform_int_distribution(0, n)\<close> is a parameter that returns an index and the next state.\<close>

definition random_choose ::
  "(nat \<Rightarrow> 'rng \<Rightarrow> nat \<times> 'rng) \<Rightarrow> node_features list \<Rightarrow> 'rng \<Rightarrow> node_id \<times> 'rng" where
  "random_choose draw nodes rng =
     (if nodes = [] then (0, rng)
      else if length nodes = 1 then (nf_node_id (nodes ! 0), rng)
      else let (k, rng') = draw (length nodes - 1) rng in (nf_node_id (nodes ! k), rng'))"

definition no_prefetch_plan :: "prefetch_context \<Rightarrow> content_hash list" where
  "no_prefetch_plan ctx = []"

definition constant_latency :: "u64 \<Rightarrow> u64 \<Rightarrow> u64 \<Rightarrow> u64 \<Rightarrow> latency_model" where
  "constant_latency local_lookup tier_access migration network_fetch =
     \<lparr>lm_name = ''constant'', lm_local_lookup_ns = (\<lambda>_. local_lookup),
      lm_tier_access_ns = (\<lambda>_. tier_access), lm_migration_ns = (\<lambda>_. migration),
      lm_network_fetch_ns = (\<lambda>_. network_fetch)\<rparr>"

section \<open>The contract of an eviction policy\<close>

text \<open>What a controller relies on: the victim is one of the candidates.\<close>

locale candidate_eviction =
  fixes pick :: "eviction_context \<Rightarrow> block_features list \<Rightarrow> block_id option"
  assumes victim_is_candidate: "pick ctx cands = Some v \<Longrightarrow> v \<in> bf_id ` set cands"
begin

lemma no_candidates_no_victim: "pick ctx [] = None"
  using victim_is_candidate [of ctx "[]"] by (cases "pick ctx []") auto

end

text \<open>A policy that always evicts when it can and takes a block of the least rank, the first of
  these when several have it.\<close>

locale ranked_eviction = candidate_eviction +
  fixes rank :: "block_features \<Rightarrow> 's :: linorder"
  assumes evicts: "cands \<noteq> [] \<Longrightarrow> pick ctx cands \<noteq> None"
    and least_first: "pick ctx cands = Some v \<Longrightarrow>
      \<exists>k < length cands. v = bf_id (cands ! k) \<and>
        (\<forall>j < length cands. rank (cands ! k) \<le> rank (cands ! j)) \<and>
        (\<forall>j < k. rank (cands ! k) < rank (cands ! j))"

lemma min_element_first:
  "\<exists>k < length (c # cs). min_element f c cs = (c # cs) ! k \<and>
     (\<forall>j < length (c # cs). f ((c # cs) ! k) \<le> f ((c # cs) ! j)) \<and>
     (\<forall>j < k. f ((c # cs) ! k) < f ((c # cs) ! j))"
proof (induction cs arbitrary: c)
  case Nil
  then show ?case by simp
next
  case (Cons d ds)
  show ?case
  proof (cases "f d < f c")
    case True
    from Cons.IH [of d] obtain k where k: "k < length (d # ds)" "min_element f d ds = (d # ds) ! k"
      "\<forall>j < length (d # ds). f ((d # ds) ! k) \<le> f ((d # ds) ! j)"
      "\<forall>j < k. f ((d # ds) ! k) < f ((d # ds) ! j)" by blast
    from k(3) have "f ((d # ds) ! k) \<le> f d" by force
    with True have "f ((d # ds) ! k) < f c" by simp
    with True k show ?thesis
      by (intro exI [of _ "Suc k"]) (auto simp: less_Suc_eq_0_disj)
  next
    case False
    from Cons.IH [of c] obtain k where k: "k < length (c # ds)" "min_element f c ds = (c # ds) ! k"
      "\<forall>j < length (c # ds). f ((c # ds) ! k) \<le> f ((c # ds) ! j)"
      "\<forall>j < k. f ((c # ds) ! k) < f ((c # ds) ! j)" by blast
    from k(3) have kc: "f ((c # ds) ! k) \<le> f c" by force
    with False have kd: "f ((c # ds) ! k) \<le> f d" by simp
    show ?thesis
    proof (cases k)
      case 0
      with False k kd show ?thesis by (intro exI [of _ 0]) (auto simp: less_Suc_eq_0_disj)
    next
      case (Suc k')
      with k(4) have "f ((c # ds) ! k) < f c" by force
      with False have "f ((c # ds) ! k) < f d" by simp
      with False Suc k kc kd show ?thesis
        by (intro exI [of _ "Suc (Suc k')"]) (auto simp: less_Suc_eq_0_disj)
    qed
  qed
qed

lemma least_score_loop_eq: "least_score_loop score cs best (score best) = min_element score best cs"
  by (induction cs arbitrary: best) simp_all

interpretation lru: ranked_eviction lru_choose_victim bf_last_access_ns
proof unfold_locales
  fix ctx cands v assume *: "lru_choose_victim ctx cands = Some v"
  then obtain c cs where cands: "cands = c # cs" by (cases cands) (auto simp: lru_choose_victim_def)
  with * have v: "v = bf_id (min_element bf_last_access_ns c cs)" by (simp add: lru_choose_victim_def)
  show least: "\<exists>k < length cands. v = bf_id (cands ! k) \<and>
        (\<forall>j < length cands. bf_last_access_ns (cands ! k) \<le> bf_last_access_ns (cands ! j)) \<and>
        (\<forall>j < k. bf_last_access_ns (cands ! k) < bf_last_access_ns (cands ! j))"
    using min_element_first [of c cs bf_last_access_ns] unfolding v cands by metis
  then show "v \<in> bf_id ` set cands" by auto
qed (auto simp: lru_choose_victim_def split: list.splits)

interpretation scored: ranked_eviction "least_score_victim score" score for score
proof unfold_locales
  fix ctx cands v assume *: "least_score_victim score ctx cands = Some v"
  then obtain c cs where cands: "cands = c # cs" by (cases cands) (auto simp: least_score_victim_def)
  with * have v: "v = bf_id (min_element score c cs)"
    by (simp add: least_score_victim_def least_score_loop_eq)
  show least: "\<exists>k < length cands. v = bf_id (cands ! k) \<and>
        (\<forall>j < length cands. score (cands ! k) \<le> score (cands ! j)) \<and>
        (\<forall>j < k. score (cands ! k) < score (cands ! j))"
    using min_element_first [of c cs score] unfolding v cands by metis
  then show "v \<in> bf_id ` set cands" by auto
qed (auto simp: least_score_victim_def split: list.splits)

interpretation never: candidate_eviction "ep_choose_victim no_eviction"
  by unfold_locales (simp add: no_eviction_def)

end
