(* ===== verification/Prefix_Engine.thy ===== *)
theory Prefix_Engine
  imports Block_Manager Policy
begin

text \<open>
  \<open>prefix/prefix_lookup_engine.{h,cc}\<close>: the prefix index together with the block manager. A lookup
  asks the index for the blocks of the longest cached prefix and takes a handle on each, up to the
  first block that is not ready or was cached with another block size.
\<close>

record engine_result =
  er_handles :: "block_handle list"
  er_matched_tokens :: u32

text \<open>Handles that are destroyed together.\<close>

definition release_handles :: "block_handle list \<Rightarrow> block_manager \<Rightarrow> block_manager" where
  "release_handles hs m = m\<lparr>bm_store := fold handle_destroy hs (bm_store m)\<rparr>"

text \<open>The loop over the index's answer. A handle taken on a block whose token count differs is
  destroyed when the loop is left, and an exception destroys the handles of the result.\<close>

fun engine_loop ::
  "u64 \<Rightarrow> u32 \<Rightarrow> block_id list \<Rightarrow> engine_result \<Rightarrow> block_manager \<Rightarrow> engine_result outcome \<times> block_manager"
  where
  "engine_loop now bs [] r m = return_with r m"
| "engine_loop now bs (i # is) r m =
     and_then (on_throw (release_handles (er_handles r)) (manager_acquire now i m)) (\<lambda>handle m1.
       case handle of
         None \<Rightarrow> return_with r m1
       | Some h \<Rightarrow>
           (case handle_metadata h (bm_store m1) of
              Inl e \<Rightarrow> throw e (release_handles (h # er_handles r) m1)
            | Inr rec \<Rightarrow>
                if br_token_count rec \<noteq> ucast bs
                then return_with r (m1\<lparr>bm_store := handle_destroy h (bm_store m1)\<rparr>)
                else engine_loop now bs is
                  (r\<lparr>er_handles := er_handles r @ [h],
                     er_matched_tokens := er_matched_tokens r + bs\<rparr>) m1))"

definition raw_lookup_blocks ::
  "context_hash \<Rightarrow> token_id list \<Rightarrow> prefix_index \<Rightarrow> block_id list outcome" where
  "raw_lookup_blocks ctx toks x =
     (case defined_or ''PrefixIndex::lookup'' (index_lookup ctx toks x) of
        Inl e \<Rightarrow> Inl e
      | Inr raw \<Rightarrow> Inr (il_blocks raw))"

definition engine_lookup ::
  "u64 \<Rightarrow> context_hash \<Rightarrow> token_id list \<Rightarrow> u32 \<Rightarrow> prefix_index \<Rightarrow> block_manager \<Rightarrow>
   engine_result outcome \<times> block_manager" where
  "engine_lookup now ctx toks bs x m =
     (case raw_lookup_blocks ctx toks x of
        Inl e \<Rightarrow> throw e m
      | Inr blocks \<Rightarrow> engine_loop now bs blocks \<lparr>er_handles = [], er_matched_tokens = 0\<rparr> m)"

definition insert_full_blocks ::
  "context_hash \<Rightarrow> token_id list \<Rightarrow> block_id list \<Rightarrow> prefix_index \<Rightarrow> unit outcome \<times> prefix_index" where
  "insert_full_blocks ctx toks blocks x =
     (case index_insert ctx toks blocks x of
        None \<Rightarrow> throw (Undefined_behaviour ''PrefixIndex::insert'') x
      | Some x' \<Rightarrow> return_with () x')"

definition engine_remove_block :: "block_id \<Rightarrow> prefix_index \<Rightarrow> unit outcome \<times> prefix_index" where
  "engine_remove_block i x =
     (case index_remove i x of
        None \<Rightarrow> throw (Undefined_behaviour ''PrefixIndex::remove'') x
      | Some x' \<Rightarrow> return_with () x')"

end
