(* ===== verification/Tier.thy ===== *)
theory Tier
  imports Payload_Store Policy
begin

text \<open>
  \<open>tier/tier_store\<close> and \<open>tier/tier_manager\<close>: which blocks are present in which memory tier, with
  the payload bytes of the placed blocks and the tier and payload fields of their records.

  A \<open>TierManager\<close> owns its tiers and refers to a payload store, a latency model and a block store
  that belong to the caller. The block store may be that of the block manager it is used with, or
  another one, so the operations take and return it next to the tier manager.
\<close>

section \<open>Tier store\<close>

record tier_stats =
  st_capacity_blocks :: u32
  st_used_blocks :: u32

record tier_store =
  ts_capacity :: u32
  ts_ids :: "block_id set"

definition make_tier_store :: "u32 \<Rightarrow> tier_store" where
  "make_tier_store c = \<lparr>ts_capacity = c, ts_ids = {}\<rparr>"

definition tier_has_capacity :: "tier_store \<Rightarrow> bool" where
  "tier_has_capacity ts \<longleftrightarrow> (of_nat (card (ts_ids ts)) :: u32) < ts_capacity ts"

definition tier_contains :: "block_id \<Rightarrow> tier_store \<Rightarrow> bool" where
  "tier_contains i ts \<longleftrightarrow> i \<in> ts_ids ts"

definition tier_add :: "block_id \<Rightarrow> tier_store \<Rightarrow> unit outcome \<times> tier_store" where
  "tier_add i ts =
     (if \<not> tier_has_capacity ts then throw (Logic_error ''TierStore::add: tier at capacity'') ts
      else return_with () (ts\<lparr>ts_ids := insert i (ts_ids ts)\<rparr>))"

definition tier_remove :: "block_id \<Rightarrow> tier_store \<Rightarrow> tier_store" where
  "tier_remove i ts = ts\<lparr>ts_ids := ts_ids ts - {i}\<rparr>"

definition tier_stats_of :: "tier_store \<Rightarrow> tier_stats" where
  "tier_stats_of ts = \<lparr>st_capacity_blocks = ts_capacity ts, st_used_blocks = of_nat (card (ts_ids ts))\<rparr>"

section \<open>Tier manager\<close>

datatype tier_op_status = Success | Capacity_exceeded | Block_not_found

record tier_op_result =
  to_status :: tier_op_status
  to_latency_ns :: u64

text \<open>The tiers stand in the order in which the loop of \<open>remove\<close> visits them.\<close>

record tier_manager =
  tm_tiers :: "(tier \<times> tier_store) list"
  tm_payloads :: payload_store
  tm_latency :: latency_model

type_synonym tier_state = "tier_manager \<times> block_store"

definition on_blocks :: "tier_state \<Rightarrow> 'a outcome \<times> block_store \<Rightarrow> 'a outcome \<times> tier_state" where
  "on_blocks s = on_member (\<lambda>st s. (fst s, st)) s"

definition on_payloads :: "tier_state \<Rightarrow> 'a outcome \<times> payload_store \<Rightarrow> 'a outcome \<times> tier_state" where
  "on_payloads s = on_member (\<lambda>p s. ((fst s)\<lparr>tm_payloads := p\<rparr>, snd s)) s"

definition set_tier_store :: "tier \<Rightarrow> tier_store \<Rightarrow> tier_manager \<Rightarrow> tier_manager" where
  "set_tier_store t ts tm = tm\<lparr>tm_tiers := AList.update t ts (tm_tiers tm)\<rparr>"

definition on_tier_store :: "tier \<Rightarrow> tier_state \<Rightarrow> 'a outcome \<times> tier_store \<Rightarrow> 'a outcome \<times> tier_state" where
  "on_tier_store t s = on_member (\<lambda>ts s. (set_tier_store t ts (fst s), snd s)) s"

definition tier_of :: "tier \<Rightarrow> tier_manager \<Rightarrow> tier_store option" where
  "tier_of t tm = map_of (tm_tiers tm) t"

definition tier_manager_place ::
  "block_id \<Rightarrow> tier \<Rightarrow> u8 list \<Rightarrow> tier_state \<Rightarrow> tier_op_result outcome \<times> tier_state" where
  "tier_manager_place i target bytes s =
     (case tier_of target (fst s) of
        None \<Rightarrow> throw (Logic_error ''TierManager::place: unknown tier'') s
      | Some ts \<Rightarrow>
          if \<not> tier_has_capacity ts
          then return_with \<lparr>to_status = Capacity_exceeded, to_latency_ns = 0\<rparr> s
          else
            and_then (on_payloads s (payload_put bytes (tm_payloads (fst s)))) (\<lambda>ref s1.
            and_then (on_tier_store target s1 (tier_add i ts)) (\<lambda>_ s2.
            and_then (on_blocks s2 (store_set_tier i target (snd s2))) (\<lambda>_ s3.
            and_then (on_blocks s3 (store_set_payload i ref (snd s3))) (\<lambda>_ s4.
            return_with \<lparr>to_status = Success,
              to_latency_ns = lm_tier_access_ns (tm_latency (fst s4))
                \<lparr>ta_tier = target, ta_payload_bytes = ps_bytes_per_block (tm_payloads (fst s4))\<rparr>\<rparr> s4)))))"

text \<open>\<open>promote\<close> and \<open>demote\<close> have the same body but for the message.\<close>

definition tier_manager_move ::
  "string \<Rightarrow> block_id \<Rightarrow> tier \<Rightarrow> tier_state \<Rightarrow> tier_op_result outcome \<times> tier_state" where
  "tier_manager_move msg i target s =
     (case store_get i (snd s) of
        Inl e \<Rightarrow> throw e s
      | Inr rec \<Rightarrow>
          (let source = br_tier rec in
           case tier_of source (fst s) of
             None \<Rightarrow> return_with \<lparr>to_status = Block_not_found, to_latency_ns = 0\<rparr> s
           | Some source_ts \<Rightarrow>
               if \<not> tier_contains i source_ts
               then return_with \<lparr>to_status = Block_not_found, to_latency_ns = 0\<rparr> s
               else case tier_of target (fst s) of
                 None \<Rightarrow> throw (Logic_error msg) s
               | Some target_ts \<Rightarrow>
                   if \<not> tier_has_capacity target_ts
                   then return_with \<lparr>to_status = Capacity_exceeded, to_latency_ns = 0\<rparr> s
                   else
                     (let s1 = (set_tier_store source (tier_remove i source_ts) (fst s), snd s) in
                      and_then (on_tier_store target s1
                        (tier_add i (case tier_of target (fst s1) of Some ts \<Rightarrow> ts | None \<Rightarrow> target_ts)))
                        (\<lambda>_ s2.
                      and_then (on_blocks s2 (store_set_tier i target (snd s2))) (\<lambda>_ s3.
                      return_with \<lparr>to_status = Success,
                        to_latency_ns = lm_migration_ns (tm_latency (fst s3))
                          \<lparr>mi_source = source, mi_dest = target,
                           mi_payload_bytes = ps_bytes_per_block (tm_payloads (fst s3))\<rparr>\<rparr> s3)))))"

definition tier_manager_promote ::
  "block_id \<Rightarrow> tier \<Rightarrow> tier_state \<Rightarrow> tier_op_result outcome \<times> tier_state" where
  "tier_manager_promote = tier_manager_move ''TierManager::promote: unknown target tier''"

definition tier_manager_demote ::
  "block_id \<Rightarrow> tier \<Rightarrow> tier_state \<Rightarrow> tier_op_result outcome \<times> tier_state" where
  "tier_manager_demote = tier_manager_move ''TierManager::demote: unknown target tier''"

fun tier_remove_loop ::
  "block_id \<Rightarrow> (tier \<times> tier_store) list \<Rightarrow> tier_state \<Rightarrow> tier_op_result outcome \<times> tier_state" where
  "tier_remove_loop i [] s = return_with \<lparr>to_status = Block_not_found, to_latency_ns = 0\<rparr> s"
| "tier_remove_loop i ((t, ts) # rest) s =
     (if tier_contains i ts
      then case store_get i (snd s) of
        Inl e \<Rightarrow> throw e s
      | Inr rec \<Rightarrow>
          and_then (on_payloads s (payload_remove (br_payload rec) (tm_payloads (fst s)))) (\<lambda>_ s1.
            (let s2 = (set_tier_store t (tier_remove i ts) (fst s1), snd s1) in
             return_with \<lparr>to_status = Success,
               to_latency_ns = lm_tier_access_ns (tm_latency (fst s2))
                 \<lparr>ta_tier = t, ta_payload_bytes = ps_bytes_per_block (tm_payloads (fst s2))\<rparr>\<rparr> s2))
      else tier_remove_loop i rest s)"

definition tier_manager_remove :: "block_id \<Rightarrow> tier_state \<Rightarrow> tier_op_result outcome \<times> tier_state" where
  "tier_manager_remove i s = tier_remove_loop i (tm_tiers (fst s)) s"

definition tier_manager_stats :: "tier \<Rightarrow> tier_manager \<Rightarrow> tier_stats" where
  "tier_manager_stats t tm =
     (case tier_of t tm of None \<Rightarrow> \<lparr>st_capacity_blocks = 0, st_used_blocks = 0\<rparr>
      | Some ts \<Rightarrow> tier_stats_of ts)"

definition tier_manager_has_capacity :: "tier \<Rightarrow> tier_manager \<Rightarrow> bool" where
  "tier_manager_has_capacity t tm =
     (case tier_of t tm of None \<Rightarrow> False | Some ts \<Rightarrow> tier_has_capacity ts)"

definition tier_manager_store :: "tier \<Rightarrow> tier_manager \<Rightarrow> tier_store outcome" where
  "tier_manager_store t tm =
     (case tier_of t tm of None \<Rightarrow> Inl (Logic_error ''TierManager::tierStore: unknown tier'')
      | Some ts \<Rightarrow> Inr ts)"

definition tier_manager_payload :: "payload_ref \<Rightarrow> tier_manager \<Rightarrow> u8 list outcome" where
  "tier_manager_payload r tm = payload_get r (tm_payloads tm)"

end
