(* ===== verification/Content_Hash.thy ===== *)
theory Content_Hash
  imports Ids
begin

text \<open>
  \<open>core/content_hash.{h,cc}\<close>: the bytes that identify a context and a block. The hash functions
  \<open>XXH3_64bits\<close> and the streaming \<open>XXH3_128bits\<close> are a library's: they are the arguments
  \<open>xxh64\<close> and \<open>xxh128\<close>, functions of the byte string fed to them. The host is little endian, as
  the objects passed by address in \<open>computeContentHash\<close> show their bytes in that order.
\<close>

section \<open>Serialisation\<close>

definition write_u16_le :: "u16 \<Rightarrow> u8 list" where
  "write_u16_le v = [ucast v, ucast (drop_bit 8 v)]"

definition write_u32_le :: "u32 \<Rightarrow> u8 list" where
  "write_u32_le v = [ucast v, ucast (drop_bit 8 v), ucast (drop_bit 16 v), ucast (drop_bit 24 v)]"

definition write_u64_le :: "u64 \<Rightarrow> u8 list" where
  "write_u64_le v = [ucast v, ucast (drop_bit 8 v), ucast (drop_bit 16 v), ucast (drop_bit 24 v),
     ucast (drop_bit 32 v), ucast (drop_bit 40 v), ucast (drop_bit 48 v), ucast (drop_bit 56 v)]"

fun dtype_code :: "dtype \<Rightarrow> u32" where
  "dtype_code BF16 = 0"
| "dtype_code FP16 = 1"
| "dtype_code FP32 = 2"
| "dtype_code INT8 = 3"

text \<open>Bytes 36 to 39 are the padding the zeroed buffer leaves.\<close>

definition context_bytes :: "cache_key_context \<Rightarrow> u8 list" where
  "context_bytes ctx =
     write_u64_le (ck_model_id ctx) @ write_u64_le (ck_tokenizer_id ctx) @
     write_u32_le (ck_block_size ctx) @ write_u32_le (dtype_code (ck_dtype ctx)) @
     write_u32_le (ck_num_layers ctx) @ write_u32_le (ck_num_kv_heads ctx) @
     write_u32_le (ck_head_dim ctx) @ [0, 0, 0, 0] @
     write_u64_le (ck_rope_config_hash ctx) @ write_u64_le (ck_kv_layout_hash ctx)"

definition compute_context_hash :: "(u8 list \<Rightarrow> u64) \<Rightarrow> cache_key_context \<Rightarrow> context_hash" where
  "compute_context_hash xxh64 ctx = xxh64 (context_bytes ctx)"

definition content_bytes :: "context_hash \<Rightarrow> u32 \<Rightarrow> u16 \<Rightarrow> token_id list \<Rightarrow> u8 list" where
  "content_bytes ctx idx count toks =
     write_u64_le ctx @ write_u32_le idx @ write_u16_le count @ concat (map write_u32_le toks)"

definition compute_content_hash ::
  "(u8 list \<Rightarrow> u64 \<times> u64) \<Rightarrow> context_hash \<Rightarrow> u32 \<Rightarrow> u16 \<Rightarrow> token_id list \<Rightarrow> content_hash" where
  "compute_content_hash xxh128 ctx idx count toks =
     (let (low, high) = xxh128 (content_bytes ctx idx count toks)
      in \<lparr>hash_lo = low, hash_hi = high\<rparr>)"

section \<open>Reading the bytes back\<close>

definition read_u16_le :: "u8 list \<Rightarrow> u16" where
  "read_u16_le b = ucast (b ! 0) OR push_bit 8 (ucast (b ! 1))"

definition read_u32_le :: "u8 list \<Rightarrow> u32" where
  "read_u32_le b = ucast (b ! 0) OR push_bit 8 (ucast (b ! 1)) OR push_bit 16 (ucast (b ! 2)) OR
     push_bit 24 (ucast (b ! 3))"

definition read_u64_le :: "u8 list \<Rightarrow> u64" where
  "read_u64_le b = ucast (b ! 0) OR push_bit 8 (ucast (b ! 1)) OR push_bit 16 (ucast (b ! 2)) OR
     push_bit 24 (ucast (b ! 3)) OR push_bit 32 (ucast (b ! 4)) OR push_bit 40 (ucast (b ! 5)) OR
     push_bit 48 (ucast (b ! 6)) OR push_bit 56 (ucast (b ! 7))"

lemma byte_of_word:
  fixes v :: "'a :: len word"
  shows "bit (push_bit k (ucast (ucast (drop_bit k v) :: u8)) :: 'a word) n \<longleftrightarrow>
    k \<le> n \<and> n < k + 8 \<and> n < LENGTH('a) \<and> bit v n"
  by (auto simp: bit_simps dest: bit_imp_le_length)

lemma low_byte_of_word:
  fixes v :: "'a :: len word"
  shows "bit (ucast (ucast v :: u8) :: 'a word) n \<longleftrightarrow> n < 8 \<and> n < LENGTH('a) \<and> bit v n"
  by (auto simp: bit_simps dest: bit_imp_le_length)

lemma read_write_u16: "read_u16_le (write_u16_le v) = v"
  by (rule bit_word_eqI)
    (auto simp: read_u16_le_def write_u16_le_def bit_or_iff byte_of_word low_byte_of_word)

lemma read_write_u32: "read_u32_le (write_u32_le v) = v"
  by (rule bit_word_eqI)
    (auto simp: read_u32_le_def write_u32_le_def bit_or_iff byte_of_word low_byte_of_word)

lemma read_write_u64: "read_u64_le (write_u64_le v) = v"
  by (rule bit_word_eqI)
    (auto simp: read_u64_le_def write_u64_le_def bit_or_iff byte_of_word low_byte_of_word)

lemma write_le_inject [simp]:
  "write_u16_le a = write_u16_le b \<longleftrightarrow> a = b"
  "write_u32_le c = write_u32_le d \<longleftrightarrow> c = d"
  "write_u64_le e = write_u64_le f \<longleftrightarrow> e = f"
  by (metis read_write_u16) (metis read_write_u32, metis read_write_u64)

lemma length_write_le [simp]:
  "length (write_u16_le a) = 2" "length (write_u32_le b) = 4" "length (write_u64_le c) = 8"
  by (simp_all add: write_u16_le_def write_u32_le_def write_u64_le_def)

lemma dtype_code_inject [simp]: "dtype_code a = dtype_code b \<longleftrightarrow> a = b"
  by (cases a; cases b) simp_all

lemma context_bytes_length: "length (context_bytes ctx) = 56"
  by (simp add: context_bytes_def)

lemma context_bytes_inject: "context_bytes a = context_bytes b \<longleftrightarrow> a = b"
  by (cases a; cases b) (auto simp: context_bytes_def)

lemma concat_words_inject:
  "concat (map write_u32_le xs) = concat (map write_u32_le ys) \<longleftrightarrow> xs = ys"
proof (induction xs arbitrary: ys)
  case Nil
  then show ?case by (cases ys) (auto simp: write_u32_le_def)
next
  case (Cons x xs)
  show ?case
  proof (cases ys)
    case Nil
    then show ?thesis by (auto simp: write_u32_le_def)
  next
    case (Cons y zs)
    then show ?thesis using Cons.IH [of zs] by (simp add: append_eq_append_conv)
  qed
qed

lemma content_bytes_inject:
  "content_bytes c i n ts = content_bytes c' i' n' ts' \<longleftrightarrow> c = c' \<and> i = i' \<and> n = n' \<and> ts = ts'"
  by (auto simp: content_bytes_def concat_words_inject)

section \<open>Properties\<close>

text \<open>the 56 bytes hashed for a context determine all nine fields, so two contexts share a
  hash only if the hash function itself collides on different inputs.\<close>

theorem context_hash_collision:
  "compute_context_hash xxh64 a = compute_context_hash xxh64 b \<longleftrightarrow>
     a = b \<or> (context_bytes a \<noteq> context_bytes b \<and> length (context_bytes a) = 56 \<and>
       length (context_bytes b) = 56 \<and> xxh64 (context_bytes a) = xxh64 (context_bytes b))"
  by (auto simp: compute_context_hash_def context_bytes_inject context_bytes_length)

text \<open>the bytes hashed for a block determine its context hash, index, token count and tokens:
  equal content hashes of different blocks are collisions of the hash function.\<close>

theorem content_hash_collision:
  "compute_content_hash xxh128 c i n ts = compute_content_hash xxh128 c' i' n' ts' \<longleftrightarrow>
     (c, i, n, ts) = (c', i', n', ts') \<or>
     (content_bytes c i n ts \<noteq> content_bytes c' i' n' ts' \<and>
      xxh128 (content_bytes c i n ts) = xxh128 (content_bytes c' i' n' ts'))"
  by (auto simp: compute_content_hash_def content_bytes_inject prod_eq_iff split: prod.splits)

end
