(* ===== verification/Sim.thy ===== *)
theory Sim
  imports Ids
begin

text \<open>
  \<open>sim/\<close>: the events and decisions the controllers and the pipeline report
  (\<open>event.h\<close>, \<open>decision.h\<close>) and the sinks that take them (\<open>event_sink\<close>, \<open>decision_logger\<close>).

  A sink is a value of a closed type with the three classes of the source; the JSON lines sink keeps
  the list of JSON values it wrote, one per line. Printing a JSON value (\<open>json.dump()\<close>) belongs to
  the JSON library and is not modelled: an object's members stand in the order the code lists
  them.
\<close>

section \<open>Events\<close>

datatype event =
    Lookup_hit block_id u64
  | Lookup_miss context_hash u32 u64
  | Block_admitted block_id context_hash tier block_origin u64
  | Block_evicted block_id string u64
  | Block_promoted block_id tier tier u64
  | Block_demoted block_id tier tier u64
  | Remote_fetch_started content_hash node_id u64
  | Remote_fetch_completed content_hash node_id u64 u64
  | Remote_fetch_failed content_hash node_id fetch_fail_reason u64
  | Coordinator_stale_ref node_id block_id u64 u64
  | Non_contiguous_local_blocks u32 u64

section \<open>Decisions\<close>

record eviction_decision =
  ed_chosen_block :: block_id
  ed_policy_name :: string
  ed_candidates :: "block_id list"
  ed_timestamp_ns :: u64

record admission_record =
  ar_admitted :: bool
  ar_policy_name :: string
  ar_candidate_hash :: content_hash
  ar_timestamp_ns :: u64

datatype decision =
    Eviction_decision eviction_decision
  | Admission_record admission_record

section \<open>JSON\<close>

datatype json =
    JString string
  | JNumber u64
  | JBool bool
  | JArray "json list"
  | JObject "(string \<times> json) list"

definition json_u32 :: "u32 \<Rightarrow> json" where
  "json_u32 n = JNumber (ucast n)"

fun fetch_fail_name :: "fetch_fail_reason \<Rightarrow> string" where
  "fetch_fail_name FailNotFound = ''not_found''"
| "fetch_fail_name FailStaleGeneration = ''stale_generation''"
| "fetch_fail_name FailHashMismatch = ''hash_mismatch''"
| "fetch_fail_name FailTransportError = ''transport_error''"

definition origin_name :: "block_origin \<Rightarrow> string" where
  "origin_name src = (if src = LocallyComputed then ''local'' else ''remote'')"

fun serialize_event :: "event \<Rightarrow> json" where
  "serialize_event (Lookup_hit i t) = JObject
     [(''type'', JString ''lookup_hit''), (''block_id'', JNumber i), (''timestamp_ns'', JNumber t)]"
| "serialize_event (Lookup_miss ctx off t) = JObject
     [(''type'', JString ''lookup_miss''), (''context_hash'', JNumber ctx),
      (''miss_token_offset'', json_u32 off), (''timestamp_ns'', JNumber t)]"
| "serialize_event (Block_admitted i ctx tr src t) = JObject
     [(''type'', JString ''block_admitted''), (''block_id'', JNumber i),
      (''context_hash'', JNumber ctx), (''tier'', JString (tier_name tr)),
      (''origin'', JString (origin_name src)), (''timestamp_ns'', JNumber t)]"
| "serialize_event (Block_evicted i p t) = JObject
     [(''type'', JString ''block_evicted''), (''block_id'', JNumber i),
      (''policy'', JString p), (''timestamp_ns'', JNumber t)]"
| "serialize_event (Block_promoted i f d t) = JObject
     [(''type'', JString ''block_promoted''), (''block_id'', JNumber i),
      (''from'', JString (tier_name f)), (''to'', JString (tier_name d)),
      (''timestamp_ns'', JNumber t)]"
| "serialize_event (Block_demoted i f d t) = JObject
     [(''type'', JString ''block_demoted''), (''block_id'', JNumber i),
      (''from'', JString (tier_name f)), (''to'', JString (tier_name d)),
      (''timestamp_ns'', JNumber t)]"
| "serialize_event (Remote_fetch_started h n t) = JObject
     [(''type'', JString ''remote_fetch_started''), (''hash_lo'', JNumber (hash_lo h)),
      (''hash_hi'', JNumber (hash_hi h)), (''source_node'', JNumber n), (''timestamp_ns'', JNumber t)]"
| "serialize_event (Remote_fetch_completed h n b t) = JObject
     [(''type'', JString ''remote_fetch_completed''), (''hash_lo'', JNumber (hash_lo h)),
      (''hash_hi'', JNumber (hash_hi h)), (''source_node'', JNumber n),
      (''bytes_fetched'', JNumber b), (''timestamp_ns'', JNumber t)]"
| "serialize_event (Remote_fetch_failed h n r t) = JObject
     [(''type'', JString ''remote_fetch_failed''), (''hash_lo'', JNumber (hash_lo h)),
      (''hash_hi'', JNumber (hash_hi h)), (''source_node'', JNumber n),
      (''reason'', JString (fetch_fail_name r)), (''timestamp_ns'', JNumber t)]"
| "serialize_event (Coordinator_stale_ref n i g t) = JObject
     [(''type'', JString ''coordinator_stale_ref''), (''node_id'', JNumber n),
      (''block_id'', JNumber i), (''generation'', JNumber g), (''timestamp_ns'', JNumber t)]"
| "serialize_event (Non_contiguous_local_blocks gap t) = JObject
     [(''type'', JString ''non_contiguous_local_blocks''),
      (''gap_at_block_index'', json_u32 gap), (''timestamp_ns'', JNumber t)]"

fun decision_to_json :: "decision \<Rightarrow> json" where
  "decision_to_json (Eviction_decision d) = JObject
     [(''event'', JString ''eviction_decision''), (''policy'', JString (ed_policy_name d)),
      (''chosen_block'', JNumber (ed_chosen_block d)),
      (''candidates'', JArray (map JNumber (ed_candidates d))),
      (''timestamp_ns'', JNumber (ed_timestamp_ns d))]"
| "decision_to_json (Admission_record d) = JObject
     [(''event'', JString ''admission_decision''), (''policy'', JString (ar_policy_name d)),
      (''admitted'', JBool (ar_admitted d)), (''hash_lo'', JNumber (hash_lo (ar_candidate_hash d))),
      (''hash_hi'', JNumber (hash_hi (ar_candidate_hash d))),
      (''timestamp_ns'', JNumber (ar_timestamp_ns d))]"

section \<open>Sinks\<close>

text \<open>The last class is the benchmark's \<open>CountingTeeEventSink\<close>: it hands an event to the sink behind it, if
  there is one, and counts the admissions and the evictions.\<close>

datatype event_sink =
    Null_event_sink
  | In_memory_event_sink "event list"
  | Jsonl_event_sink "json list"
  | Counting_tee "event_sink option" u32 u32

fun record_event :: "event \<Rightarrow> event_sink \<Rightarrow> event_sink" where
  "record_event e Null_event_sink = Null_event_sink"
| "record_event e (In_memory_event_sink es) = In_memory_event_sink (es @ [e])"
| "record_event e (Jsonl_event_sink ls) = Jsonl_event_sink (ls @ [serialize_event e])"
| "record_event e (Counting_tee downstream admissions evictions) =
     Counting_tee (map_option (record_event e) downstream)
       (case e of Block_admitted _ _ _ _ _ \<Rightarrow> admissions + 1 | _ \<Rightarrow> admissions)
       (case e of Block_evicted _ _ _ \<Rightarrow> evictions + 1 | _ \<Rightarrow> evictions)"

fun sink_events :: "event_sink \<Rightarrow> event list" where
  "sink_events (In_memory_event_sink es) = es"
| "sink_events _ = []"

fun tee_admissions :: "event_sink \<Rightarrow> u32" where
  "tee_admissions (Counting_tee downstream admissions evictions) = admissions"
| "tee_admissions _ = 0"

fun tee_evictions :: "event_sink \<Rightarrow> u32" where
  "tee_evictions (Counting_tee downstream admissions evictions) = evictions"
| "tee_evictions _ = 0"

fun clear_events :: "event_sink \<Rightarrow> event_sink" where
  "clear_events (In_memory_event_sink es) = In_memory_event_sink []"
| "clear_events s = s"

text \<open>\<open>eventsOfType<T>()\<close>: the type test and projection \<open>std::get_if<T>\<close> is an argument.\<close>

definition events_of_type :: "(event \<Rightarrow> 'a option) \<Rightarrow> event_sink \<Rightarrow> 'a list" where
  "events_of_type get_if s = List.map_filter get_if (sink_events s)"

datatype decision_logger =
    Null_decision_logger
  | In_memory_decision_logger "decision list"
  | Jsonl_decision_logger "json list"

fun log_decision :: "decision \<Rightarrow> decision_logger \<Rightarrow> decision_logger" where
  "log_decision d Null_decision_logger = Null_decision_logger"
| "log_decision d (In_memory_decision_logger ds) = In_memory_decision_logger (ds @ [d])"
| "log_decision d (Jsonl_decision_logger ls) = Jsonl_decision_logger (ls @ [decision_to_json d])"

fun logged_decisions :: "decision_logger \<Rightarrow> decision list" where
  "logged_decisions (In_memory_decision_logger ds) = ds"
| "logged_decisions _ = []"

fun clear_decisions :: "decision_logger \<Rightarrow> decision_logger" where
  "clear_decisions (In_memory_decision_logger ds) = In_memory_decision_logger []"
| "clear_decisions l = l"

definition decisions_of_type :: "(decision \<Rightarrow> 'a option) \<Rightarrow> decision_logger \<Rightarrow> 'a list" where
  "decisions_of_type get_if l = List.map_filter get_if (logged_decisions l)"

text \<open>The constructors with a path. A file that cannot be opened throws. The event sink starts its file
  anew; the decision logger appends to what is there: \<open>lines_of\<close> tells the lines of a file that can be
  opened.\<close>

definition open_event_sink :: "(string \<Rightarrow> bool) \<Rightarrow> string \<Rightarrow> event_sink outcome" where
  "open_event_sink can_open path =
     (if can_open path then Inr (Jsonl_event_sink [])
      else Inl (Runtime_error (''JsonlEventSink: cannot open file: '' @ path)))"

definition open_decision_logger :: "(string \<Rightarrow> json list option) \<Rightarrow> string \<Rightarrow> decision_logger outcome" where
  "open_decision_logger lines_of path =
     (case lines_of path of Some ls \<Rightarrow> Inr (Jsonl_decision_logger ls)
      | None \<Rightarrow> Inl (Runtime_error (''JsonlDecisionLogger: cannot open '' @ path)))"

section \<open>The JSON lines keep everything\<close>

lemma tier_name_inject [simp]: "tier_name a = tier_name b \<longleftrightarrow> a = b"
  by (cases a; cases b) simp_all

lemma fetch_fail_name_inject [simp]: "fetch_fail_name a = fetch_fail_name b \<longleftrightarrow> a = b"
  by (cases a; cases b) simp_all

lemma origin_name_inject [simp]: "origin_name a = origin_name b \<longleftrightarrow> a = b"
  by (cases a; cases b) (simp_all add: origin_name_def)

lemma content_hash_eq_iff: "(h :: content_hash) = h' \<longleftrightarrow> hash_lo h = hash_lo h' \<and> hash_hi h = hash_hi h'"
  by (cases h; cases h') simp

lemma serialize_event_inject: "serialize_event a = serialize_event b \<Longrightarrow> a = b"
  by (cases a; cases b) (simp_all add: json_u32_def content_hash_eq_iff)

lemma decision_to_json_inject: "decision_to_json a = decision_to_json b \<Longrightarrow> a = b"
proof (cases a; cases b)
  fix x y assume "decision_to_json a = decision_to_json b" "a = Eviction_decision x" "b = Eviction_decision y"
  moreover have "inj JNumber" by (simp add: inj_def)
  ultimately show ?thesis by (cases x; cases y) (auto dest: map_injective)
next
  fix x y assume "decision_to_json a = decision_to_json b" "a = Admission_record x" "b = Admission_record y"
  then show ?thesis by (cases x; cases y) (simp add: content_hash_eq_iff)
qed simp_all

lemma record_all_jsonl:
  "fold record_event es (Jsonl_event_sink ls) = Jsonl_event_sink (ls @ map serialize_event es)"
  by (induction es arbitrary: ls) auto

lemma record_all_in_memory:
  "fold record_event es (In_memory_event_sink xs) = In_memory_event_sink (xs @ es)"
  by (induction es arbitrary: xs) auto

lemma log_all_jsonl:
  "fold log_decision ds (Jsonl_decision_logger ls) = Jsonl_decision_logger (ls @ map decision_to_json ds)"
  by (induction ds arbitrary: ls) auto

section \<open>Properties\<close>

text \<open>C33: the JSON lines of a run determine the run: two event sequences, or two decision
  sequences, that leave the same lines are equal, so offline analysis loses nothing.\<close>

theorem jsonl_trace_faithful:
  "(fold record_event es (Jsonl_event_sink []) = fold record_event es' (Jsonl_event_sink [])
      \<longleftrightarrow> es = es') \<and>
   (fold log_decision ds (Jsonl_decision_logger []) = fold log_decision ds' (Jsonl_decision_logger [])
      \<longleftrightarrow> ds = ds')"
proof -
  have "inj serialize_event" "inj decision_to_json"
    by (auto intro: injI dest: serialize_event_inject decision_to_json_inject)
  then show ?thesis by (simp add: record_all_jsonl log_all_jsonl inj_map_eq_map)
qed

end
