(* ===== verification/Controllers.thy ===== *)
theory Controllers
  imports Prefix_Engine Tier Content_Hash Sim
begin

text \<open>
  \<open>controller/\<close>: the controllers that change the cache. They share the block manager, the prefix
  index, the tier manager and the sinks by reference; the model passes these as one record. A
  tier manager refers to a block store of its own: the block manager's (as the scenario of the
  repository's tests has it) or another one (as in the composition of \<open>LocalCache\<close>).
\<close>

section \<open>Shared state\<close>

datatype tier_link = Shared_store tier_manager | Other_store tier_manager block_store

record cache_core =
  cc_manager :: block_manager
  cc_index :: prefix_index
  cc_tiers :: "tier_link option"
  cc_events :: event_sink
  cc_decisions :: decision_logger

definition on_manager :: "cache_core \<Rightarrow> 'a outcome \<times> block_manager \<Rightarrow> 'a outcome \<times> cache_core" where
  "on_manager c = on_member (\<lambda>m c. c\<lparr>cc_manager := m\<rparr>) c"

definition on_index :: "cache_core \<Rightarrow> 'a outcome \<times> prefix_index \<Rightarrow> 'a outcome \<times> cache_core" where
  "on_index c = on_member (\<lambda>x c. c\<lparr>cc_index := x\<rparr>) c"

fun link_tiers :: "tier_link \<Rightarrow> tier_manager" where
  "link_tiers (Shared_store tm) = tm"
| "link_tiers (Other_store tm st) = tm"

text \<open>A call of the tier manager, on the block store it refers to.\<close>

definition on_tiers ::
  "tier_link \<Rightarrow> (tier_state \<Rightarrow> 'a outcome \<times> tier_state) \<Rightarrow> cache_core \<Rightarrow> 'a outcome \<times> cache_core" where
  "on_tiers link f c =
     (case link of
        Shared_store tm \<Rightarrow>
          (case f (tm, bm_store (cc_manager c)) of (v, (tm', st)) \<Rightarrow>
             (v, c\<lparr>cc_tiers := Some (Shared_store tm'),
                   cc_manager := (cc_manager c)\<lparr>bm_store := st\<rparr>\<rparr>))
      | Other_store tm st0 \<Rightarrow>
          (case f (tm, st0) of (v, (tm', st)) \<Rightarrow> (v, c\<lparr>cc_tiers := Some (Other_store tm' st)\<rparr>)))"

definition emit_event :: "event \<Rightarrow> cache_core \<Rightarrow> cache_core" where
  "emit_event e c = c\<lparr>cc_events := record_event e (cc_events c)\<rparr>"

definition emit_decision :: "decision \<Rightarrow> cache_core \<Rightarrow> cache_core" where
  "emit_decision d c = c\<lparr>cc_decisions := log_decision d (cc_decisions c)\<rparr>"

section \<open>Safe candidates\<close>

definition evictable :: "block_record \<Rightarrow> bool" where
  "evictable rec \<longleftrightarrow> br_state rec = Ready \<and> br_refcount rec = 0"

definition safe_candidates :: "block_store \<Rightarrow> block_id list" where
  "safe_candidates s = map br_id (filter evictable (bs_records s))"

section \<open>Eviction\<close>

record make_space_request =
  ms_blocks_needed :: u32
  ms_timestamp_ns :: u64
  ms_tier :: tier

datatype eviction_status = Space_made | Insufficient_candidates

record eviction_result =
  es_status :: eviction_status
  es_evicted_count :: u32

text \<open>The filter on the requested tier reads each candidate's record again.\<close>

fun filter_tier :: "block_store \<Rightarrow> tier \<Rightarrow> block_id list \<Rightarrow> block_id list outcome" where
  "filter_tier s t [] = Inr []"
| "filter_tier s t (i # is) =
     (case store_get i s of Inl e \<Rightarrow> Inl e
      | Inr rec \<Rightarrow>
          (case filter_tier s t is of Inl e \<Rightarrow> Inl e
           | Inr js \<Rightarrow> Inr (if br_tier rec = t then i # js else js)))"

text \<open>The steps that take the victim out of the cache and report it.\<close>

definition evict_victim ::
  "eviction_policy \<Rightarrow> block_id list \<Rightarrow> u64 \<Rightarrow> block_id \<Rightarrow> cache_core \<Rightarrow> unit outcome \<times> cache_core" where
  "evict_victim pol candidates now victim c =
     and_then (on_manager c (manager_transition victim Ready Evicting (cc_manager c))) (\<lambda>_ c1.
     and_then (on_index c1 (engine_remove_block victim (cc_index c1))) (\<lambda>_ c2.
     and_then (case cc_tiers c2 of
                 None \<Rightarrow> return_with () c2
               | Some link \<Rightarrow> and_then (on_tiers link (tier_manager_remove victim) c2)
                   (\<lambda>_ c3. return_with () c3)) (\<lambda>_ c4.
     and_then (on_manager c4 (manager_free_block victim (cc_manager c4))) (\<lambda>_ c5.
     return_with ()
       (emit_decision (Eviction_decision
           \<lparr>ed_chosen_block = victim, ed_policy_name = ep_name pol,
            ed_candidates = candidates, ed_timestamp_ns = now\<rparr>)
         (emit_event (Block_evicted victim (ep_name pol) now) c5))))))"

text \<open>One round of the loop of \<open>makeSpace\<close>: whether a block was evicted.\<close>

definition evict_one ::
  "eviction_policy \<Rightarrow> tier \<Rightarrow> u64 \<Rightarrow> cache_core \<Rightarrow> bool outcome \<times> cache_core" where
  "evict_one pol t now c =
     (let st = bm_store (cc_manager c); all_candidates = safe_candidates st in
      if all_candidates = [] then return_with False c
      else case filter_tier st t all_candidates of
        Inl e \<Rightarrow> throw e c
      | Inr candidates \<Rightarrow>
          if candidates = [] then return_with False c
          else case outcome_map (\<lambda>i. build_features st (cc_index c) i now) candidates of
            Inl e \<Rightarrow> throw e c
          | Inr features \<Rightarrow>
              (case ep_choose_victim pol
                      \<lparr>ec_tier = t, ec_needed_bytes = 0, ec_timestamp_ns = now\<rparr> features of
                 None \<Rightarrow> return_with False c
               | Some victim \<Rightarrow> and_then (evict_victim pol candidates now victim c)
                   (\<lambda>_ c1. return_with True c1)))"

text \<open>\<open>while (evicted < needed)\<close>: the number of rounds left is \<open>needed - evicted\<close>.\<close>

fun make_space_loop ::
  "eviction_policy \<Rightarrow> tier \<Rightarrow> u64 \<Rightarrow> nat \<Rightarrow> u32 \<Rightarrow> cache_core \<Rightarrow> eviction_result outcome \<times> cache_core" where
  "make_space_loop pol t now 0 evicted c =
     return_with \<lparr>es_status = Space_made, es_evicted_count = evicted\<rparr> c"
| "make_space_loop pol t now (Suc left) evicted c =
     and_then (evict_one pol t now c) (\<lambda>done c1.
       if done then make_space_loop pol t now left (evicted + 1) c1
       else return_with \<lparr>es_status = Insufficient_candidates, es_evicted_count = evicted\<rparr> c1)"

definition make_space ::
  "eviction_policy \<Rightarrow> make_space_request \<Rightarrow> cache_core \<Rightarrow> eviction_result outcome \<times> cache_core" where
  "make_space pol req c =
     make_space_loop pol (ms_tier req) (ms_timestamp_ns req) (unat (ms_blocks_needed req)) 0 c"

section \<open>Admission\<close>

datatype admit_status = Admitted | AlreadyPresent | CapacityExceeded | InvalidBlock | Rejected

record admit_result =
  as_status :: admit_status
  as_handle :: "block_handle option"

text \<open>The policies an \<open>AdmissionController\<close> refers to; the placement policy may be null.\<close>

record admission_config =
  ag_admission :: admission_policy
  ag_placement :: "placement_policy option"
  ag_eviction :: eviction_policy
  ag_block_size :: u32

text \<open>The two constructors.\<close>

definition admission_controller :: "admission_policy \<Rightarrow> eviction_policy \<Rightarrow> u32 \<Rightarrow> admission_config" where
  "admission_controller admission eviction bs =
     \<lparr>ag_admission = admission, ag_placement = None, ag_eviction = eviction, ag_block_size = bs\<rparr>"

definition tiered_admission_controller ::
  "admission_policy \<Rightarrow> placement_policy \<Rightarrow> eviction_policy \<Rightarrow> u32 \<Rightarrow> admission_config" where
  "tiered_admission_controller admission placement eviction bs =
     \<lparr>ag_admission = admission, ag_placement = Some placement, ag_eviction = eviction, ag_block_size = bs\<rparr>"

definition admit_failed :: "admit_status \<Rightarrow> admit_result" where
  "admit_failed s = \<lparr>as_status = s, as_handle = None\<rparr>"

definition candidate_features_of :: "u32 \<Rightarrow> block_candidate \<Rightarrow> candidate_features" where
  "candidate_features_of bs cand =
     \<lparr>cf_hash = bc_hash cand, cf_block_index = bc_block_index cand, cf_token_count = ucast bs,
      cf_payload_bytes = of_nat (length (bc_payload cand)), cf_origin = bc_origin cand,
      cf_prefix_depth_blocks = bc_block_index cand, cf_estimated_recompute_cost_ns = 0\<rparr>"

definition choose_target_tier ::
  "placement_policy option \<Rightarrow> candidate_features \<Rightarrow> u64 \<Rightarrow> tier_link option \<Rightarrow> tier" where
  "choose_target_tier placement features now tiers =
     (case (placement, tiers) of
        (Some pol, Some link) \<Rightarrow>
          (let gpu = tier_manager_stats GpuSim (link_tiers link);
               host = tier_manager_stats Host (link_tiers link)
           in pp_choose_tier pol
                \<lparr>pc_gpu_sim_used_blocks = st_used_blocks gpu,
                 pc_gpu_sim_capacity_blocks = st_capacity_blocks gpu,
                 pc_host_used_blocks = st_used_blocks host,
                 pc_host_capacity_blocks = st_capacity_blocks host, pc_timestamp_ns = now\<rparr>
                features)
      | _ \<Rightarrow> GpuSim)"

text \<open>The last part of \<open>admit\<close>: the new block is placed, indexed and made ready.\<close>

definition admit_new_block ::
  "u64 \<Rightarrow> admission_config \<Rightarrow> context_hash \<Rightarrow> block_candidate \<Rightarrow> u64 \<Rightarrow> tier \<Rightarrow> block_id list \<Rightarrow>
   block_id \<Rightarrow> cache_core \<Rightarrow> admit_result outcome \<times> cache_core" where
  "admit_new_block now cfg ctx_hash cand stamp target existing i c =
     and_then
       (case cc_tiers c of
          None \<Rightarrow> return_with Success c
        | Some link \<Rightarrow> and_then (on_tiers link (tier_manager_place i target (bc_payload cand)) c)
            (\<lambda>r c1. return_with (to_status r) c1))
       (\<lambda>placed c1.
         if placed = Capacity_exceeded
         then and_then (on_manager c1 (manager_free_block i (cc_manager c1)))
                (\<lambda>_ c2. return_with (admit_failed CapacityExceeded) c2)
         else
           and_then (on_index c1 (insert_full_blocks ctx_hash (bc_tokens cand) (existing @ [i]) (cc_index c1)))
             (\<lambda>_ c2.
           and_then (on_manager c2 (manager_transition i Admitting Ready (cc_manager c2))) (\<lambda>_ c3.
           let c4 = emit_event (Block_admitted i ctx_hash target (bc_origin cand) stamp) c3 in
           and_then (on_manager c4 (manager_acquire now i (cc_manager c4))) (\<lambda>h c5.
           return_with \<lparr>as_status = Admitted, as_handle = h\<rparr> c5))))"

text \<open>The middle part: space is made if the manager or the target tier is full, and a slot taken.\<close>

definition admit_with_space ::
  "u64 \<Rightarrow> admission_config \<Rightarrow> context_hash \<Rightarrow> block_candidate \<Rightarrow> u64 \<Rightarrow> tier \<Rightarrow> block_id list \<Rightarrow>
   cache_core \<Rightarrow> admit_result outcome \<times> cache_core" where
  "admit_with_space now cfg ctx_hash cand stamp target existing c =
     (let tier_full = (case cc_tiers c of None \<Rightarrow> False
           | Some link \<Rightarrow> \<not> tier_manager_has_capacity target (link_tiers link)) in
      and_then
        (if manager_available (cc_manager c) = 0 \<or> tier_full
         then and_then (make_space (ag_eviction cfg)
                \<lparr>ms_blocks_needed = 1, ms_timestamp_ns = stamp, ms_tier = target\<rparr> c)
                (\<lambda>r c1. return_with (es_status r = Space_made) c1)
         else return_with True c)
        (\<lambda>room c1.
          if \<not> room then return_with (admit_failed CapacityExceeded) c1
          else
            and_then (on_manager c1 (manager_create_block (bc_hash cand) (bc_block_index cand)
                (ucast (ag_block_size cfg)) target (cc_manager c1)))
              (\<lambda>slot c2.
                case slot of
                  None \<Rightarrow> return_with (admit_failed CapacityExceeded) c2
                | Some (i, g) \<Rightarrow>
                    admit_new_block now cfg ctx_hash cand stamp target existing i c2)))"

definition admit ::
  "(u8 list \<Rightarrow> u64) \<Rightarrow> u64 \<Rightarrow> admission_config \<Rightarrow> block_candidate \<Rightarrow> admission_context \<Rightarrow> cache_core \<Rightarrow>
   admit_result outcome \<times> cache_core" where
  "admit xxh64 now cfg cand ctx c =
     (let bs = ag_block_size cfg; idx = unat (bc_block_index cand) in
      if length (bc_tokens cand) \<noteq> (idx + 1) * unat bs then return_with (admit_failed InvalidBlock) c
      else
        let ctx_hash = compute_context_hash xxh64 (bc_context cand) in
        case raw_lookup_blocks ctx_hash (bc_tokens cand) (cc_index c) of
          Inl e \<Rightarrow> throw e c
        | Inr full_blocks \<Rightarrow>
            if length full_blocks = idx + 1 then return_with (admit_failed AlreadyPresent) c
            else case raw_lookup_blocks ctx_hash (take (idx * unat bs) (bc_tokens cand)) (cc_index c) of
              Inl e \<Rightarrow> throw e c
            | Inr existing_blocks \<Rightarrow>
                if length existing_blocks \<noteq> idx then return_with (admit_failed InvalidBlock) c
                else
                  let features = candidate_features_of bs cand;
                      decision = ap_decide (ag_admission cfg) ctx features;
                      c1 = emit_decision (Admission_record
                             \<lparr>ar_admitted = (decision = Admit),
                              ar_policy_name = ap_name (ag_admission cfg),
                              ar_candidate_hash = bc_hash cand,
                              ar_timestamp_ns = ac_timestamp_ns ctx\<rparr>) c
                  in if decision = Reject then return_with (admit_failed Rejected) c1
                     else admit_with_space now cfg ctx_hash cand (ac_timestamp_ns ctx)
                            (choose_target_tier (ag_placement cfg) features (ac_timestamp_ns ctx)
                              (cc_tiers c1))
                            existing_blocks c1)"

section \<open>Promotion and demotion scans\<close>

text \<open>A scan works on a snapshot of one tier's blocks in the iteration order \<open>enum\<close> of the set,
  which the standard library does not specify. It stops when the other tier is full.\<close>

fun promotion_loop ::
  "promotion_policy \<Rightarrow> scan_context \<Rightarrow> u64 \<Rightarrow> block_id list \<Rightarrow> u32 \<Rightarrow> tier_link \<Rightarrow> cache_core \<Rightarrow>
   u32 outcome \<times> cache_core" where
  "promotion_loop pol ctx now [] promoted link c = return_with promoted c"
| "promotion_loop pol ctx now (i # is) promoted link c =
     (if \<not> tier_manager_has_capacity GpuSim (link_tiers link) then return_with promoted c
      else case build_features (bm_store (cc_manager c)) (cc_index c) i now of
        Inl e \<Rightarrow> throw e c
      | Inr features \<Rightarrow>
          if mp_decide pol ctx features \<noteq> Promote
          then promotion_loop pol ctx now is promoted link c
          else and_then (on_tiers link (tier_manager_promote i GpuSim) c) (\<lambda>r c1.
            let link1 = (case cc_tiers c1 of Some l \<Rightarrow> l | None \<Rightarrow> link) in
            if to_status r = Success
            then promotion_loop pol ctx now is (promoted + 1) link1
                   (emit_event (Block_promoted i Host GpuSim now) c1)
            else promotion_loop pol ctx now is promoted link1 c1))"

definition promotion_scan ::
  "(block_id set \<Rightarrow> block_id list) \<Rightarrow> promotion_policy \<Rightarrow> u64 \<Rightarrow> tier_link \<Rightarrow> cache_core \<Rightarrow>
   u32 outcome \<times> cache_core" where
  "promotion_scan enum pol now link c =
     (let gpu = tier_manager_stats GpuSim (link_tiers link);
          ctx = \<lparr>sc_gpu_sim_used_blocks = st_used_blocks gpu,
                 sc_gpu_sim_capacity_blocks = st_capacity_blocks gpu, sc_timestamp_ns = now\<rparr>
      in case tier_manager_store Host (link_tiers link) of
           Inl e \<Rightarrow> throw e c
         | Inr ts \<Rightarrow> promotion_loop pol ctx now (enum (ts_ids ts)) 0 link c)"

fun demotion_loop ::
  "demotion_policy \<Rightarrow> scan_context \<Rightarrow> u64 \<Rightarrow> block_id list \<Rightarrow> u32 \<Rightarrow> tier_link \<Rightarrow> cache_core \<Rightarrow>
   u32 outcome \<times> cache_core" where
  "demotion_loop pol ctx now [] demoted link c = return_with demoted c"
| "demotion_loop pol ctx now (i # is) demoted link c =
     (if \<not> tier_manager_has_capacity Host (link_tiers link) then return_with demoted c
      else case build_features (bm_store (cc_manager c)) (cc_index c) i now of
        Inl e \<Rightarrow> throw e c
      | Inr features \<Rightarrow>
          if dp_decide pol ctx features \<noteq> Demote
          then demotion_loop pol ctx now is demoted link c
          else and_then (on_tiers link (tier_manager_demote i Host) c) (\<lambda>r c1.
            let link1 = (case cc_tiers c1 of Some l \<Rightarrow> l | None \<Rightarrow> link) in
            if to_status r = Success
            then demotion_loop pol ctx now is (demoted + 1) link1
                   (emit_event (Block_demoted i GpuSim Host now) c1)
            else demotion_loop pol ctx now is demoted link1 c1))"

definition demotion_scan ::
  "(block_id set \<Rightarrow> block_id list) \<Rightarrow> demotion_policy \<Rightarrow> u64 \<Rightarrow> tier_link \<Rightarrow> cache_core \<Rightarrow>
   u32 outcome \<times> cache_core" where
  "demotion_scan enum pol now link c =
     (let gpu = tier_manager_stats GpuSim (link_tiers link);
          ctx = \<lparr>sc_gpu_sim_used_blocks = st_used_blocks gpu,
                 sc_gpu_sim_capacity_blocks = st_capacity_blocks gpu, sc_timestamp_ns = now\<rparr>
      in case tier_manager_store GpuSim (link_tiers link) of
           Inl e \<Rightarrow> throw e c
         | Inr ts \<Rightarrow> demotion_loop pol ctx now (enum (ts_ids ts)) 0 link c)"

end
