(* ===== verification/Local_Cache.thy ===== *)
theory Local_Cache
  imports Controllers
begin

text \<open>
  \<open>core/local_cache.{h,cc}\<close>: one worker's cache, which wires the block manager, the prefix index,
  the lookup engine and the controllers together. \<open>xxh64\<close> is the library hash behind
  \<open>computeContextHash\<close>, \<open>now\<close> the clock's value at the call.
\<close>

record local_cache =
  lc_block_size :: u32
  lc_config :: admission_config
  lc_core :: cache_core

record lookup_outcome =
  lo_matched_blocks :: "block_handle list"
  lo_matched_tokens :: u32
  lo_miss_token_offset :: u32
  lo_context_hash :: context_hash
  lo_total_full_blocks :: u32

record cache_snapshot =
  sn_total_capacity_blocks :: u32
  sn_used_blocks :: u32
  sn_ready_blocks :: u32

datatype serve_status = Serve_ok | Serve_not_found | Serve_stale_generation

record serve_result =
  sv_status :: serve_status
  sv_payload :: "u8 list"
  sv_hash :: content_hash
  sv_generation :: u64

definition no_hash :: content_hash where
  "no_hash = \<lparr>hash_lo = 0, hash_hi = 0\<rparr>"

section \<open>Constructors\<close>

definition make_core :: "u32 \<Rightarrow> u32 \<Rightarrow> tier_link option \<Rightarrow> event_sink \<Rightarrow> decision_logger \<Rightarrow> cache_core" where
  "make_core capacity bs tiers events decisions =
     \<lparr>cc_manager = make_manager capacity, cc_index = make_index bs, cc_tiers = tiers,
      cc_events = events, cc_decisions = decisions\<rparr>"

definition make_simple_cache :: "u32 \<Rightarrow> u32 \<Rightarrow> local_cache" where
  "make_simple_cache capacity bs =
     \<lparr>lc_block_size = bs,
      lc_config = admission_controller always_admit no_eviction bs,
      lc_core = make_core capacity bs None Null_event_sink Null_decision_logger\<rparr>"

definition make_policy_cache ::
  "u32 \<Rightarrow> u32 \<Rightarrow> admission_policy \<Rightarrow> eviction_policy \<Rightarrow> event_sink \<Rightarrow> decision_logger \<Rightarrow> local_cache" where
  "make_policy_cache capacity bs admission eviction events decisions =
     \<lparr>lc_block_size = bs,
      lc_config = admission_controller admission eviction bs,
      lc_core = make_core capacity bs None events decisions\<rparr>"

text \<open>The tier manager is built before the cache, on a block store that cannot be the cache's own.\<close>

definition make_tiered_cache ::
  "u32 \<Rightarrow> u32 \<Rightarrow> admission_policy \<Rightarrow> eviction_policy \<Rightarrow> placement_policy \<Rightarrow> tier_manager \<Rightarrow>
   block_store \<Rightarrow> event_sink \<Rightarrow> decision_logger \<Rightarrow> local_cache" where
  "make_tiered_cache capacity bs admission eviction placement tm tm_store events decisions =
     \<lparr>lc_block_size = bs,
      lc_config = tiered_admission_controller admission placement eviction bs,
      lc_core = make_core capacity bs (Some (Other_store tm tm_store)) events decisions\<rparr>"

section \<open>Operations\<close>

definition on_core :: "local_cache \<Rightarrow> 'a outcome \<times> cache_core \<Rightarrow> 'a outcome \<times> local_cache" where
  "on_core lc = on_member (\<lambda>c lc. lc\<lparr>lc_core := c\<rparr>) lc"

definition lookup_prefix ::
  "(u8 list \<Rightarrow> u64) \<Rightarrow> u64 \<Rightarrow> cache_key_context \<Rightarrow> token_id list \<Rightarrow> local_cache \<Rightarrow>
   lookup_outcome outcome \<times> local_cache" where
  "lookup_prefix xxh64 now ctx toks lc =
     (let ctx_hash = compute_context_hash xxh64 ctx; bs = lc_block_size lc in
      if bs = 0 then throw (Undefined_behaviour ''LocalCache::lookupPrefix: division by zero'') lc
      else
        let total_full = of_nat (length toks div unat bs); c = lc_core lc in
        and_then
          (on_core lc (on_manager c (engine_lookup now ctx_hash toks bs (cc_index c) (cc_manager c))))
          (\<lambda>raw lc1. return_with
            \<lparr>lo_matched_blocks = er_handles raw, lo_matched_tokens = er_matched_tokens raw,
             lo_miss_token_offset = er_matched_tokens raw, lo_context_hash = ctx_hash,
             lo_total_full_blocks = total_full\<rparr> lc1))"

definition admit_block ::
  "(u8 list \<Rightarrow> u64) \<Rightarrow> u64 \<Rightarrow> block_candidate \<Rightarrow> local_cache \<Rightarrow> admit_result outcome \<times> local_cache" where
  "admit_block xxh64 now cand lc =
     (let ctx = \<lparr>ac_request_id = 0, ac_context_hash = compute_context_hash xxh64 (bc_context cand),
                 ac_missing_blocks = 0, ac_timestamp_ns = now\<rparr>
      in on_core lc (admit xxh64 now (lc_config lc) cand ctx (lc_core lc)))"

definition get_block ::
  "u64 \<Rightarrow> block_id \<Rightarrow> u64 \<Rightarrow> local_cache \<Rightarrow> fetch_local_result outcome \<times> local_cache" where
  "get_block now i g lc =
     on_core lc (on_manager (lc_core lc) (manager_fetch_local now i g (cc_manager (lc_core lc))))"

definition drop_handle :: "block_handle \<Rightarrow> local_cache \<Rightarrow> local_cache" where
  "drop_handle h lc =
     (let c = lc_core lc; m = cc_manager c in
      lc\<lparr>lc_core := c\<lparr>cc_manager := m\<lparr>bm_store := handle_destroy h (bm_store m)\<rparr>\<rparr>\<rparr>)"

text \<open>The handle taken by \<open>fetchLocal\<close> lives to the end of the function.\<close>

definition serve_block_fetch ::
  "u64 \<Rightarrow> block_id \<Rightarrow> u64 \<Rightarrow> local_cache \<Rightarrow> serve_result outcome \<times> local_cache" where
  "serve_block_fetch now i g lc =
     and_then (get_block now i g lc) (\<lambda>r lc1.
       case fl_status r of
         NotFound \<Rightarrow> return_with \<lparr>sv_status = Serve_not_found, sv_payload = [], sv_hash = no_hash,
           sv_generation = 0\<rparr> lc1
       | StaleGeneration \<Rightarrow> return_with \<lparr>sv_status = Serve_stale_generation, sv_payload = [],
           sv_hash = no_hash, sv_generation = 0\<rparr> lc1
       | Hit \<Rightarrow>
           (let h = (case fl_handle r of Some h \<Rightarrow> h | None \<Rightarrow> None) in
            case handle_metadata h (bm_store (cc_manager (lc_core lc1))) of
              Inl e \<Rightarrow> throw e lc1
            | Inr rec \<Rightarrow>
                (case (case cc_tiers (lc_core lc1) of
                         Some link \<Rightarrow> if payload_valid (br_payload rec)
                           then tier_manager_payload (br_payload rec) (link_tiers link) else Inr []
                       | None \<Rightarrow> Inr []) of
                   Inl e \<Rightarrow> throw e (drop_handle h lc1)
                 | Inr payload \<Rightarrow> return_with
                     \<lparr>sv_status = Serve_ok, sv_payload = payload, sv_hash = br_hash rec,
                      sv_generation = br_generation rec\<rparr> (drop_handle h lc1))))"

definition snapshot :: "local_cache \<Rightarrow> cache_snapshot" where
  "snapshot lc =
     (let recs = bs_records (bm_store (cc_manager (lc_core lc))) in
      \<lparr>sn_total_capacity_blocks = of_nat (length recs),
       sn_used_blocks = of_nat (length (filter (\<lambda>r. br_generation r > 0 \<and> br_state r \<noteq> Free) recs)),
       sn_ready_blocks = of_nat (length (filter (\<lambda>r. br_state r = Ready) recs))\<rparr>)"

end
