(* ===== verification/Coordinator.thy ===== *)
theory Coordinator
  imports Ids
begin

text \<open>
  \<open>coordinator/\<close>: the global index of which worker may hold a copy of a block's content, the
  directory of workers, and the clients that reach them. The coordinator only tracks places: a
  reference may be out of date, and the worker asked is the judge of that.
\<close>

section \<open>Global index\<close>

type_synonym global_index = "(content_hash \<times> global_block_ref list) list"

definition index_refs :: "content_hash \<Rightarrow> global_index \<Rightarrow> global_block_ref list" where
  "index_refs h gi = (case map_of gi h of Some refs \<Rightarrow> refs | None \<Rightarrow> [])"

text \<open>\<open>index_[hash]\<close> creates an empty entry when there is none.\<close>

definition global_announce :: "content_hash \<Rightarrow> global_block_ref \<Rightarrow> global_index \<Rightarrow> global_index" where
  "global_announce h ref gi =
     (let refs = index_refs h gi in
      if list_ex (\<lambda>existing. ref_node existing = ref_node ref \<and> ref_block existing = ref_block ref \<and>
           ref_generation existing = ref_generation ref) refs
      then AList.update h refs gi
      else AList.update h (refs @ [ref]) gi)"

definition global_query :: "content_hash \<Rightarrow> global_index \<Rightarrow> global_block_ref list" where
  "global_query h gi = (case map_of gi h of None \<Rightarrow> [] | Some refs \<Rightarrow> refs)"

definition global_invalidate :: "node_id \<Rightarrow> block_id \<Rightarrow> u64 \<Rightarrow> global_index \<Rightarrow> global_index" where
  "global_invalidate n i g gi =
     map (\<lambda>(h, refs). (h, filter (\<lambda>r. \<not> (ref_node r = n \<and> ref_block r = i \<and> ref_generation r = g)) refs)) gi"

definition global_remove_node :: "node_id \<Rightarrow> global_index \<Rightarrow> global_index" where
  "global_remove_node n gi = map (\<lambda>(h, refs). (h, filter (\<lambda>r. \<not> ref_node r = n) refs)) gi"

definition global_entry_count :: "global_index \<Rightarrow> nat" where
  "global_entry_count gi = sum_list (map (\<lambda>(h, refs). length refs) gi)"

section \<open>Worker directory\<close>

record worker_info =
  wi_node_id :: node_id
  wi_address :: string

type_synonym worker_directory = "(node_id \<times> worker_info) list"

definition directory_join :: "worker_info \<Rightarrow> worker_directory \<Rightarrow> worker_directory" where
  "directory_join info d = AList.update (wi_node_id info) info d"

definition directory_leave :: "node_id \<Rightarrow> worker_directory \<Rightarrow> worker_directory" where
  "directory_leave n d = AList.delete n d"

definition directory_lookup :: "node_id \<Rightarrow> worker_directory \<Rightarrow> worker_info option" where
  "directory_lookup n d = map_of d n"

definition directory_workers :: "worker_directory \<Rightarrow> worker_info list" where
  "directory_workers d = map snd d"

definition directory_count :: "worker_directory \<Rightarrow> nat" where
  "directory_count d = length d"

section \<open>Service\<close>

text \<open>\<open>StaleReferenceCleaner\<close> forwards to the index; the service refers to index, directory and
  cleaner, whose index is the same one.\<close>

definition report_stale_fetch :: "node_id \<Rightarrow> block_id \<Rightarrow> u64 \<Rightarrow> global_index \<Rightarrow> global_index" where
  "report_stale_fetch n i g gi = global_invalidate n i g gi"

definition clean_dead_node :: "node_id \<Rightarrow> global_index \<Rightarrow> global_index" where
  "clean_dead_node n gi = global_remove_node n gi"

record coordinator =
  co_index :: global_index
  co_directory :: worker_directory

definition make_coordinator :: coordinator where
  "make_coordinator = \<lparr>co_index = [], co_directory = []\<rparr>"

definition service_announce :: "content_hash \<Rightarrow> global_block_ref \<Rightarrow> coordinator \<Rightarrow> coordinator" where
  "service_announce h ref co = co\<lparr>co_index := global_announce h ref (co_index co)\<rparr>"

definition service_query :: "content_hash \<Rightarrow> coordinator \<Rightarrow> global_block_ref list" where
  "service_query h co = global_query h (co_index co)"

definition service_invalidate :: "node_id \<Rightarrow> block_id \<Rightarrow> u64 \<Rightarrow> coordinator \<Rightarrow> coordinator" where
  "service_invalidate n i g co = co\<lparr>co_index := report_stale_fetch n i g (co_index co)\<rparr>"

definition service_node_join :: "worker_info \<Rightarrow> coordinator \<Rightarrow> coordinator" where
  "service_node_join info co = co\<lparr>co_directory := directory_join info (co_directory co)\<rparr>"

definition service_node_leave :: "node_id \<Rightarrow> coordinator \<Rightarrow> coordinator" where
  "service_node_leave n co =
     co\<lparr>co_index := clean_dead_node n (co_index co), co_directory := directory_leave n (co_directory co)\<rparr>"

section \<open>Clients\<close>

datatype coordinator_client = Null_client | Inproc_client coordinator

record query_result =
  qr_refs :: "global_block_ref list"
  qr_available :: bool

fun client_query :: "content_hash \<Rightarrow> coordinator_client \<Rightarrow> query_result" where
  "client_query h Null_client = \<lparr>qr_refs = [], qr_available = False\<rparr>"
| "client_query h (Inproc_client co) = \<lparr>qr_refs = service_query h co, qr_available = True\<rparr>"

fun client_announce :: "content_hash \<Rightarrow> global_block_ref \<Rightarrow> coordinator_client \<Rightarrow> coordinator_client" where
  "client_announce h ref Null_client = Null_client"
| "client_announce h ref (Inproc_client co) = Inproc_client (service_announce h ref co)"

fun client_invalidate :: "node_id \<Rightarrow> block_id \<Rightarrow> u64 \<Rightarrow> coordinator_client \<Rightarrow> coordinator_client" where
  "client_invalidate n i g Null_client = Null_client"
| "client_invalidate n i g (Inproc_client co) = Inproc_client (service_invalidate n i g co)"

section \<open>What a coordinator call does\<close>

text \<open>The calls that change the coordinator, and the references a hash is expected to have after a
  history of them: those announced and not since withdrawn, in the order of announcement.\<close>

datatype coordinator_op =
    Announce content_hash global_block_ref
  | Invalidate node_id block_id u64
  | Node_join worker_info
  | Node_leave node_id

fun coordinator_step :: "coordinator_op \<Rightarrow> coordinator \<Rightarrow> coordinator" where
  "coordinator_step (Announce h r) co = service_announce h r co"
| "coordinator_step (Invalidate n i g) co = service_invalidate n i g co"
| "coordinator_step (Node_join info) co = service_node_join info co"
| "coordinator_step (Node_leave n) co = service_node_leave n co"

fun withdraws :: "coordinator_op \<Rightarrow> global_block_ref \<Rightarrow> bool" where
  "withdraws (Invalidate n i g) r \<longleftrightarrow> r = \<lparr>ref_node = n, ref_block = i, ref_generation = g\<rparr>"
| "withdraws (Node_leave n) r \<longleftrightarrow> ref_node r = n"
| "withdraws _ r \<longleftrightarrow> False"

text \<open>\<open>r\<close> was announced for \<open>h\<close> and nothing later withdrew it.\<close>

fun still_announced :: "coordinator_op list \<Rightarrow> content_hash \<Rightarrow> global_block_ref \<Rightarrow> bool" where
  "still_announced [] h r = False"
| "still_announced (op # ops) h r =
     (still_announced ops h r \<or> (op = Announce h r \<and> \<not> list_ex (\<lambda>o'. withdraws o' r) ops))"

lemma ref_eq_iff: "(a :: global_block_ref) = b \<longleftrightarrow>
    ref_node a = ref_node b \<and> ref_block a = ref_block b \<and> ref_generation a = ref_generation b"
  by (cases a; cases b) simp

lemma announced_already:
  "list_ex (\<lambda>e. ref_node e = ref_node r \<and> ref_block e = ref_block r \<and>
     ref_generation e = ref_generation r) (refs :: global_block_ref list) \<longleftrightarrow> r \<in> set refs"
  by (auto simp: list_ex_iff simp flip: ref_eq_iff)

lemma query_announce:
  "global_query h (global_announce h' r gi) =
     (if h = h' \<and> r \<notin> set (global_query h gi) then global_query h gi @ [r] else global_query h gi)"
  by (auto simp: global_query_def global_announce_def index_refs_def announced_already
      split: option.splits)

lemma map_of_map_snd: "map_of (map (\<lambda>(k, v). (k, f v)) al) k = map_option f (map_of al k)"
  by (induction al) auto

lemma query_invalidate:
  "global_query h (global_invalidate n i g gi) =
     filter (\<lambda>r. r \<noteq> \<lparr>ref_node = n, ref_block = i, ref_generation = g\<rparr>) (global_query h gi)"
  by (auto simp: global_query_def global_invalidate_def map_of_map_snd ref_eq_iff split: option.splits)

lemma query_remove_node:
  "global_query h (global_remove_node n gi) = filter (\<lambda>r. ref_node r \<noteq> n) (global_query h gi)"
  by (auto simp: global_query_def global_remove_node_def map_of_map_snd split: option.splits)

lemma service_query_step:
  "service_query h (coordinator_step op co) =
     (if \<exists>r. op = Announce h r \<and> r \<notin> set (service_query h co)
      then service_query h co @ [case op of Announce _ r \<Rightarrow> r]
      else filter (\<lambda>r. \<not> withdraws op r) (service_query h co))"
proof (cases op)
  case (Node_join info)
  then show ?thesis by (simp add: service_query_def service_node_join_def)
qed (auto simp: service_query_def service_announce_def service_invalidate_def report_stale_fetch_def
    service_node_leave_def clean_dead_node_def query_announce query_invalidate query_remove_node)

lemma service_query_run:
  "r \<in> set (service_query h (fold coordinator_step ops co)) \<longleftrightarrow>
     still_announced ops h r \<or>
     (r \<in> set (service_query h co) \<and> \<not> list_ex (\<lambda>op. withdraws op r) ops)"
proof (induction ops arbitrary: co)
  case (Cons op ops)
  have "r \<in> set (service_query h (coordinator_step op co)) \<longleftrightarrow>
      op = Announce h r \<or> (r \<in> set (service_query h co) \<and> \<not> withdraws op r)"
    by (auto simp: service_query_step)
  then show ?case using Cons.IH [of "coordinator_step op co"] by auto
qed simp

lemma distinct_query_step:
  "distinct (service_query h co) \<Longrightarrow> distinct (service_query h (coordinator_step op co))"
  by (auto simp: service_query_step)

section \<open>Properties\<close>

text \<open>C30: after any history of calls on a new coordinator, a query returns exactly the references
  announced for the hash that no later invalidation or departure of their node withdrew, each
  once.\<close>

theorem query_returns_live_announcements:
  "set (service_query h (fold coordinator_step ops make_coordinator)) = {r. still_announced ops h r} \<and>
   distinct (service_query h (fold coordinator_step ops make_coordinator))"
proof
  have empty: "service_query h make_coordinator = []"
    by (simp add: service_query_def make_coordinator_def global_query_def)
  then show "set (service_query h (fold coordinator_step ops make_coordinator)) = {r. still_announced ops h r}"
    by (auto simp: service_query_run)
  have "distinct (service_query h co) \<Longrightarrow> distinct (service_query h (fold coordinator_step ops co))" for co
    by (induction ops arbitrary: co) (simp_all add: distinct_query_step)
  then show "distinct (service_query h (fold coordinator_step ops make_coordinator))"
    using empty by simp
qed

end
