(* ===== verification/Pipeline.thy ===== *)
theory Pipeline
  imports Local_Cache Coordinator
begin

text \<open>
  \<open>transport/\<close>, \<open>worker/\<close> and \<open>pipeline/\<close>: the path of a request through one worker. The local
  lookup finds the cached prefix; the blocks after it are looked for on other workers through the
  coordinator; what is fetched is admitted into the local cache; the handles of both make the
  result.

  The objects refer to each other: a pipeline to its worker's cache, a transport to the services of
  all workers. The model keeps all caches in one list, a worker service is the position of its
  cache, and a pipeline is run for a position \<open>me\<close>. The pipeline's event sink is part of the shared
  state. Times in the pipeline's own events are the constant 0 of the code. \<open>now\<close> is the one value
  all reads of the clock during a request return. The fetcher's call of the latency model, whose result
  it throws away, is left out.
\<close>

section \<open>Shared state\<close>

record world =
  wo_caches :: "local_cache list"
  wo_workers :: "(node_id \<times> nat) list"
  wo_client :: coordinator_client
  wo_events :: event_sink

definition on_cache ::
  "nat \<Rightarrow> (local_cache \<Rightarrow> 'a outcome \<times> local_cache) \<Rightarrow> world \<Rightarrow> 'a outcome \<times> world" where
  "on_cache k f w =
     (if k < length (wo_caches w)
      then case f (wo_caches w ! k) of (v, lc) \<Rightarrow> (v, w\<lparr>wo_caches := (wo_caches w)[k := lc]\<rparr>)
      else throw (Undefined_behaviour ''null worker'') w)"

definition world_event :: "event \<Rightarrow> world \<Rightarrow> world" where
  "world_event e w = w\<lparr>wo_events := record_event e (wo_events w)\<rparr>"

section \<open>Worker service\<close>

text \<open>\<open>WorkerService\<close> forwards to its cache; its \<open>lookup\<close> runs the pipeline and is at the end.\<close>

definition worker_admit ::
  "(u8 list \<Rightarrow> u64) \<Rightarrow> u64 \<Rightarrow> nat \<Rightarrow> block_candidate \<Rightarrow> world \<Rightarrow> admit_result outcome \<times> world" where
  "worker_admit xxh64 now k cand w = on_cache k (admit_block xxh64 now cand) w"

definition worker_serve_block_fetch ::
  "u64 \<Rightarrow> nat \<Rightarrow> block_id \<Rightarrow> u64 \<Rightarrow> world \<Rightarrow> serve_result outcome \<times> world" where
  "worker_serve_block_fetch now k i g w = on_cache k (serve_block_fetch now i g) w"

definition worker_snapshot :: "nat \<Rightarrow> world \<Rightarrow> cache_snapshot" where
  "worker_snapshot k w = snapshot (wo_caches w ! k)"

section \<open>Transport\<close>

datatype response_status = Response_ok | Response_not_found | Response_stale | Transport_error

record fetch_response =
  fr_status :: response_status
  fr_payload :: "u8 list"
  fr_hash :: content_hash
  fr_generation :: u64

definition empty_response :: "response_status \<Rightarrow> fetch_response" where
  "empty_response s = \<lparr>fr_status = s, fr_payload = [], fr_hash = no_hash, fr_generation = 0\<rparr>"

definition register_worker :: "node_id \<Rightarrow> nat \<Rightarrow> world \<Rightarrow> world" where
  "register_worker n k w = w\<lparr>wo_workers := AList.update n k (wo_workers w)\<rparr>"

definition fetch_block ::
  "u64 \<Rightarrow> node_id \<Rightarrow> block_id \<Rightarrow> u64 \<Rightarrow> world \<Rightarrow> fetch_response outcome \<times> world" where
  "fetch_block now n i g w =
     (case map_of (wo_workers w) n of
        None \<Rightarrow> return_with (empty_response Transport_error) w
      | Some k \<Rightarrow> and_then (worker_serve_block_fetch now k i g w) (\<lambda>r w1.
          return_with
            (case sv_status r of
               Serve_ok \<Rightarrow> \<lparr>fr_status = Response_ok, fr_payload = sv_payload r, fr_hash = sv_hash r,
                 fr_generation = sv_generation r\<rparr>
             | Serve_not_found \<Rightarrow> empty_response Response_not_found
             | Serve_stale_generation \<Rightarrow> empty_response Response_stale) w1))"

section \<open>Requests and results\<close>

record route_request =
  rq_request_id :: request_id
  rq_context :: cache_key_context
  rq_tokens :: "token_id list"

record missing_block =
  mb_block_index :: u32
  mb_hash :: content_hash

record remote_outcome =
  ro_fetched_blocks :: "block_candidate list"
  ro_remote_hit_count :: u32
  ro_stale_ref_count :: u32

record admission_outcome =
  ao_admitted_handles :: "block_handle list"
  ao_admitted_count :: u32
  ao_rejected_count :: u32

record route_result =
  rr_reusable_blocks :: "block_handle list"
  rr_matched_tokens :: u32
  rr_miss_token_offset :: u32
  rr_local_hit_blocks :: u32
  rr_remote_hit_blocks :: u32
  rr_estimated_ttft_saved_ns :: u64

section \<open>Planning the missing blocks\<close>

text \<open>The hash of a missing block covers its own tokens, \<open>tokens[bi * block_size ..]\<close>; the product
  is 32 bits wide.\<close>

definition plan_missing ::
  "(u8 list \<Rightarrow> u64) \<Rightarrow> (u8 list \<Rightarrow> u64 \<times> u64) \<Rightarrow> route_request \<Rightarrow> lookup_outcome \<Rightarrow>
   missing_block list outcome" where
  "plan_missing xxh64 xxh128 req local =
     (let bs = ck_block_size (rq_context req);
          total_tokens = (of_nat (length (rq_tokens req)) :: u32) in
      if bs = 0 then Inl (Undefined_behaviour ''MissingBlockPlanner::plan: division by zero'')
      else
        let total_full = total_tokens div bs;
            first_missing = (of_nat (length (lo_matched_blocks local)) :: u32) in
        if total_full \<le> first_missing then Inr []
        else
          let ctx_hash = compute_context_hash xxh64 (rq_context req) in
          Inr (map (\<lambda>k. let bi = (of_nat k :: u32) in
                 \<lparr>mb_block_index = bi,
                  mb_hash = compute_content_hash xxh128 ctx_hash bi (ucast bs)
                    (take (unat bs) (drop (unat (bi * bs)) (rq_tokens req)))\<rparr>)
               [unat first_missing..<unat total_full]))"

section \<open>Fetching\<close>

datatype fetch_remote_status =
  Fetch_ok | Fetch_not_found | Fetch_stale | Fetch_hash_mismatch | Fetch_transport_error

record fetch_remote_result =
  fm_status :: fetch_remote_status
  fm_payload :: "u8 list"
  fm_hash :: content_hash
  fm_source_ref :: global_block_ref

definition fetch_remote ::
  "u64 \<Rightarrow> global_block_ref \<Rightarrow> content_hash \<Rightarrow> world \<Rightarrow> fetch_remote_result outcome \<times> world" where
  "fetch_remote now ref expected w =
     (let w0 = world_event (Remote_fetch_started expected (ref_node ref) 0) w;
          failed = (\<lambda>reason st w. return_with
            \<lparr>fm_status = st, fm_payload = [], fm_hash = no_hash, fm_source_ref = ref\<rparr>
            (world_event (Remote_fetch_failed expected (ref_node ref) reason 0) w))
      in and_then (fetch_block now (ref_node ref) (ref_block ref) (ref_generation ref) w0) (\<lambda>resp w1.
           if fr_status resp = Response_not_found then failed FailNotFound Fetch_not_found w1
           else if fr_status resp = Response_stale then failed FailStaleGeneration Fetch_stale w1
           else if fr_status resp = Transport_error then failed FailTransportError Fetch_transport_error w1
           else if fr_hash resp \<noteq> expected then failed FailHashMismatch Fetch_hash_mismatch w1
           else return_with
             \<lparr>fm_status = Fetch_ok, fm_payload = fr_payload resp, fm_hash = fr_hash resp,
              fm_source_ref = ref\<rparr>
             (world_event (Remote_fetch_completed expected (ref_node ref)
               (of_nat (length (fr_payload resp))) 0) w1)))"

section \<open>Remote resolution\<close>

text \<open>The loop over the missing blocks; it stops at the first one that no replica delivers.\<close>

fun resolution_loop ::
  "u64 \<Rightarrow> replica_policy \<Rightarrow> route_request \<Rightarrow> missing_block list \<Rightarrow> remote_outcome \<Rightarrow> world \<Rightarrow>
   remote_outcome outcome \<times> world" where
  "resolution_loop now pol req [] out w = return_with out w"
| "resolution_loop now pol req (mb # mbs) out w =
     (let q = client_query (mb_hash mb) (wo_client w) in
      if \<not> qr_available q \<or> qr_refs q = [] then return_with out w
      else case rp_choose_replica pol
             \<lparr>rc_target_hash = mb_hash mb, rc_requesting_node = 0, rc_timestamp_ns = 0\<rparr> (qr_refs q) of
        None \<Rightarrow> return_with out w
      | Some chosen \<Rightarrow>
          and_then (fetch_remote now chosen (mb_hash mb) w) (\<lambda>fetch w1.
            if fm_status fetch = Fetch_stale
            then return_with (out\<lparr>ro_stale_ref_count := ro_stale_ref_count out + 1\<rparr>)
              (world_event
                (Coordinator_stale_ref (ref_node chosen) (ref_block chosen) (ref_generation chosen) 0)
                (w1\<lparr>wo_client := client_invalidate (ref_node chosen) (ref_block chosen)
                      (ref_generation chosen) (wo_client w1)\<rparr>))
            else if fm_status fetch \<noteq> Fetch_ok then return_with out w1
            else
              let end_token = (mb_block_index mb + 1) * ck_block_size (rq_context req);
                  candidate = \<lparr>bc_context = rq_context req, bc_block_index = mb_block_index mb,
                    bc_tokens = take (unat end_token) (rq_tokens req), bc_hash = fm_hash fetch,
                    bc_payload = fm_payload fetch, bc_origin = RemoteFetch,
                    bc_source_ref = Some (fm_source_ref fetch)\<rparr>
              in resolution_loop now pol req mbs
                   (out\<lparr>ro_fetched_blocks := ro_fetched_blocks out @ [candidate],
                        ro_remote_hit_count := ro_remote_hit_count out + 1\<rparr>) w1))"

definition no_remote :: remote_outcome where
  "no_remote = \<lparr>ro_fetched_blocks = [], ro_remote_hit_count = 0, ro_stale_ref_count = 0\<rparr>"

definition resolve_remote ::
  "(u8 list \<Rightarrow> u64) \<Rightarrow> (u8 list \<Rightarrow> u64 \<times> u64) \<Rightarrow> u64 \<Rightarrow> replica_policy \<Rightarrow> route_request \<Rightarrow>
   lookup_outcome \<Rightarrow> world \<Rightarrow> remote_outcome outcome \<times> world" where
  "resolve_remote xxh64 xxh128 now pol req local w =
     (case plan_missing xxh64 xxh128 req local of
        Inl e \<Rightarrow> throw e w
      | Inr missing \<Rightarrow>
          if missing = [] then return_with no_remote w
          else resolution_loop now pol req missing no_remote w)"

section \<open>Admission stage\<close>

text \<open>\<open>admitRemoteBlocks\<close> and \<open>admitComputedBlocks\<close> are the same loop. When an admission throws, the
  handles taken so far are destroyed with the outcome.\<close>

fun admission_loop ::
  "(u8 list \<Rightarrow> u64) \<Rightarrow> u64 \<Rightarrow> block_candidate list \<Rightarrow> admission_outcome \<Rightarrow> local_cache \<Rightarrow>
   admission_outcome outcome \<times> local_cache" where
  "admission_loop xxh64 now [] out lc = return_with out lc"
| "admission_loop xxh64 now (cand # cands) out lc =
     and_then (on_throw (fold drop_handle (ao_admitted_handles out)) (admit_block xxh64 now cand lc)) (\<lambda>r lc1.
       if as_status r = Admitted \<or> as_status r = AlreadyPresent
       then admission_loop xxh64 now cands
         (out\<lparr>ao_admitted_handles := ao_admitted_handles out @
                (case as_handle r of Some h \<Rightarrow> [h] | None \<Rightarrow> []),
              ao_admitted_count := ao_admitted_count out + 1\<rparr>) lc1
       else admission_loop xxh64 now cands
         (out\<lparr>ao_rejected_count := ao_rejected_count out + 1\<rparr>) lc1)"

definition admit_candidates ::
  "(u8 list \<Rightarrow> u64) \<Rightarrow> u64 \<Rightarrow> block_candidate list \<Rightarrow> local_cache \<Rightarrow> admission_outcome outcome \<times> local_cache"
  where
  "admit_candidates xxh64 now cands lc =
     admission_loop xxh64 now cands
       \<lparr>ao_admitted_handles = [], ao_admitted_count = 0, ao_rejected_count = 0\<rparr> lc"

definition admit_remote_blocks ::
  "(u8 list \<Rightarrow> u64) \<Rightarrow> u64 \<Rightarrow> remote_outcome \<Rightarrow> local_cache \<Rightarrow> admission_outcome outcome \<times> local_cache"
  where
  "admit_remote_blocks xxh64 now remote lc = admit_candidates xxh64 now (ro_fetched_blocks remote) lc"

definition admit_computed_blocks ::
  "(u8 list \<Rightarrow> u64) \<Rightarrow> u64 \<Rightarrow> block_candidate list \<Rightarrow> local_cache \<Rightarrow> admission_outcome outcome \<times> local_cache"
  where
  "admit_computed_blocks xxh64 now blocks lc = admit_candidates xxh64 now blocks lc"

section \<open>The pipeline\<close>

definition lookup_stage ::
  "(u8 list \<Rightarrow> u64) \<Rightarrow> u64 \<Rightarrow> route_request \<Rightarrow> local_cache \<Rightarrow> lookup_outcome outcome \<times> local_cache" where
  "lookup_stage xxh64 now req lc = lookup_prefix xxh64 now (rq_context req) (rq_tokens req) lc"

definition assemble :: "route_request \<Rightarrow> lookup_outcome \<Rightarrow> admission_outcome \<Rightarrow> route_result" where
  "assemble req local admission =
     (let handles = lo_matched_blocks local @ ao_admitted_handles admission;
          matched = of_nat (length handles) * ck_block_size (rq_context req)
      in \<lparr>rr_reusable_blocks = handles, rr_matched_tokens = matched,
          rr_miss_token_offset = matched,
          rr_local_hit_blocks = of_nat (length (lo_matched_blocks local)),
          rr_remote_hit_blocks = ao_admitted_count admission, rr_estimated_ttft_saved_ns = 0\<rparr>)"

text \<open>The local handles of the request go when a later stage throws.\<close>

definition release_local :: "nat \<Rightarrow> lookup_outcome \<Rightarrow> world \<Rightarrow> world" where
  "release_local me local w =
     w\<lparr>wo_caches := (wo_caches w)[me := fold drop_handle (lo_matched_blocks local) (wo_caches w ! me)]\<rparr>"

definition run_pipeline ::
  "(u8 list \<Rightarrow> u64) \<Rightarrow> (u8 list \<Rightarrow> u64 \<times> u64) \<Rightarrow> u64 \<Rightarrow> replica_policy \<Rightarrow> nat \<Rightarrow> route_request \<Rightarrow> world \<Rightarrow>
   route_result outcome \<times> world" where
  "run_pipeline xxh64 xxh128 now pol me req w =
     and_then (on_cache me (lookup_stage xxh64 now req) w) (\<lambda>local w1.
     on_throw (release_local me local)
       (and_then (resolve_remote xxh64 xxh128 now pol req local w1) (\<lambda>remote w2.
        and_then (on_cache me (admit_remote_blocks xxh64 now remote) w2)
          (\<lambda>admitted w3. return_with (assemble req local admitted) w3))))"

definition worker_lookup ::
  "(u8 list \<Rightarrow> u64) \<Rightarrow> (u8 list \<Rightarrow> u64 \<times> u64) \<Rightarrow> u64 \<Rightarrow> replica_policy \<Rightarrow> nat \<Rightarrow> route_request \<Rightarrow> world \<Rightarrow>
   route_result outcome \<times> world" where
  "worker_lookup xxh64 xxh128 now pol me req w = run_pipeline xxh64 xxh128 now pol me req w"

end
