(* ===== verification/Double.thy ===== *)
theory Double
  imports Complex_Main "HOL-Library.Log_Nat" Policy
begin

text \<open>
  The \<open>double\<close> arithmetic of \<open>prefix_aware_eviction.cc\<close> and \<open>bandwidth_latency.cc\<close>. A finite
  \<open>double\<close> is the rational number it denotes; an operation is the exact operation followed by
  rounding to the nearest number with 53 significant bits, ties to even (IEEE 754 binary64, no
  contraction of multiply and add). Infinities and not-a-number are left out: the sums and quotients
  here stay far below the largest \<open>double\<close> (every operand is an integer below $2^{64}$, a small
  constant or a bandwidth given to the constructor).
\<close>

section \<open>Rounding\<close>

definition round_half_even :: "rat \<Rightarrow> int" where
  "round_half_even x =
     (let f = \<lfloor>x\<rfloor>; r = x - of_int f in
      if r < 1 / 2 then f else if r > 1 / 2 then f + 1 else if even f then f else f + 1)"

text \<open>The exponent \<open>e\<close> with $2^e \le |x| < 2^{e+1}$.\<close>

definition binary_exponent :: "rat \<Rightarrow> int" where
  "binary_exponent x =
     (let (p, q) = quotient_of \<bar>x\<bar>; d = bitlen p - bitlen q in
      if power_int 2 d \<le> \<bar>x\<bar> then d else d - 1)"

definition round_double :: "rat \<Rightarrow> rat" where
  "round_double x =
     (if x = 0 then 0
      else let ulp = power_int 2 (max (binary_exponent x - 52) (- 1074))
           in of_int (round_half_even (x / ulp)) * ulp)"

definition double_of_u64 :: "u64 \<Rightarrow> rat" where
  "double_of_u64 n = round_double (of_nat (unat n))"

definition double_of_u32 :: "u32 \<Rightarrow> rat" where
  "double_of_u32 n = round_double (of_nat (unat n))"

definition dadd :: "rat \<Rightarrow> rat \<Rightarrow> rat" where "dadd a b = round_double (a + b)"
definition dsub :: "rat \<Rightarrow> rat \<Rightarrow> rat" where "dsub a b = round_double (a - b)"
definition dmul :: "rat \<Rightarrow> rat \<Rightarrow> rat" where "dmul a b = round_double (a * b)"
definition ddiv :: "rat \<Rightarrow> rat \<Rightarrow> rat" where "ddiv a b = round_double (a / b)"

section \<open>The prefix-aware eviction score\<close>

definition prefix_score :: "block_features \<Rightarrow> rat" where
  "prefix_score f =
     (let age_pressure = ddiv (double_of_u64 (bf_age_ns f)) 1000000000 in
      dsub (dadd (dadd (dadd (double_of_u64 (bf_access_count f))
             (dmul 2 (double_of_u32 (bf_prefix_child_count f))))
             (dmul 4 (if bf_is_shared_prefix f then 1 else 0)))
             (dmul 2 (double_of_u32 (bf_descendant_block_count f))))
           age_pressure)"

definition prefix_aware_eviction :: eviction_policy where
  "prefix_aware_eviction =
     \<lparr>ep_name = ''prefix_aware'', ep_choose_victim = least_score_victim prefix_score\<rparr>"

section \<open>The bandwidth latency model\<close>

record bandwidth_model =
  bw_base_ns :: u64
  bw_gpu_bytes_per_ns :: rat
  bw_host_bytes_per_ns :: rat
  bw_network_bytes_per_ns :: rat

definition make_bandwidth_model :: "u64 \<Rightarrow> rat \<Rightarrow> rat \<Rightarrow> rat \<Rightarrow> bandwidth_model" where
  "make_bandwidth_model base gpu host network = \<lparr>bw_base_ns = base, bw_gpu_bytes_per_ns = gpu,
     bw_host_bytes_per_ns = host, bw_network_bytes_per_ns = network\<rparr>"

text \<open>The default arguments.\<close>

definition default_bandwidth_model :: bandwidth_model where
  "default_bandwidth_model = make_bandwidth_model 100 200 20 1"

text \<open>\<open>static_cast<uint64_t>\<close> of a \<open>double\<close> truncates; out of range it is undefined behaviour.\<close>

definition u64_of_double :: "rat \<Rightarrow> u64 outcome" where
  "u64_of_double x =
     (let t = (if 0 \<le> x then \<lfloor>x\<rfloor> else \<lceil>x\<rceil>) in
      if 0 \<le> t \<and> t < 2 ^ 64 then Inr (of_int t)
      else Inl (Undefined_behaviour ''conversion of a double out of range''))"

definition transfer_ns :: "u64 \<Rightarrow> rat \<Rightarrow> u64 outcome" where
  "transfer_ns bytes bw = u64_of_double (ddiv (double_of_u64 bytes) bw)"

definition tier_bandwidth :: "bandwidth_model \<Rightarrow> tier \<Rightarrow> rat" where
  "tier_bandwidth m t = (if t = GpuSim then bw_gpu_bytes_per_ns m else bw_host_bytes_per_ns m)"

definition bandwidth_local_lookup_ns :: "bandwidth_model \<Rightarrow> lookup_cost_input \<Rightarrow> u64" where
  "bandwidth_local_lookup_ns m input = bw_base_ns m"

definition bandwidth_tier_access_ns :: "bandwidth_model \<Rightarrow> tier_access_input \<Rightarrow> u64 outcome" where
  "bandwidth_tier_access_ns m input =
     (let bw = tier_bandwidth m (ta_tier input) in
      if bw \<le> 0 \<or> ta_payload_bytes input = 0 then Inr (bw_base_ns m)
      else map_sum id (\<lambda>ns. bw_base_ns m + ns) (transfer_ns (ta_payload_bytes input) bw))"

definition bandwidth_migration_ns :: "bandwidth_model \<Rightarrow> migration_input \<Rightarrow> u64 outcome" where
  "bandwidth_migration_ns m input =
     (let src_bw = tier_bandwidth m (mi_source input); dst_bw = tier_bandwidth m (mi_dest input);
          bw = (if src_bw < dst_bw then src_bw else dst_bw) in
      if bw \<le> 0 \<or> mi_payload_bytes input = 0 then Inr (bw_base_ns m)
      else map_sum id (\<lambda>ns. bw_base_ns m + ns) (transfer_ns (mi_payload_bytes input) bw))"

definition bandwidth_network_fetch_ns :: "bandwidth_model \<Rightarrow> network_fetch_input \<Rightarrow> u64 outcome" where
  "bandwidth_network_fetch_ns m input =
     map_sum id (\<lambda>transfer. bw_base_ns m + ni_estimated_rtt_ns input + transfer)
       (if bw_network_bytes_per_ns m > 0 \<and> ni_payload_bytes input > 0
        then transfer_ns (ni_payload_bytes input) (bw_network_bytes_per_ns m) else Inr 0)"

end
