(* ===== verification/Bench.thy ===== *)
theory Bench
  imports Pipeline Double
begin

text \<open>
  \<open>apps/kvcache_bench.cc\<close>: the driver that puts the whole system together. It builds workers that
  share one coordinator, routes generated requests to them, runs their pipelines, admits and
  announces what was missing, and reports the hits; without arguments it compares the two eviction
  policies on one worker.

  The generator \<open>std::mt19937\<close> and \<open>std::uniform_int_distribution\<close> are the standard library's: \<open>seeded\<close>
  makes a generator from a seed, \<open>draw lo hi\<close> is one call of a distribution and returns the next
  state. The stream of \<open>--stream-events\<close> is kept per worker, without the fetch events, since all
  workers write to one output; opening the output file, printing and the order of lines are left
  out.
\<close>

section \<open>Arguments\<close>

record bench_args =
  ba_routing :: string
  ba_eviction :: string
  ba_workload :: string
  ba_num_workers :: u32
  ba_capacity :: u32
  ba_num_requests :: u32
  ba_seed :: u32
  ba_output_json :: string
  ba_stream_events :: bool

definition default_args :: bench_args where
  "default_args = \<lparr>ba_routing = ''hash_first_block'', ba_eviction = ''lru'',
     ba_workload = ''shared_system_prompt'', ba_num_workers = 2, ba_capacity = 12, ba_num_requests = 200,
     ba_seed = 42, ba_output_json = '''', ba_stream_events = False\<rparr>"

text \<open>\<open>std::stoul\<close>: white space, a sign, decimal digits up to the first other character; it throws
  \<open>invalid_argument\<close> without a digit and \<open>out_of_range\<close> beyond 64 bits, both logic errors.\<close>

definition is_space :: "char \<Rightarrow> bool" where
  "is_space c \<longleftrightarrow> (of_char c :: nat) = 32 \<or> (9 \<le> (of_char c :: nat) \<and> (of_char c :: nat) \<le> 13)"

definition is_digit :: "char \<Rightarrow> bool" where
  "is_digit c \<longleftrightarrow> 48 \<le> (of_char c :: nat) \<and> (of_char c :: nat) \<le> 57"

definition digits_value :: "string \<Rightarrow> nat" where
  "digits_value ds = fold (\<lambda>d n. 10 * n + (of_char d - 48)) ds 0"

definition split_sign :: "string \<Rightarrow> bool \<times> string" where
  "split_sign s = (case s of [] \<Rightarrow> (False, [])
     | c # cs \<Rightarrow> if c = CHR ''-'' then (True, cs) else if c = CHR ''+'' then (False, cs) else (False, s))"

definition stoul :: "string \<Rightarrow> u64 outcome" where
  "stoul s =
     (let (negative, t) = split_sign (dropWhile is_space s);
          ds = takeWhile is_digit t
      in if ds = [] then Inl (Logic_error ''stoul'')
         else if 2 ^ 64 \<le> digits_value ds then Inl (Logic_error ''stoul'')
         else Inr (if negative then - of_nat (digits_value ds) else of_nat (digits_value ds)))"

text \<open>The arguments after the program's name. A flag without a value is ignored, and so is an unknown
  flag, after which its value is read as a flag.\<close>

fun parse_args_loop :: "string list \<Rightarrow> bench_args \<Rightarrow> bench_args outcome" where
  "parse_args_loop [] args = Inr args"
| "parse_args_loop [flag] args =
     Inr (if flag = ''--stream-events'' then args\<lparr>ba_stream_events := True\<rparr> else args)"
| "parse_args_loop (flag # value # rest) args =
     (let number = (\<lambda>put. case stoul value of Inl e \<Rightarrow> Inl e
            | Inr n \<Rightarrow> parse_args_loop rest (put (ucast n :: u32)))
      in if flag = ''--stream-events''
         then parse_args_loop (value # rest) (args\<lparr>ba_stream_events := True\<rparr>)
         else if flag = ''--routing'' then parse_args_loop rest (args\<lparr>ba_routing := value\<rparr>)
         else if flag = ''--eviction'' then parse_args_loop rest (args\<lparr>ba_eviction := value\<rparr>)
         else if flag = ''--workload'' then parse_args_loop rest (args\<lparr>ba_workload := value\<rparr>)
         else if flag = ''--workers'' then number (\<lambda>n. args\<lparr>ba_num_workers := n\<rparr>)
         else if flag = ''--capacity'' then number (\<lambda>n. args\<lparr>ba_capacity := n\<rparr>)
         else if flag = ''--requests'' then number (\<lambda>n. args\<lparr>ba_num_requests := n\<rparr>)
         else if flag = ''--seed'' then number (\<lambda>n. args\<lparr>ba_seed := n\<rparr>)
         else if flag = ''--output-json'' then parse_args_loop rest (args\<lparr>ba_output_json := value\<rparr>)
         else parse_args_loop (value # rest) args)"

definition parse_args :: "string list \<Rightarrow> bench_args outcome" where
  "parse_args argv = parse_args_loop argv default_args"

section \<open>Workloads\<close>

definition bench_block_size :: u32 where "bench_block_size = 16"
definition prefix_block_count :: u32 where "prefix_block_count = 4"
definition suffix_block_count :: u32 where "suffix_block_count = 1"
definition family_prefix_block_count :: u32 where "family_prefix_block_count = 3"
definition family_count :: u32 where "family_count = 4"
definition churn_block_count :: u32 where "churn_block_count = 6"

record bench_request =
  bq_request_id :: u32
  bq_tokens :: "token_id list"
  bq_family_id :: u32

definition bench_context :: cache_key_context where
  "bench_context = \<lparr>ck_model_id = 1, ck_tokenizer_id = 1, ck_block_size = bench_block_size, ck_dtype = BF16,
     ck_num_layers = 32, ck_num_kv_heads = 8, ck_head_dim = 128, ck_rope_config_hash = 0, ck_kv_layout_hash = 0\<rparr>"

type_synonym 'rng draw = "int \<Rightarrow> int \<Rightarrow> 'rng \<Rightarrow> int \<times> 'rng"

fun draw_tokens :: "'rng draw \<Rightarrow> int \<Rightarrow> int \<Rightarrow> nat \<Rightarrow> 'rng \<Rightarrow> token_id list \<times> 'rng" where
  "draw_tokens draw lo hi 0 rng = ([], rng)"
| "draw_tokens draw lo hi (Suc n) rng =
     (case draw lo hi rng of (v, rng1) \<Rightarrow>
        (case draw_tokens draw lo hi n rng1 of (toks, rng2) \<Rightarrow> (of_int v # toks, rng2)))"

text \<open>One request of each workload.\<close>

definition shared_request :: "'rng draw \<Rightarrow> u32 \<Rightarrow> 'rng \<Rightarrow> bench_request \<times> 'rng" where
  "shared_request draw req rng =
     (let prefix_tokens = prefix_block_count * bench_block_size;
          suffix_tokens = suffix_block_count * bench_block_size;
          (suffix, rng1) = draw_tokens draw 10000 99999 (unat suffix_tokens) rng
      in (\<lparr>bq_request_id = req, bq_tokens = map of_nat [1..<Suc (unat prefix_tokens)] @ suffix,
           bq_family_id = 0\<rparr>, rng1))"

definition family_request :: "'rng draw \<Rightarrow> u32 \<Rightarrow> 'rng \<Rightarrow> bench_request \<times> 'rng" where
  "family_request draw req rng =
     (let prefix_tokens = family_prefix_block_count * bench_block_size;
          suffix_tokens = suffix_block_count * bench_block_size;
          family = req mod family_count;
          base = (family + 1) * 1000;
          (suffix, rng1) = draw_tokens draw 10000 99999 (unat suffix_tokens) rng
      in (\<lparr>bq_request_id = req, bq_tokens = map (\<lambda>t. base + of_nat t) [0..<unat prefix_tokens] @ suffix,
           bq_family_id = family\<rparr>, rng1))"

definition churn_request :: "'rng draw \<Rightarrow> u32 \<Rightarrow> 'rng \<Rightarrow> bench_request \<times> 'rng" where
  "churn_request draw req rng =
     (let total_tokens = churn_block_count * bench_block_size;
          (toks, rng1) = draw_tokens draw 1 999999 (unat total_tokens) rng
      in (\<lparr>bq_request_id = req, bq_tokens = toks, bq_family_id = 0\<rparr>, rng1))"

text \<open>The loop over the requests, the same in the three generators.\<close>

fun request_loop ::
  "(u32 \<Rightarrow> 'rng \<Rightarrow> bench_request \<times> 'rng) \<Rightarrow> nat \<Rightarrow> u32 \<Rightarrow> 'rng \<Rightarrow> bench_request list" where
  "request_loop gen 0 req rng = []"
| "request_loop gen (Suc n) req rng =
     (case gen req rng of (r, rng1) \<Rightarrow> r # request_loop gen n (req + 1) rng1)"

definition generate_shared_system_prompt :: "'rng draw \<Rightarrow> (u32 \<Rightarrow> 'rng) \<Rightarrow> bench_args \<Rightarrow> bench_request list" where
  "generate_shared_system_prompt draw seeded args =
     request_loop (shared_request draw) (unat (ba_num_requests args)) 0 (seeded (ba_seed args))"

definition generate_few_shot_families :: "'rng draw \<Rightarrow> (u32 \<Rightarrow> 'rng) \<Rightarrow> bench_args \<Rightarrow> bench_request list" where
  "generate_few_shot_families draw seeded args =
     request_loop (family_request draw) (unat (ba_num_requests args)) 0 (seeded (ba_seed args))"

definition generate_adversarial_churn :: "'rng draw \<Rightarrow> (u32 \<Rightarrow> 'rng) \<Rightarrow> bench_args \<Rightarrow> bench_request list" where
  "generate_adversarial_churn draw seeded args =
     request_loop (churn_request draw) (unat (ba_num_requests args)) 0 (seeded (ba_seed args))"

definition generate_workload :: "'rng draw \<Rightarrow> (u32 \<Rightarrow> 'rng) \<Rightarrow> bench_args \<Rightarrow> bench_request list" where
  "generate_workload draw seeded args =
     (if ba_workload args = ''few_shot_families'' then generate_few_shot_families draw seeded args
      else if ba_workload args = ''adversarial_churn'' then generate_adversarial_churn draw seeded args
      else generate_shared_system_prompt draw seeded args)"

section \<open>Workers\<close>

text \<open>A rig's counters; its cache is in the world, at the position of its number.\<close>

record worker_rig =
  wr_node_id :: node_id
  wr_local_hits :: u32
  wr_remote_hits :: u32

definition make_eviction_policy :: "string \<Rightarrow> eviction_policy" where
  "make_eviction_policy name = (if name = ''prefix_aware'' then prefix_aware_eviction else lru_eviction)"

definition make_rig :: "node_id \<Rightarrow> worker_rig" where
  "make_rig nid = \<lparr>wr_node_id = nid, wr_local_hits = 0, wr_remote_hits = 0\<rparr>"

definition rig_cache :: "bench_args \<Rightarrow> local_cache" where
  "rig_cache args = make_policy_cache (ba_capacity args) bench_block_size always_admit
     (make_eviction_policy (ba_eviction args))
     (Counting_tee (if ba_stream_events args then Some (Jsonl_event_sink []) else None) 0 0) Null_decision_logger"

datatype 'rng bench_routing = Route_hash | Route_random 'rng

definition make_routing_policy :: "(u32 \<Rightarrow> 'rng) \<Rightarrow> bench_args \<Rightarrow> 'rng bench_routing" where
  "make_routing_policy seeded args =
     (if ba_routing args = ''hash_first_block'' then Route_hash else Route_random (seeded (ba_seed args)))"

fun choose_node ::
  "(nat \<Rightarrow> 'rng \<Rightarrow> nat \<times> 'rng) \<Rightarrow> routing_context \<Rightarrow> node_features list \<Rightarrow> 'rng bench_routing \<Rightarrow>
   node_id outcome \<times> 'rng bench_routing" where
  "choose_node draw_index ctx nodes Route_hash = (hash_first_block_choose ctx nodes, Route_hash)"
| "choose_node draw_index ctx nodes (Route_random rng) =
     (case random_choose draw_index nodes rng of (n, rng1) \<Rightarrow> return_with n (Route_random rng1))"

definition make_candidate ::
  "(u8 list \<Rightarrow> u64) \<Rightarrow> (u8 list \<Rightarrow> u64 \<times> u64) \<Rightarrow> cache_key_context \<Rightarrow> u32 \<Rightarrow> token_id list \<Rightarrow> block_candidate" where
  "make_candidate xxh64 xxh128 ctx idx toks =
     \<lparr>bc_context = ctx, bc_block_index = idx,
      bc_tokens = take (unat ((idx + 1) * bench_block_size)) toks,
      bc_hash = compute_content_hash xxh128 (compute_context_hash xxh64 ctx) idx (ucast bench_block_size)
        (take (unat bench_block_size) (drop (unat (idx * bench_block_size)) toks)),
      bc_payload = [], bc_origin = LocallyComputed, bc_source_ref = None\<rparr>"

section \<open>The benchmark\<close>

record 'rng bench_state =
  bn_world :: world
  bn_rigs :: "worker_rig list"
  bn_routing :: "'rng bench_routing"
  bn_prefix_possible :: u32

text \<open>Each worker's transport knows all workers but itself.\<close>

definition rig_transport :: "nat \<Rightarrow> nat \<Rightarrow> (node_id \<times> nat) list" where
  "rig_transport workers me = map (\<lambda>j. (of_nat j, j)) (filter (\<lambda>j. j \<noteq> me) [0..<workers])"

definition join_workers :: "nat \<Rightarrow> coordinator \<Rightarrow> coordinator" where
  "join_workers workers co = fold (\<lambda>i co.
     let info = \<lparr>wi_node_id = of_nat i, wi_address = []\<rparr>; joined = service_node_join info co
     in joined\<lparr>co_directory := directory_join info (co_directory joined)\<rparr>) [0..<workers] co"

definition start_bench :: "(u32 \<Rightarrow> 'rng) \<Rightarrow> bench_args \<Rightarrow> 'rng bench_state" where
  "start_bench seeded args =
     (let workers = unat (ba_num_workers args) in
      \<lparr>bn_world = \<lparr>wo_caches = replicate workers (rig_cache args), wo_workers = [],
         wo_client = Inproc_client (join_workers workers make_coordinator), wo_events = Null_event_sink\<rparr>,
       bn_rigs = map (\<lambda>i. make_rig (of_nat i)) [0..<workers],
       bn_routing = make_routing_policy seeded args, bn_prefix_possible = 0\<rparr>)"

definition idle_features :: "nat \<Rightarrow> node_features list" where
  "idle_features workers = map (\<lambda>i. \<lparr>nf_node_id = of_nat i, nf_gpu_sim_used_bytes = 0,
     nf_gpu_sim_capacity_bytes = 0, nf_host_used_bytes = 0, nf_host_capacity_bytes = 0,
     nf_recent_local_hits = 0, nf_recent_remote_hits = 0, nf_recent_evictions = 0,
     nf_estimated_queue_delay_ns = 0\<rparr>) [0..<workers]"

text \<open>A handle the benchmark lets go, on the cache of worker \<open>k\<close>.\<close>

definition release_on :: "nat \<Rightarrow> block_handle \<Rightarrow> world \<Rightarrow> world" where
  "release_on k h w = w\<lparr>wo_caches := (wo_caches w)[k := drop_handle h (wo_caches w ! k)]\<rparr>"

definition announce_to :: "content_hash \<Rightarrow> global_block_ref \<Rightarrow> world \<Rightarrow> world" where
  "announce_to h ref w = w\<lparr>wo_client := client_announce h ref (wo_client w)\<rparr>"

text \<open>The blocks the pipeline did not return are admitted in order; a new one is released at once and
  announced.\<close>

fun fill_loop ::
  "(u8 list \<Rightarrow> u64) \<Rightarrow> (u8 list \<Rightarrow> u64 \<times> u64) \<Rightarrow> node_id \<Rightarrow> nat \<Rightarrow> token_id list \<Rightarrow> nat list \<Rightarrow> world \<Rightarrow>
   unit outcome \<times> world" where
  "fill_loop xxh64 xxh128 chosen k toks [] w = return_with () w"
| "fill_loop xxh64 xxh128 chosen k toks (bi # bis) w =
     (let cand = make_candidate xxh64 xxh128 bench_context (of_nat bi) toks in
      and_then (worker_admit xxh64 0 k cand w) (\<lambda>admitted w1.
        case (as_status admitted, as_handle admitted) of
          (Admitted, Some h) \<Rightarrow>
            (case handle_metadata h (bm_store (cc_manager (lc_core (wo_caches w1 ! k)))) of
               Inl e \<Rightarrow> throw e w1
             | Inr rec \<Rightarrow> fill_loop xxh64 xxh128 chosen k toks bis
                 (announce_to (bc_hash cand)
                   \<lparr>ref_node = chosen, ref_block = br_id rec, ref_generation = br_generation rec\<rparr>
                   (release_on k h w1)))
        | _ \<Rightarrow> fill_loop xxh64 xxh128 chosen k toks bis w1))"

text \<open>One iteration of the loop of \<open>runBench\<close>. The handles of the pipeline's result live to its end.\<close>

definition serve_request ::
  "(u8 list \<Rightarrow> u64) \<Rightarrow> (u8 list \<Rightarrow> u64 \<times> u64) \<Rightarrow> (nat \<Rightarrow> 'rng \<Rightarrow> nat \<times> 'rng) \<Rightarrow> nat \<Rightarrow> u32 \<Rightarrow> bench_request \<Rightarrow>
   'rng bench_state \<Rightarrow> unit outcome \<times> 'rng bench_state" where
  "serve_request xxh64 xxh128 draw_index workers total_blocks req s =
     (let s0 = s\<lparr>bn_prefix_possible := bn_prefix_possible s + (if total_blocks > 0 then total_blocks - 1 else 0)\<rparr>;
          ctx_hash = compute_context_hash xxh64 bench_context;
          first_hash = compute_content_hash xxh128 ctx_hash 0 (ucast bench_block_size)
            (take (unat bench_block_size) (bq_tokens req));
          rctx = \<lparr>tc_context_hash = ctx_hash, tc_full_block_count = total_blocks,
            tc_first_block_hash = first_hash, tc_timestamp_ns = 0\<rparr>
      in and_then (on_member (\<lambda>r s. s\<lparr>bn_routing := r\<rparr>) s0
             (choose_node draw_index rctx (idle_features workers) (bn_routing s0)))
           (\<lambda>chosen s1.
             let k = unat (ucast chosen :: u32);
                 route = \<lparr>rq_request_id = ucast (bq_request_id req), rq_context = bench_context,
                   rq_tokens = bq_tokens req\<rparr>;
                 w1 = (bn_world s1)\<lparr>wo_workers := rig_transport workers k\<rparr>
             in and_then (on_member (\<lambda>w s. s\<lparr>bn_world := w\<rparr>) s1
                    (run_pipeline xxh64 xxh128 0 first_replica k route w1))
                  (\<lambda>result s2.
                    let rig = bn_rigs s2 ! k;
                        s3 = s2\<lparr>bn_rigs := (bn_rigs s2)[k := rig\<lparr>
                          wr_local_hits := wr_local_hits rig + rr_local_hit_blocks result,
                          wr_remote_hits := wr_remote_hits rig + rr_remote_hit_blocks result\<rparr>]\<rparr>;
                        first_miss = (of_nat (length (rr_reusable_blocks result)) :: u32)
                    in and_then (on_member (\<lambda>w s. s\<lparr>bn_world := w\<rparr>) s3
                           (fill_loop xxh64 xxh128 chosen k (bq_tokens req)
                             [unat first_miss..<unat total_blocks] (bn_world s3)))
                         (\<lambda>_ s4. return_with ()
                           (s4\<lparr>bn_world := fold (release_on k) (rr_reusable_blocks result) (bn_world s4)\<rparr>)))))"

fun serve_all ::
  "(u8 list \<Rightarrow> u64) \<Rightarrow> (u8 list \<Rightarrow> u64 \<times> u64) \<Rightarrow> (nat \<Rightarrow> 'rng \<Rightarrow> nat \<times> 'rng) \<Rightarrow> nat \<Rightarrow> u32 \<Rightarrow> bench_request list \<Rightarrow>
   'rng bench_state \<Rightarrow> unit outcome \<times> 'rng bench_state" where
  "serve_all xxh64 xxh128 draw_index workers total_blocks [] s = return_with () s"
| "serve_all xxh64 xxh128 draw_index workers total_blocks (req # reqs) s =
     and_then (serve_request xxh64 xxh128 draw_index workers total_blocks req s)
       (\<lambda>_ s1. serve_all xxh64 xxh128 draw_index workers total_blocks reqs s1)"

definition blocks_per_request :: "bench_request list \<Rightarrow> u32" where
  "blocks_per_request reqs =
     of_nat (case reqs of [] \<Rightarrow> 0 | r # _ \<Rightarrow> length (bq_tokens r) div unat bench_block_size)"

definition run_bench ::
  "(u8 list \<Rightarrow> u64) \<Rightarrow> (u8 list \<Rightarrow> u64 \<times> u64) \<Rightarrow> 'rng draw \<Rightarrow> (nat \<Rightarrow> 'rng \<Rightarrow> nat \<times> 'rng) \<Rightarrow> (u32 \<Rightarrow> 'rng) \<Rightarrow>
   bench_args \<Rightarrow> unit outcome \<times> 'rng bench_state" where
  "run_bench xxh64 xxh128 draw draw_index seeded args =
     (let reqs = generate_workload draw seeded args in
      serve_all xxh64 xxh128 draw_index (unat (ba_num_workers args)) (blocks_per_request reqs) reqs
        (start_bench seeded args))"

section \<open>The report\<close>

definition total_of :: "(worker_rig \<Rightarrow> u32) \<Rightarrow> worker_rig list \<Rightarrow> u32" where
  "total_of f rigs = fold (\<lambda>rig n. n + f rig) rigs 0"

definition hit_rate :: "worker_rig list \<Rightarrow> u32 \<Rightarrow> rat" where
  "hit_rate rigs possible =
     (let total_hits = total_of wr_local_hits rigs + total_of wr_remote_hits rigs in
      if possible > 0 then ddiv (double_of_u32 total_hits) (double_of_u32 possible) else 0)"

definition remote_fraction :: "worker_rig list \<Rightarrow> rat" where
  "remote_fraction rigs =
     (let total_remote = total_of wr_remote_hits rigs;
          total_hits = total_of wr_local_hits rigs + total_remote in
      if total_hits > 0 then ddiv (double_of_u32 total_remote) (double_of_u32 total_hits) else 0)"

definition worker_json :: "worker_rig \<Rightarrow> event_sink \<Rightarrow> json" where
  "worker_json rig events = JObject
     [(''node_id'', JNumber (wr_node_id rig)), (''local_hits'', json_u32 (wr_local_hits rig)),
      (''remote_hits'', json_u32 (wr_remote_hits rig)), (''evictions'', json_u32 (tee_evictions events)),
      (''admissions'', json_u32 (tee_admissions events)), (''gpu_sim_used'', JNumber 0),
      (''host_used'', JNumber 0)]"

definition config_json :: "bench_args \<Rightarrow> json" where
  "config_json args = JObject
     [(''routing'', JString (ba_routing args)), (''eviction'', JString (ba_eviction args)),
      (''workload'', JString (ba_workload args)), (''num_workers'', json_u32 (ba_num_workers args)),
      (''capacity_per_worker'', json_u32 (ba_capacity args)),
      (''num_requests'', json_u32 (ba_num_requests args)), (''seed'', json_u32 (ba_seed args))]"

definition report_json :: "bench_args \<Rightarrow> worker_rig list \<Rightarrow> event_sink list \<Rightarrow> u32 \<Rightarrow> json" where
  "report_json args rigs sinks possible = JObject
     [(''config'', config_json args),
      (''results'', JObject
         [(''local_hits'', json_u32 (total_of wr_local_hits rigs)),
          (''remote_hits'', json_u32 (total_of wr_remote_hits rigs)),
          (''total_prefix_possible'', json_u32 possible),
          (''evictions'', json_u32 (fold (\<lambda>e n. n + tee_evictions e) sinks 0)),
          (''admissions'', json_u32 (fold (\<lambda>e n. n + tee_admissions e) sinks 0))]),
      (''workers'', JArray (map (\<lambda>(rig, e). worker_json rig e) (zip rigs sinks)))]"

section \<open>The comparison on one worker\<close>

record phase2_result =
  ph_policy_name :: string
  ph_prefix_hits :: u32
  ph_prefix_possible :: u32
  ph_evictions :: u32
  ph_admissions :: u32

text \<open>The clock stands at 1000 nanoseconds per request begun.\<close>

fun phase2_fill ::
  "(u8 list \<Rightarrow> u64) \<Rightarrow> (u8 list \<Rightarrow> u64 \<times> u64) \<Rightarrow> fake_clock \<Rightarrow> token_id list \<Rightarrow> nat list \<Rightarrow> u32 \<Rightarrow> local_cache \<Rightarrow>
   u32 outcome \<times> local_cache" where
  "phase2_fill xxh64 xxh128 clock full [] admissions lc = return_with admissions lc"
| "phase2_fill xxh64 xxh128 clock full (bi # bis) admissions lc =
     and_then (admit_block xxh64 (fake_clock_now clock)
         (make_candidate xxh64 xxh128 bench_context (of_nat bi) full) lc) (\<lambda>r lc1.
       phase2_fill xxh64 xxh128 clock full bis
         (if as_status r = Admitted then admissions + 1 else admissions)
         (case as_handle r of Some h \<Rightarrow> drop_handle h lc1 | None \<Rightarrow> lc1))"

fun phase2_loop ::
  "(u8 list \<Rightarrow> u64) \<Rightarrow> (u8 list \<Rightarrow> u64 \<times> u64) \<Rightarrow> nat list \<Rightarrow> fake_clock \<Rightarrow> phase2_result \<Rightarrow> local_cache \<Rightarrow>
   phase2_result outcome \<times> local_cache" where
  "phase2_loop xxh64 xxh128 [] clock res lc = return_with res lc"
| "phase2_loop xxh64 xxh128 (req # reqs) clock res lc =
     (let clock1 = fake_clock_advance 1000 clock;
          full = map of_nat [1..<65] @
            map (\<lambda>t. 10000 + of_nat req * bench_block_size + of_nat t) [0..<unat bench_block_size]
      in and_then (lookup_prefix xxh64 (fake_clock_now clock1) bench_context full lc) (\<lambda>outcome lc1.
           let matched = (of_nat (length (lo_matched_blocks outcome)) :: u32) in
           and_then (phase2_fill xxh64 xxh128 clock1 full [unat matched..<5] (ph_admissions res) lc1)
             (\<lambda>admissions lc2. phase2_loop xxh64 xxh128 reqs clock1
               (res\<lparr>ph_prefix_hits := ph_prefix_hits res + min matched 4,
                    ph_prefix_possible := ph_prefix_possible res + 4, ph_admissions := admissions\<rparr>)
               (fold drop_handle (lo_matched_blocks outcome) lc2))))"

definition is_eviction :: "event \<Rightarrow> unit option" where
  "is_eviction e = (case e of Block_evicted _ _ _ \<Rightarrow> Some () | _ \<Rightarrow> None)"

definition run_single_node_bench ::
  "(u8 list \<Rightarrow> u64) \<Rightarrow> (u8 list \<Rightarrow> u64 \<times> u64) \<Rightarrow> string \<Rightarrow> eviction_policy \<Rightarrow>
   phase2_result outcome \<times> local_cache" where
  "run_single_node_bench xxh64 xxh128 name ep =
     and_then (phase2_loop xxh64 xxh128 [0..<200] (make_fake_clock 0)
         \<lparr>ph_policy_name = name, ph_prefix_hits = 0, ph_prefix_possible = 0, ph_evictions = 0, ph_admissions = 0\<rparr>
         (make_policy_cache 12 bench_block_size always_admit ep (In_memory_event_sink []) Null_decision_logger))
       (\<lambda>res lc. return_with
         (res\<lparr>ph_evictions := of_nat (length (events_of_type is_eviction (cc_events (lc_core lc))))\<rparr>) lc)"

text \<open>\<open>main\<close>: with arguments the benchmark runs, without it compares the two policies.\<close>

datatype 'rng bench_outcome =
    Bench_run "unit outcome \<times> 'rng bench_state"
  | Comparison "phase2_result outcome" "phase2_result outcome"

definition bench_main ::
  "(u8 list \<Rightarrow> u64) \<Rightarrow> (u8 list \<Rightarrow> u64 \<times> u64) \<Rightarrow> 'rng draw \<Rightarrow> (nat \<Rightarrow> 'rng \<Rightarrow> nat \<times> 'rng) \<Rightarrow> (u32 \<Rightarrow> 'rng) \<Rightarrow>
   string list \<Rightarrow> 'rng bench_outcome outcome" where
  "bench_main xxh64 xxh128 draw draw_index seeded argv =
     (case parse_args argv of Inl e \<Rightarrow> Inl e
      | Inr args \<Rightarrow> Inr (if argv \<noteq> []
          then Bench_run (run_bench xxh64 xxh128 draw draw_index seeded args)
          else Comparison (fst (run_single_node_bench xxh64 xxh128 ''lru'' lru_eviction))
                 (fst (run_single_node_bench xxh64 xxh128 ''prefix_aware'' prefix_aware_eviction))))"

end
