(* ===== verification/Prefix_Wf.thy ===== *)
theory Prefix_Wf
  imports Prefix_Index
begin

text \<open>
  Well-formed prefix indexes. Every live node of the vector stands for a token path below one
  context: a \<^emph>\<open>labelling\<close> assigns the nodes in use their (context, path), and the invariant says
  that the edges, parents, children, roots and block table agree with it. Nodes that were pruned
  have no label.
\<close>

section \<open>Labellings\<close>

type_synonym label = "context_hash \<times> token_id list"

abbreviation node :: "prefix_index \<Rightarrow> nat \<Rightarrow> index_node" where
  "node x n \<equiv> px_nodes x ! n"

abbreviation child :: "prefix_index \<Rightarrow> nat \<Rightarrow> token_id \<Rightarrow> nat option" where
  "child x n t \<equiv> map_of (nd_children (node x n)) t"

abbreviation node_count :: "prefix_index \<Rightarrow> nat" where
  "node_count x \<equiv> length (px_nodes x)"

definition children_ok :: "prefix_index \<Rightarrow> (nat \<Rightarrow> label option) \<Rightarrow> bool" where
  "children_ok x lab \<longleftrightarrow> (\<forall>n ctx p. lab n = Some (ctx, p) \<longrightarrow>
     distinct (map fst (nd_children (node x n))) \<and>
     (\<forall>t c. child x n t = Some c \<longrightarrow>
        lab c = Some (ctx, p @ nd_edge (node x c)) \<and> nd_edge (node x c) \<noteq> [] \<and>
        hd (nd_edge (node x c)) = t \<and> nd_parent (node x c) = n))"

definition parents_ok :: "prefix_index \<Rightarrow> (nat \<Rightarrow> label option) \<Rightarrow> bool" where
  "parents_ok x lab \<longleftrightarrow> (\<forall>n ctx p. lab n = Some (ctx, p) \<longrightarrow> p \<noteq> [] \<longrightarrow>
     nd_edge (node x n) \<noteq> [] \<and> nd_first (node x n) = hd (nd_edge (node x n)) \<and>
     (\<exists>q. p = q @ nd_edge (node x n) \<and> lab (nd_parent (node x n)) = Some (ctx, q) \<and>
        child x (nd_parent (node x n)) (hd (nd_edge (node x n))) = Some n \<and>
        length q mod index_bs x + length (nd_edge (node x n)) \<le> index_bs x))"

definition roots_ok :: "prefix_index \<Rightarrow> (nat \<Rightarrow> label option) \<Rightarrow> bool" where
  "roots_ok x lab \<longleftrightarrow>
     (\<forall>ctx n. map_of (px_roots x) ctx = Some n \<longleftrightarrow> lab n = Some (ctx, [])) \<and>
     (\<forall>ctx n. lab n = Some (ctx, []) \<longrightarrow>
        nd_parent (node x n) = invalid_node \<and> nd_terminal (node x n) = None)"

definition blocks_ok :: "prefix_index \<Rightarrow> (nat \<Rightarrow> label option) \<Rightarrow> bool" where
  "blocks_ok x lab \<longleftrightarrow>
     (\<forall>n ctx p b. lab n = Some (ctx, p) \<longrightarrow> nd_terminal (node x n) = Some b \<longrightarrow>
        length p mod index_bs x = 0 \<and> map_of (px_block_node x) b = Some n) \<and>
     (\<forall>b n. map_of (px_block_node x) b = Some n \<longrightarrow>
        lab n \<noteq> None \<and> nd_terminal (node x n) = Some b)"

definition labelled :: "prefix_index \<Rightarrow> (nat \<Rightarrow> label option) \<Rightarrow> bool" where
  "labelled x lab \<longleftrightarrow> 0 < index_bs x \<and> node_count x \<le> invalid_node \<and>
     (\<forall>n l. lab n = Some l \<longrightarrow> n < node_count x) \<and>
     (\<forall>n m l. lab n = Some l \<longrightarrow> lab m = Some l \<longrightarrow> n = m) \<and>
     roots_ok x lab \<and> children_ok x lab \<and> parents_ok x lab \<and> blocks_ok x lab"

definition index_wf :: "prefix_index \<Rightarrow> bool" where
  "index_wf x \<longleftrightarrow> (\<exists>lab. labelled x lab)"

lemma labelledD:
  assumes "labelled x lab"
  shows "0 < index_bs x" "node_count x \<le> invalid_node"
    "lab n = Some l \<Longrightarrow> n < node_count x"
    "lab n = Some l \<Longrightarrow> lab m = Some l \<Longrightarrow> n = m"
    "roots_ok x lab" "children_ok x lab" "parents_ok x lab" "blocks_ok x lab"
  using assms unfolding labelled_def by blast+

lemma rootD:
  assumes "labelled x lab"
  shows "map_of (px_roots x) ctx = Some n \<longleftrightarrow> lab n = Some (ctx, [])"
  using labelledD(5) [OF assms] by (simp add: roots_ok_def)

lemma root_node:
  assumes "labelled x lab" "lab n = Some (ctx, [])"
  shows "nd_parent (node x n) = invalid_node" "nd_terminal (node x n) = None"
  using labelledD(5) [OF assms(1)] assms(2) by (auto simp: roots_ok_def)

lemma childD:
  assumes "labelled x lab" "lab n = Some (ctx, p)" "child x n t = Some c"
  shows "lab c = Some (ctx, p @ nd_edge (node x c))" "nd_edge (node x c) \<noteq> []"
    "hd (nd_edge (node x c)) = t" "nd_parent (node x c) = n" "c < node_count x"
  using labelledD(6) [OF assms(1)] assms(2,3) labelledD(3) [OF assms(1)]
  unfolding children_ok_def by blast+

lemma child_keys: "labelled x lab \<Longrightarrow> lab n = Some (ctx, p) \<Longrightarrow> distinct (map fst (nd_children (node x n)))"
  using labelledD(6) unfolding children_ok_def by blast

lemma parentE:
  assumes "labelled x lab" "lab n = Some (ctx, p)" "p \<noteq> []"
  obtains q where "nd_edge (node x n) \<noteq> []" "nd_first (node x n) = hd (nd_edge (node x n))"
    "p = q @ nd_edge (node x n)" "lab (nd_parent (node x n)) = Some (ctx, q)"
    "child x (nd_parent (node x n)) (hd (nd_edge (node x n))) = Some n"
    "length q mod index_bs x + length (nd_edge (node x n)) \<le> index_bs x"
  using labelledD(7) [OF assms(1)] assms(2,3) unfolding parents_ok_def by blast

lemma terminalD:
  assumes "labelled x lab" "lab n = Some (ctx, p)" "nd_terminal (node x n) = Some b"
  shows "length p mod index_bs x = 0" "map_of (px_block_node x) b = Some n" "p \<noteq> []"
proof -
  show "length p mod index_bs x = 0" "map_of (px_block_node x) b = Some n"
    using labelledD(8) [OF assms(1)] assms(2,3) unfolding blocks_ok_def by blast+
  show "p \<noteq> []" using root_node(2) [OF assms(1)] assms(2,3) by auto
qed

lemma block_nodeD:
  assumes "labelled x lab" "map_of (px_block_node x) b = Some n"
  obtains ctx p where "lab n = Some (ctx, p)" "nd_terminal (node x n) = Some b"
proof -
  have "lab n \<noteq> None \<and> nd_terminal (node x n) = Some b"
    using labelledD(8) [OF assms(1)] assms(2) unfolding blocks_ok_def by blast
  with that show thesis by (cases "lab n") auto
qed

lemma block_table:
  assumes "labelled x lab" "map_of (px_block_node x) b = Some n"
  shows "lab n \<noteq> None" "n < node_count x" "nd_terminal (node x n) = Some b"
  using block_nodeD [OF assms] labelledD(3) [OF assms(1)] by (metis option.distinct(1))+

lemma child_edge_fits:
  assumes "labelled x lab" "lab n = Some (ctx, p)" "child x n t = Some c"
  shows "length p mod index_bs x + length (nd_edge (node x c)) \<le> index_bs x"
proof -
  note c = childD [OF assms]
  from c(1,2) obtain q where "p @ nd_edge (node x c) = q @ nd_edge (node x c)"
    "length q mod index_bs x + length (nd_edge (node x c)) \<le> index_bs x"
    by (auto elim: parentE [OF assms(1)])
  then show ?thesis by simp
qed

section \<open>Paths lead to nodes\<close>

text \<open>If a label extends the path of \<open>n\<close>, the child of \<open>n\<close> on the next token leads towards it.\<close>

lemma descent:
  assumes wf: "labelled x lab" and n: "lab n = Some (ctx, p)" and m: "lab m = Some (ctx, p @ t # s)"
  shows "\<exists>c s'. child x n t = Some c \<and> t # s = nd_edge (node x c) @ s'"
  using n m
proof (induction "length p + length s" arbitrary: n m p t s rule: less_induct)
  case less
  from less.prems(2) obtain q where q: "p @ t # s = q @ nd_edge (node x m)"
    "lab (nd_parent (node x m)) = Some (ctx, q)" "nd_edge (node x m) \<noteq> []"
    "child x (nd_parent (node x m)) (hd (nd_edge (node x m))) = Some m"
    by (auto elim: parentE [OF wf])
  let ?k = "nd_parent (node x m)" and ?e = "nd_edge (node x m)"
  consider (same) "q = p" | (below) u where "q = p @ t # u" "s = u @ ?e"
    | (above) v where "v \<noteq> []" "p = q @ v" "?e = v @ t # s"
  proof -
    from q(1) obtain us where "p = q @ us \<and> us @ t # s = ?e \<or> p @ us = q \<and> t # s = us @ ?e"
      by (auto simp: append_eq_append_conv2)
    then show thesis using that(1) that(2) that(3) [of us] by (cases us) auto
  qed
  then show ?case
  proof cases
    case same
    then have "?k = n" using q(2) less.prems(1) labelledD(4) [OF wf] by blast
    moreover have "?e = t # s" using same q(1) by simp
    ultimately show ?thesis using q(4) by (metis append_Nil2 list.sel(1))
  next
    case below
    with q(3) have "length p + length u < length p + length s" by simp
    from less.hyps [OF this less.prems(1) q(2) [unfolded below(1)]] below(2)
    show ?thesis by (metis append.assoc append_Cons)
  next
    case above
    then obtain a v' where v: "v = a # v'" by (cases v) auto
    have "length q + length v' < length p + length s" using above v by simp
    moreover have "lab n = Some (ctx, q @ a # v')" using less.prems(1) above(2) v by simp
    ultimately obtain c s' where c: "child x ?k a = Some c" "v = nd_edge (node x c) @ s'"
      using less.hyps [OF _ q(2), of v' n a] v by blast
    have "hd ?e = a" using above v by simp
    with q(4) c(1) have "c = m" by simp
    with c(2) above(3) have "length v \<ge> length v + length (t # s)" by (metis length_append le_add1)
    then show ?thesis by simp
  qed
qed

lemma no_child_no_path:
  assumes "labelled x lab" "lab n = Some (ctx, p)" "child x n t = None"
  shows "lab m \<noteq> Some (ctx, p @ t # s)"
  using descent [OF assms(1,2), of m t s] assms(3) by auto

text \<open>No label lies strictly inside an edge.\<close>

lemma no_label_inside_edge:
  assumes wf: "labelled x lab" and n: "lab n = Some (ctx, p)" and c: "child x n t = Some c"
    and inside: "nd_edge (node x c) = u @ v" "u \<noteq> []" "v \<noteq> []"
  shows "lab m \<noteq> Some (ctx, p @ u)"
proof
  assume m: "lab m = Some (ctx, p @ u)"
  from inside(2) obtain a u' where u: "u = a # u'" by (cases u) auto
  then have "a = t" using childD(3) [OF wf n c] inside by simp
  with descent [OF wf n, of m t u'] m u c obtain s' where "u = nd_edge (node x c) @ s'" by auto
  with inside show False by simp
qed

section \<open>Walking a path\<close>

text \<open>The node at a path below \<open>n\<close>, and the block cached for a token sequence: the index as a map.\<close>

function walk :: "prefix_index \<Rightarrow> nat \<Rightarrow> token_id list \<Rightarrow> nat option" where
  "walk x n p =
     (if p = [] then Some n
      else case child x n (hd p) of
        None \<Rightarrow> None
      | Some c \<Rightarrow>
          (let e = nd_edge (node x c) in
           if e \<noteq> [] \<and> take (length e) p = e then walk x c (drop (length e) p) else None))"
  by pat_completeness auto
termination
  by (relation "measure (\<lambda>(x, n, p). length p)") auto

declare walk.simps [simp del]

definition block_at :: "prefix_index \<Rightarrow> context_hash \<Rightarrow> token_id list \<Rightarrow> block_id option" where
  "block_at x ctx p =
     (case map_of (px_roots x) ctx of None \<Rightarrow> None
      | Some r \<Rightarrow> (case walk x r p of None \<Rightarrow> None
          | Some n \<Rightarrow> nd_terminal (node x n)))"

lemma walk_iff:
  assumes wf: "labelled x lab"
  shows "lab n = Some (ctx, p) \<Longrightarrow> walk x n s = Some m \<longleftrightarrow> lab m = Some (ctx, p @ s)"
proof (induction s arbitrary: n p rule: length_induct)
  case (1 s)
  show ?case
  proof (cases s)
    case Nil
    have "m = n" if "lab m = Some (ctx, p)" using that 1(2) labelledD(4) [OF wf] by blast
    with Nil 1(2) show ?thesis by (auto simp: walk.simps)
  next
    case (Cons t u)
    show ?thesis
    proof (cases "child x n t")
      case None
      then show ?thesis using no_child_no_path [OF wf 1(2) None] Cons by (simp add: walk.simps)
    next
      case (Some c)
      note c = childD [OF wf 1(2) Some]
      let ?e = "nd_edge (node x c)"
      show ?thesis
      proof (cases "take (length ?e) s = ?e")
        case True
        then have s: "s = ?e @ drop (length ?e) s" by (metis append_take_drop_id)
        have "length (drop (length ?e) s) < length s" using c(2) Cons by simp
        with 1(1) c(1) have "walk x c (drop (length ?e) s) = Some m \<longleftrightarrow>
            lab m = Some (ctx, (p @ ?e) @ drop (length ?e) s)" by blast
        moreover have "(p @ ?e) @ drop (length ?e) s = p @ s" using s by simp
        moreover have "walk x n s = walk x c (drop (length ?e) s)"
          using True Some c(2) Cons by (subst walk.simps) (simp add: Let_def)
        ultimately show ?thesis by simp
      next
        case False
        have "lab m \<noteq> Some (ctx, p @ s)"
          using descent [OF wf 1(2), of m t u] Cons Some False by auto
        with False Some Cons show ?thesis by (simp add: walk.simps Let_def)
      qed
    qed
  qed
qed

lemma block_at_iff:
  assumes wf: "labelled x lab"
  shows "block_at x ctx p = Some b \<longleftrightarrow> (\<exists>n. lab n = Some (ctx, p) \<and> nd_terminal (node x n) = Some b)"
proof (cases "map_of (px_roots x) ctx")
  case None
  have "lab n \<noteq> Some (ctx, p)" for n
  proof (induction p arbitrary: n rule: length_induct)
    case (1 p)
    show ?case
    proof
      assume n: "lab n = Some (ctx, p)"
      then have "p \<noteq> []" using None rootD [OF wf, of ctx n] by auto
      with n obtain q where "p = q @ nd_edge (node x n)" "nd_edge (node x n) \<noteq> []"
        "lab (nd_parent (node x n)) = Some (ctx, q)" by (auto elim: parentE [OF wf])
      with 1 show False by auto
    qed
  qed
  then show ?thesis by (simp add: block_at_def None)
next
  case (Some r)
  then have "lab r = Some (ctx, [])" by (simp add: rootD [OF wf])
  then have w: "walk x r p = Some n \<longleftrightarrow> lab n = Some (ctx, p)" for n
    using walk_iff [OF wf] by force
  show ?thesis
  proof (cases "walk x r p")
    case None
    then show ?thesis using w by (auto simp: block_at_def Some)
  next
    case (Some n)
    then have n: "lab n = Some (ctx, p)" using w by simp
    have "block_at x ctx p = nd_terminal (node x n)"
      using Some \<open>map_of (px_roots x) ctx = Some r\<close> by (simp add: block_at_def)
    moreover have "(\<exists>m. lab m = Some (ctx, p) \<and> nd_terminal (node x m) = Some b) \<longleftrightarrow>
        nd_terminal (node x n) = Some b" using n labelledD(4) [OF wf n] by blast
    ultimately show ?thesis by simp
  qed
qed

lemma block_at_label:
  assumes wf: "labelled x lab" and n: "lab n = Some (ctx, p)"
  shows "block_at x ctx p = nd_terminal (node x n)"
proof (cases "nd_terminal (node x n)")
  case (Some b)
  then have "block_at x ctx p = Some b" using block_at_iff [OF wf] n by blast
  with Some show ?thesis by simp
next
  case None
  have "block_at x ctx p \<noteq> Some b" for b
    using block_at_iff [OF wf, of ctx p b] labelledD(4) [OF wf n] None by auto
  with None show ?thesis by (cases "block_at x ctx p") auto
qed

text \<open>Distinct paths hold distinct blocks, at whole blocks of tokens.\<close>

lemma block_at_inject:
  assumes "index_wf x" "block_at x ctx p = Some b" "block_at x ctx' p' = Some b"
  shows "ctx = ctx'" "p = p'"
proof -
  from assms(1) obtain lab where wf: "labelled x lab" by (auto simp: index_wf_def)
  from assms(2,3) obtain n m where nm: "lab n = Some (ctx, p)" "nd_terminal (node x n) = Some b"
    "lab m = Some (ctx', p')" "nd_terminal (node x m) = Some b" by (auto simp: block_at_iff [OF wf])
  then have "n = m" using terminalD(2) [OF wf] by (metis option.inject)
  with nm show "ctx = ctx'" "p = p'" by simp_all
qed

lemma block_at_aligned:
  assumes "index_wf x" "block_at x ctx p = Some b"
  shows "length p mod index_bs x = 0" "p \<noteq> []"
proof -
  from assms(1) obtain lab where wf: "labelled x lab" by (auto simp: index_wf_def)
  with assms(2) obtain n where "lab n = Some (ctx, p)" "nd_terminal (node x n) = Some b"
    by (auto simp: block_at_iff)
  from terminalD [OF wf this] show "length p mod index_bs x = 0" "p \<noteq> []" by simp_all
qed

lemma block_node_dom:
  assumes "labelled x lab"
  shows "map_of (px_block_node x) b = None \<longleftrightarrow> (\<forall>ctx p. block_at x ctx p \<noteq> Some b)"
proof -
  have "\<exists>n. map_of (px_block_node x) b = Some n" if "block_at x ctx p = Some b" for ctx p
    using that terminalD(2) [OF assms] by (auto simp: block_at_iff [OF assms])
  moreover have "\<exists>ctx p. block_at x ctx p = Some b" if "map_of (px_block_node x) b = Some n" for n
    using block_nodeD [OF assms that] block_at_iff [OF assms] by metis
  ultimately show ?thesis by (metis not_None_eq option.distinct(1))
qed

lemma labelled_make_index: "bs \<noteq> 0 \<Longrightarrow> labelled (make_index bs) (\<lambda>_. None)"
  by (simp add: labelled_def make_index_def index_bs_def roots_ok_def children_ok_def parents_ok_def
      blocks_ok_def word_gt_0_no unat_gt_0)

section \<open>Establishing the invariant\<close>

text \<open>The conditions on one live node, a rule that builds the invariant from them, and a frame rule
  for the nodes a change does not touch.\<close>

definition node_ok :: "prefix_index \<Rightarrow> (nat \<Rightarrow> label option) \<Rightarrow> nat \<Rightarrow> context_hash \<Rightarrow> token_id list \<Rightarrow> bool" where
  "node_ok x lab n ctx p \<longleftrightarrow>
     distinct (map fst (nd_children (node x n))) \<and>
     (\<forall>t c. child x n t = Some c \<longrightarrow>
        lab c = Some (ctx, p @ nd_edge (node x c)) \<and> nd_edge (node x c) \<noteq> [] \<and>
        hd (nd_edge (node x c)) = t \<and> nd_parent (node x c) = n) \<and>
     (p = [] \<longrightarrow> nd_parent (node x n) = invalid_node \<and> nd_terminal (node x n) = None) \<and>
     (p \<noteq> [] \<longrightarrow> nd_edge (node x n) \<noteq> [] \<and> nd_first (node x n) = hd (nd_edge (node x n)) \<and>
        (\<exists>q. p = q @ nd_edge (node x n) \<and> lab (nd_parent (node x n)) = Some (ctx, q) \<and>
           child x (nd_parent (node x n)) (hd (nd_edge (node x n))) = Some n \<and>
           length q mod index_bs x + length (nd_edge (node x n)) \<le> index_bs x)) \<and>
     (\<forall>b. nd_terminal (node x n) = Some b \<longrightarrow>
        length p mod index_bs x = 0 \<and> map_of (px_block_node x) b = Some n)"

lemma labelledI:
  assumes "0 < index_bs x" "node_count x \<le> invalid_node"
    and "\<And>n l. lab n = Some l \<Longrightarrow> n < node_count x"
    and "\<And>n m l. lab n = Some l \<Longrightarrow> lab m = Some l \<Longrightarrow> n = m"
    and "\<And>ctx n. map_of (px_roots x) ctx = Some n \<longleftrightarrow> lab n = Some (ctx, [])"
    and "\<And>b n. map_of (px_block_node x) b = Some n \<Longrightarrow> lab n \<noteq> None \<and> nd_terminal (node x n) = Some b"
    and ok: "\<And>n ctx p. lab n = Some (ctx, p) \<Longrightarrow> node_ok x lab n ctx p"
  shows "labelled x lab"
proof -
  have "roots_ok x lab" unfolding roots_ok_def
  proof (intro conjI allI impI)
    fix ctx n assume "lab n = Some (ctx, [])"
    from ok [OF this] show "nd_parent (node x n) = invalid_node" "nd_terminal (node x n) = None"
      unfolding node_ok_def by blast+
  qed (rule assms(5))
  moreover have "children_ok x lab" unfolding children_ok_def
  proof (intro allI impI conjI)
    fix n ctx p assume n: "lab n = Some (ctx, p)"
    note ok = ok [OF n, unfolded node_ok_def]
    then show "distinct (map fst (nd_children (node x n)))" by blast
    fix t c assume "child x n t = Some c"
    with ok show "lab c = Some (ctx, p @ nd_edge (node x c))" "nd_edge (node x c) \<noteq> []"
      "hd (nd_edge (node x c)) = t" "nd_parent (node x c) = n" by blast+
  qed
  moreover have "parents_ok x lab" unfolding parents_ok_def
  proof (intro allI impI)
    fix n ctx p assume "lab n = Some (ctx, p)" "p \<noteq> []"
    with ok [of n ctx p, unfolded node_ok_def]
    show "nd_edge (node x n) \<noteq> [] \<and> nd_first (node x n) = hd (nd_edge (node x n)) \<and>
      (\<exists>q. p = q @ nd_edge (node x n) \<and> lab (nd_parent (node x n)) = Some (ctx, q) \<and>
        child x (nd_parent (node x n)) (hd (nd_edge (node x n))) = Some n \<and>
        length q mod index_bs x + length (nd_edge (node x n)) \<le> index_bs x)" by blast
  qed
  moreover have "blocks_ok x lab" unfolding blocks_ok_def
  proof (intro conjI allI impI)
    fix n ctx p b assume n: "lab n = Some (ctx, p)" and b: "nd_terminal (node x n) = Some b"
    have "\<forall>b. nd_terminal (node x n) = Some b \<longrightarrow>
        length p mod index_bs x = 0 \<and> map_of (px_block_node x) b = Some n"
      using ok [OF n] unfolding node_ok_def by (elim conjE)
    with b show "length p mod index_bs x = 0" "map_of (px_block_node x) b = Some n" by simp_all
  qed (use assms(6) in blast)+
  ultimately show ?thesis using assms(1-4) unfolding labelled_def by blast
qed

lemma node_okI:
  assumes wf: "labelled x lab" and n: "lab n = Some (ctx, p)"
  shows "node_ok x lab n ctx p"
  unfolding node_ok_def
proof (intro conjI allI impI)
  show "distinct (map fst (nd_children (node x n)))" by (rule child_keys [OF wf n])
  show "nd_parent (node x n) = invalid_node" "nd_terminal (node x n) = None" if "p = []"
    using root_node [OF wf] n that by blast+
  assume "p \<noteq> []"
  with wf n show "nd_edge (node x n) \<noteq> []" "nd_first (node x n) = hd (nd_edge (node x n))"
    "\<exists>q. p = q @ nd_edge (node x n) \<and> lab (nd_parent (node x n)) = Some (ctx, q) \<and>
      child x (nd_parent (node x n)) (hd (nd_edge (node x n))) = Some n \<and>
      length q mod index_bs x + length (nd_edge (node x n)) \<le> index_bs x"
    by (auto elim: parentE)
qed (use childD [OF wf n] terminalD [OF wf n] in blast)+

lemma node_ok_frame:
  assumes wf: "labelled x lab" and n: "lab n = Some (ctx, p)"
    and same: "node y n = node x n" "index_bs y = index_bs x"
    and children: "\<And>t c. child x n t = Some c \<Longrightarrow> lab' c = lab c \<and>
      nd_edge (node y c) = nd_edge (node x c) \<and> nd_parent (node y c) = nd_parent (node x c)"
    and parent: "\<And>q. p = q @ nd_edge (node x n) \<Longrightarrow> lab (nd_parent (node x n)) = Some (ctx, q) \<Longrightarrow>
      nd_edge (node x n) \<noteq> [] \<Longrightarrow>
      child x (nd_parent (node x n)) (hd (nd_edge (node x n))) = Some n \<Longrightarrow>
      lab' (nd_parent (node x n)) = lab (nd_parent (node x n)) \<and>
      child y (nd_parent (node x n)) (hd (nd_edge (node x n))) = Some n"
    and table: "\<And>b. nd_terminal (node x n) = Some b \<Longrightarrow> map_of (px_block_node y) b = Some n"
  shows "node_ok y lab' n ctx p"
  using node_okI [OF wf n] children parent table unfolding node_ok_def same by auto

end
