(* ===== verification/Prefix_Steps.thy ===== *)
theory Prefix_Steps
  imports Prefix_Wf
begin

text \<open>
  The elementary changes of the index (a new root, a new leaf, a terminal block set or cleared, an
  edge cut in two, a node pruned): each keeps the index well-formed and has a simple effect on
  the map from paths to blocks.
\<close>

lemma option_eqI: "(\<And>b. u = Some b \<longleftrightarrow> v = Some b) \<Longrightarrow> u = v"
  by (cases u; cases v) auto

lemma block_at_unlabelled:
  "labelled x lab \<Longrightarrow> (\<And>n. lab n \<noteq> Some (c, q)) \<Longrightarrow> block_at x c q = None"
  by (rule option_eqI) (simp add: block_at_iff)

lemma block_at_same:
  assumes wf: "labelled x lab" "labelled y lab'"
    and keep: "\<And>m. lab m = Some (c, q) \<Longrightarrow>
      \<exists>k. lab' k = Some (c, q) \<and> nd_terminal (node y k) = nd_terminal (node x m)"
    and only: "\<And>k. lab' k = Some (c, q) \<Longrightarrow>
      nd_terminal (node y k) = None \<or> (\<exists>m. lab m = Some (c, q))"
  shows "block_at y c q = block_at x c q"
proof (cases "\<exists>m. lab m = Some (c, q)")
  case True
  then obtain m where m: "lab m = Some (c, q)" by blast
  from keep [OF this] obtain k where "lab' k = Some (c, q)"
    "nd_terminal (node y k) = nd_terminal (node x m)" by blast
  with m show ?thesis using block_at_label [OF wf(1)] block_at_label [OF wf(2)] by simp
next
  case False
  then have "block_at x c q = None" using block_at_unlabelled [OF wf(1)] by blast
  moreover have "block_at y c q = None"
  proof (cases "\<exists>k. lab' k = Some (c, q)")
    case True
    then show ?thesis using only False block_at_label [OF wf(2)] by metis
  next
    case False
    then show ?thesis using block_at_unlabelled [OF wf(2)] by blast
  qed
  ultimately show ?thesis by simp
qed

section \<open>New root\<close>

definition add_root :: "context_hash \<Rightarrow> prefix_index \<Rightarrow> prefix_index" where
  "add_root ctx x = x\<lparr>px_nodes := px_nodes x @ [empty_node],
     px_roots := AList.update ctx (node_count x) (px_roots x)\<rparr>"

lemma new_node_eq: "node_count x < 2 ^ 32 \<Longrightarrow>
    new_node x = (node_count x, x\<lparr>px_nodes := px_nodes x @ [empty_node]\<rparr>)"
  by (simp add: new_node_def)

lemma get_or_create_root_eq:
  "node_count x < invalid_node \<Longrightarrow> get_or_create_root ctx x =
     (case map_of (px_roots x) ctx of Some r \<Rightarrow> (r, x) | None \<Rightarrow> (node_count x, add_root ctx x))"
  by (auto simp: get_or_create_root_def new_node_eq invalid_node_def add_root_def split: option.splits)

lemma fresh_label: "labelled x lab \<Longrightarrow> lab (node_count x) = None"
  by (cases "lab (node_count x)") (auto dest: labelledD(3))

lemma labelled_add_root:
  assumes wf: "labelled x lab" and new: "map_of (px_roots x) ctx = None"
    and room: "node_count x < invalid_node"
  shows "labelled (add_root ctx x) (lab(node_count x \<mapsto> (ctx, [])))" (is "labelled ?y ?l")
proof (rule labelledI)
  let ?N = "node_count x"
  have noroot: "lab m \<noteq> Some (ctx, [])" for m using rootD [OF wf, of ctx m] new by simp
  have old: "m < ?N" if "lab m = Some l" for m l using labelledD(3) [OF wf that] .
  have ndN: "node ?y ?N = empty_node" by (simp add: add_root_def)
  have ndo: "node ?y m = node x m" if "m < ?N" for m using that by (simp add: add_root_def nth_append)
  show "0 < index_bs ?y" using labelledD(1) [OF wf] by (simp add: add_root_def index_bs_def)
  show "node_count ?y \<le> invalid_node" using room by (simp add: add_root_def)
  show "n < node_count ?y" if "?l n = Some l" for n l
    using that old by (auto simp: add_root_def less_Suc_eq split: if_splits)
  show "n = m" if "?l n = Some l" "?l m = Some l" for n m l
    using that labelledD(4) [OF wf] noroot by (auto split: if_splits)
  show "map_of (px_roots ?y) c = Some n \<longleftrightarrow> ?l n = Some (c, [])" for c n
    using rootD [OF wf, of c n] noroot fresh_label [OF wf] by (auto simp: add_root_def)
  show "?l n \<noteq> None \<and> nd_terminal (node ?y n) = Some b" if "map_of (px_block_node ?y) b = Some n" for b n
  proof -
    have "map_of (px_block_node x) b = Some n" using that by (simp add: add_root_def)
    from block_table [OF wf this] show ?thesis by (simp add: ndo)
  qed
  fix n c p assume n: "?l n = Some (c, p)"
  show "node_ok ?y ?l n c p"
  proof (cases "n = ?N")
    case True
    then show ?thesis using n ndN by (simp add: node_ok_def empty_node_def)
  next
    case False
    then have n': "lab n = Some (c, p)" using n by simp
    show ?thesis
    proof (rule node_ok_frame [OF wf n'])
      show "node ?y n = node x n" by (rule ndo [OF old [OF n']])
      show "index_bs ?y = index_bs x" by (simp add: add_root_def index_bs_def)
      show "?l d = lab d \<and> nd_edge (node ?y d) = nd_edge (node x d) \<and>
          nd_parent (node ?y d) = nd_parent (node x d)" if "child x n t = Some d" for t d
        using childD(5) [OF wf n' that] ndo by simp
      show "?l (nd_parent (node x n)) = lab (nd_parent (node x n)) \<and>
          child ?y (nd_parent (node x n)) (hd (nd_edge (node x n))) = Some n"
        if "lab (nd_parent (node x n)) = Some (c, q)"
          "child x (nd_parent (node x n)) (hd (nd_edge (node x n))) = Some n" for q
        using that old [OF that(1)] ndo by simp
      show "map_of (px_block_node ?y) b = Some n" if "nd_terminal (node x n) = Some b" for b
        using terminalD(2) [OF wf n' that] by (simp add: add_root_def)
    qed
  qed
qed

lemma block_at_add_root:
  assumes wf: "labelled x lab" and new: "map_of (px_roots x) ctx = None"
    and room: "node_count x < invalid_node"
  shows "block_at (add_root ctx x) c p = block_at x c p"
proof (rule block_at_same [OF wf labelled_add_root [OF assms]])
  have t: "nd_terminal (node (add_root ctx x) n) = (if n = node_count x then None else nd_terminal (node x n))"
    if "n \<le> node_count x" for n using that by (simp add: add_root_def nth_append empty_node_def)
  show "\<exists>k. (lab(node_count x \<mapsto> (ctx, []))) k = Some (c, p) \<and>
      nd_terminal (node (add_root ctx x) k) = nd_terminal (node x m)" if "lab m = Some (c, p)" for m
    using that labelledD(3) [OF wf that] t [of m] by (intro exI [of _ m]) simp
  show "nd_terminal (node (add_root ctx x) k) = None \<or> (\<exists>m. lab m = Some (c, p))"
    if "(lab(node_count x \<mapsto> (ctx, []))) k = Some (c, p)" for k
    using that t [of "node_count x"] by (auto split: if_splits)
qed

section \<open>New leaf\<close>

lemma create_leaf_view:
  assumes "node_count x < invalid_node" "n < node_count x"
    and "create_leaf toks b e n pos x = (i, y)"
  shows "i = node_count x" "index_bs y = index_bs x" "px_roots y = px_roots x"
    "node_count y = Suc (node_count x)"
    "map_of (px_block_node y) = (map_of (px_block_node x))(b \<mapsto> node_count x)"
    "node y (node_count x) = \<lparr>nd_edge = take (e - pos) (drop pos toks), nd_terminal = Some b,
       nd_children = [], nd_parent = n, nd_first = toks ! pos\<rparr>"
    "m < node_count x \<Longrightarrow> node y m = (if m = n
       then (node x n)\<lparr>nd_children := AList.update (toks ! pos) (node_count x) (nd_children (node x n))\<rparr>
       else node x m)"
proof -
  let ?N = "node_count x"
  let ?leaf = "\<lparr>nd_edge = take (e - pos) (drop pos toks), nd_terminal = Some b,
       nd_children = [], nd_parent = n, nd_first = toks ! pos\<rparr>"
  have N: "?N < 2 ^ 32" using assms(1) by (simp add: invalid_node_def)
  have "i = ?N \<and> y = x\<lparr>px_nodes := (px_nodes x @ [?leaf])[n :=
        (node x n)\<lparr>nd_children := AList.update (toks ! pos) ?N (nd_children (node x n))\<rparr>],
      px_block_node := AList.update b ?N (px_block_node x)\<rparr>"
    using assms N
    by (auto simp: create_leaf_def new_node_eq set_node_def Let_def empty_node_def nth_append)
  then show "i = ?N" "index_bs y = index_bs x" "px_roots y = px_roots x" "node_count y = Suc ?N"
    "map_of (px_block_node y) = (map_of (px_block_node x))(b \<mapsto> ?N)" "node y ?N = ?leaf"
    "m < ?N \<Longrightarrow> node y m = (if m = n
       then (node x n)\<lparr>nd_children := AList.update (toks ! pos) ?N (nd_children (node x n))\<rparr>
       else node x m)"
    using assms(2) by (auto simp: index_bs_def nth_append nth_list_update)
qed

lemma labelled_create_leaf:
  assumes wf: "labelled x lab" and n: "lab n = Some (ctx, p)"
    and none: "child x n (toks ! pos) = None" and room: "node_count x < invalid_node"
    and range: "pos < e" "e \<le> length toks" and fits: "length p mod index_bs x + (e - pos) = index_bs x"
    and fresh: "map_of (px_block_node x) b = None"
    and run: "create_leaf toks b e n pos x = (i, y)"
  shows "labelled y (lab(node_count x \<mapsto> (ctx, p @ take (e - pos) (drop pos toks))))"
    (is "labelled y ?l")
proof (rule labelledI)
  let ?N = "node_count x" and ?e = "take (e - pos) (drop pos toks)" and ?t = "toks ! pos"
  have nN: "n < ?N" using labelledD(3) [OF wf n] .
  note view = create_leaf_view [OF room nN run]
  have old: "m < ?N" if "lab m = Some l" for m l using labelledD(3) [OF wf that] .
  have len: "length ?e = e - pos" using range by simp
  have edge: "?e = ?t # tl ?e"
    using range by (simp add: Cons_nth_drop_Suc [symmetric, of pos toks] take_Cons' flip: drop_Suc)
  have nolab: "lab m \<noteq> Some (ctx, p @ ?e)" for m
    using no_child_no_path [OF wf n none, of m "tl ?e"] edge by simp
  have ch: "child y m t = (if m = n \<and> t = ?t then Some ?N else child x m t)" if "m < ?N" for m t
    using view(7) [OF that] by simp
  have keep: "nd_edge (node y m) = nd_edge (node x m)" "nd_parent (node y m) = nd_parent (node x m)"
    "nd_terminal (node y m) = nd_terminal (node x m)" "nd_first (node y m) = nd_first (node x m)"
    if "m < ?N" for m using view(7) [OF that] by simp_all
  show "0 < index_bs y" using labelledD(1) [OF wf] view(2) by simp
  show "node_count y \<le> invalid_node" using room view(4) by simp
  show "m < node_count y" if "?l m = Some l" for m l
    using that old view(4) by (auto simp: less_Suc_eq split: if_splits)
  show "m = k" if "?l m = Some l" "?l k = Some l" for m k l
    using that labelledD(4) [OF wf] nolab by (auto split: if_splits)
  show "map_of (px_roots y) c = Some m \<longleftrightarrow> ?l m = Some (c, [])" for c m
    using rootD [OF wf, of c m] fresh_label [OF wf] view(3) edge by auto
  show "?l m \<noteq> None \<and> nd_terminal (node y m) = Some b'" if "map_of (px_block_node y) b' = Some m" for b' m
  proof (cases "b' = b")
    case True
    then show ?thesis using that view(5,6) by simp
  next
    case False
    then have "map_of (px_block_node x) b' = Some m" using that view(5) by simp
    from block_table [OF wf this] show ?thesis by (simp add: keep)
  qed
  fix m c p' assume m: "?l m = Some (c, p')"
  consider (new) "m = ?N" | (parent) "m = n" "lab m = Some (c, p')" "m < ?N"
    | (other) "m \<noteq> n" "lab m = Some (c, p')" "m < ?N"
    using m old by (metis fun_upd_apply)
  then show "node_ok y ?l m c p'"
  proof cases
    case new
    then have "c = ctx" "p' = p @ ?e" using m by simp_all
    moreover have "child y n ?t = Some ?N" using ch [OF nN] by simp
    moreover have "length (p @ ?e) mod index_bs x = 0"
    proof -
      have "length (p @ ?e) mod index_bs x = (length p mod index_bs x + (e - pos)) mod index_bs x"
        using len by (simp add: mod_add_left_eq)
      then show ?thesis using fits by simp
    qed
    moreover have "?e \<noteq> []" "hd ?e = ?t" using edge by (metis list.distinct(1), metis list.sel(1))
    ultimately show ?thesis
      using new view(2,5,6) n nN fits len unfolding node_ok_def by auto
  next
    case parent
    then have c: "c = ctx" "p' = p" using n by simp_all
    have "nd_children (node y n) = AList.update ?t ?N (nd_children (node x n))"
      using view(7) [OF nN] by simp
    then have "distinct (map fst (nd_children (node y n)))"
      using child_keys [OF wf n] by (simp add: distinct_update)
    moreover have "?l d = Some (ctx, p @ nd_edge (node y d)) \<and> nd_edge (node y d) \<noteq> [] \<and>
        hd (nd_edge (node y d)) = t \<and> nd_parent (node y d) = n" if d: "child y n t = Some d" for t d
    proof (cases "t = ?t")
      case True
      then have "d = ?N" using d ch [OF nN] by simp
      moreover have "?e \<noteq> []" "hd ?e = ?t" using edge by (metis list.distinct(1), metis list.sel(1))
      ultimately show ?thesis using True view(6) by simp
    next
      case False
      then have "child x n t = Some d" using d ch [OF nN] by simp
      note d = childD [OF wf n this]
      show ?thesis using d keep [OF d(5)] by simp
    qed
    moreover note ok = node_okI [OF wf n]
    have "nd_parent (node x n) < ?N" if "p \<noteq> []" using parentE [OF wf n that] old by metis
    then have "(p = [] \<longrightarrow> nd_parent (node y n) = invalid_node \<and> nd_terminal (node y n) = None) \<and>
     (p \<noteq> [] \<longrightarrow> nd_edge (node y n) \<noteq> [] \<and> nd_first (node y n) = hd (nd_edge (node y n)) \<and>
        (\<exists>q. p = q @ nd_edge (node y n) \<and> ?l (nd_parent (node y n)) = Some (ctx, q) \<and>
           child y (nd_parent (node y n)) (hd (nd_edge (node y n))) = Some n \<and>
           length q mod index_bs y + length (nd_edge (node y n)) \<le> index_bs y))"
      using ok keep [OF nN] ch none view(2) unfolding node_ok_def by auto
    moreover have "\<forall>b. nd_terminal (node y n) = Some b \<longrightarrow>
        length p mod index_bs y = 0 \<and> map_of (px_block_node y) b = Some n"
      using terminalD [OF wf n] keep [OF nN] view(2,5) fresh by auto
    ultimately show ?thesis unfolding c parent(1) node_ok_def by blast
  next
    case other
    show ?thesis
    proof (rule node_ok_frame [OF wf other(2)])
      show "node y m = node x m" using view(7) [OF other(3)] other(1) by simp
      show "index_bs y = index_bs x" by (rule view(2))
      show "?l d = lab d \<and> nd_edge (node y d) = nd_edge (node x d) \<and>
          nd_parent (node y d) = nd_parent (node x d)" if "child x m t = Some d" for t d
        using childD(5) [OF wf other(2) that] keep by simp
      show "?l (nd_parent (node x m)) = lab (nd_parent (node x m)) \<and>
          child y (nd_parent (node x m)) (hd (nd_edge (node x m))) = Some m"
        if "lab (nd_parent (node x m)) = Some (c, q)"
          "child x (nd_parent (node x m)) (hd (nd_edge (node x m))) = Some m" for q
        using that old [OF that(1)] ch none by auto
      show "map_of (px_block_node y) b' = Some m" if "nd_terminal (node x m) = Some b'" for b'
        using terminalD(2) [OF wf other(2) that] view(5) fresh by auto
    qed
  qed
qed

lemma block_at_create_leaf:
  assumes wf: "labelled x lab" and n: "lab n = Some (ctx, p)"
    and none: "child x n (toks ! pos) = None" and room: "node_count x < invalid_node"
    and range: "pos < e" "e \<le> length toks" and fits: "length p mod index_bs x + (e - pos) = index_bs x"
    and fresh: "map_of (px_block_node x) b = None"
    and run: "create_leaf toks b e n pos x = (i, y)"
  shows "block_at y c q = (if c = ctx \<and> q = p @ take (e - pos) (drop pos toks) then Some b
      else block_at x c q)"
proof -
  note wfy = labelled_create_leaf [OF assms]
  have nN: "n < node_count x" using labelledD(3) [OF wf n] .
  note view = create_leaf_view [OF room nN run]
  let ?q = "p @ take (e - pos) (drop pos toks)"
  show ?thesis
  proof (cases "c = ctx \<and> q = ?q")
    case True
    then show ?thesis using block_at_label [OF wfy, of "node_count x"] view(6) by simp
  next
    case False
    have "block_at y c q = block_at x c q"
    proof (rule block_at_same [OF wf wfy])
      show "\<exists>k. (lab(node_count x \<mapsto> (ctx, ?q))) k = Some (c, q) \<and>
          nd_terminal (node y k) = nd_terminal (node x m)" if "lab m = Some (c, q)" for m
        using that labelledD(3) [OF wf that] view(7) [of m] by (intro exI [of _ m]) simp
    qed (use False in \<open>auto split: if_splits\<close>)
    with False show ?thesis by auto
  qed
qed

section \<open>Setting and clearing a terminal block\<close>

definition with_terminal :: "nat \<Rightarrow> block_id \<Rightarrow> prefix_index \<Rightarrow> prefix_index" where
  "with_terminal c b x = (set_node c (\<lambda>nd. nd\<lparr>nd_terminal := Some b\<rparr>) x)
     \<lparr>px_block_node := AList.update b c (px_block_node x)\<rparr>"

definition without_terminal :: "nat \<Rightarrow> block_id \<Rightarrow> prefix_index \<Rightarrow> prefix_index" where
  "without_terminal c b x = (set_node c (\<lambda>nd. nd\<lparr>nd_terminal := None\<rparr>) x)
     \<lparr>px_block_node := AList.delete b (px_block_node x)\<rparr>"

lemma with_terminal_view:
  "index_bs (with_terminal c b x) = index_bs x" "px_roots (with_terminal c b x) = px_roots x"
  "node_count (with_terminal c b x) = node_count x"
  "map_of (px_block_node (with_terminal c b x)) = (map_of (px_block_node x))(b \<mapsto> c)"
  "c < node_count x \<Longrightarrow> node (with_terminal c b x) m =
     (if m = c then (node x c)\<lparr>nd_terminal := Some b\<rparr> else node x m)"
  by (simp_all add: with_terminal_def set_node_def index_bs_def nth_list_update)

lemma without_terminal_view:
  "index_bs (without_terminal c b x) = index_bs x" "px_roots (without_terminal c b x) = px_roots x"
  "node_count (without_terminal c b x) = node_count x"
  "map_of (px_block_node (without_terminal c b x)) = (map_of (px_block_node x))(b := None)"
  "c < node_count x \<Longrightarrow> node (without_terminal c b x) m =
     (if m = c then (node x c)\<lparr>nd_terminal := None\<rparr> else node x m)"
  by (simp_all add: without_terminal_def set_node_def index_bs_def nth_list_update)

text \<open>A change of terminals and block table only keeps the tree.\<close>

lemma labelled_terminals:
  assumes wf: "labelled x lab"
    and same: "index_bs y = index_bs x" "px_roots y = px_roots x" "node_count y = node_count x"
    and tree: "\<And>m. node y m = (node x m)\<lparr>nd_terminal := nd_terminal (node y m)\<rparr>"
    and table: "\<And>b n. map_of (px_block_node y) b = Some n \<Longrightarrow>
      lab n \<noteq> None \<and> nd_terminal (node y n) = Some b"
    and terminals: "\<And>n ctx p b. lab n = Some (ctx, p) \<Longrightarrow> nd_terminal (node y n) = Some b \<Longrightarrow>
      p \<noteq> [] \<and> length p mod index_bs x = 0 \<and> map_of (px_block_node y) b = Some n"
  shows "labelled y lab"
proof (rule labelledI)
  have keep: "nd_edge (node y m) = nd_edge (node x m)" "nd_parent (node y m) = nd_parent (node x m)"
    "nd_children (node y m) = nd_children (node x m)" "nd_first (node y m) = nd_first (node x m)" for m
    by (subst tree, simp)+
  show "node_ok y lab n ctx p" if n: "lab n = Some (ctx, p)" for n ctx p
  proof -
    have "p = [] \<longrightarrow> nd_terminal (node y n) = None"
      using terminals [OF n] by (cases "nd_terminal (node y n)") auto
    moreover have "\<forall>b. nd_terminal (node y n) = Some b \<longrightarrow>
        length p mod index_bs x = 0 \<and> map_of (px_block_node y) b = Some n" using terminals [OF n] by blast
    ultimately show ?thesis
      using node_okI [OF wf n] unfolding node_ok_def keep same(1) by blast
  qed
qed (use same table labelledD(1-4) [OF wf] rootD [OF wf] in \<open>simp_all\<close>)

lemma labelled_with_terminal:
  assumes wf: "labelled x lab" and c: "lab c = Some (ctx, q)" and q: "q \<noteq> []" "length q mod index_bs x = 0"
    and none: "nd_terminal (node x c) = None" and fresh: "map_of (px_block_node x) b = None"
  shows "labelled (with_terminal c b x) lab"
proof -
  have cN: "c < node_count x" using labelledD(3) [OF wf c] .
  note view = with_terminal_view [where c = c and b = b and x = x]
  show ?thesis
  proof (rule labelled_terminals [OF wf view(1-3)])
    show "node (with_terminal c b x) m =
        (node x m)\<lparr>nd_terminal := nd_terminal (node (with_terminal c b x) m)\<rparr>" for m
      by (simp add: view(5) [OF cN])
    show "lab n \<noteq> None \<and> nd_terminal (node (with_terminal c b x) n) = Some b'"
      if "map_of (px_block_node (with_terminal c b x)) b' = Some n" for b' n
    proof (cases "b' = b")
      case True
      then have "n = c" using that by (simp add: view(4))
      with True c show ?thesis by (simp add: view(5) [OF cN])
    next
      case False
      then have "map_of (px_block_node x) b' = Some n" using that by (simp add: view(4))
      from block_table [OF wf this] none show ?thesis by (auto simp: view(5) [OF cN])
    qed
    show "p \<noteq> [] \<and> length p mod index_bs x = 0 \<and>
        map_of (px_block_node (with_terminal c b x)) b' = Some n"
      if "lab n = Some (ctx', p)" "nd_terminal (node (with_terminal c b x) n) = Some b'" for n ctx' p b'
      using that c q terminalD [OF wf that(1)] fresh
      by (cases "n = c") (auto simp: with_terminal_view(4) view(5) [OF cN])
  qed
qed

lemma block_at_with_terminal:
  assumes wf: "labelled x lab" and c: "lab c = Some (ctx, q)" and q: "q \<noteq> []" "length q mod index_bs x = 0"
    and none: "nd_terminal (node x c) = None" and fresh: "map_of (px_block_node x) b = None"
  shows "block_at (with_terminal c b x) c' p = (if c' = ctx \<and> p = q then Some b else block_at x c' p)"
proof -
  have cN: "c < node_count x" using labelledD(3) [OF wf c] .
  note wfy = labelled_with_terminal [OF assms] and view = with_terminal_view(5) [OF cN, of b]
  show ?thesis
  proof (cases "c' = ctx \<and> p = q")
    case True
    then show ?thesis using block_at_label [OF wfy c] view by simp
  next
    case False
    have "block_at (with_terminal c b x) c' p = block_at x c' p"
    proof (rule block_at_same [OF wf wfy])
      show "\<exists>k. lab k = Some (c', p) \<and>
          nd_terminal (node (with_terminal c b x) k) = nd_terminal (node x m)"
        if "lab m = Some (c', p)" for m
        using that c False view [of m] by (intro exI [of _ m]) auto
    qed blast
    with False show ?thesis by auto
  qed
qed

lemma labelled_without_terminal:
  assumes wf: "labelled x lab" and n: "map_of (px_block_node x) b = Some n"
  shows "labelled (without_terminal n b x) lab"
proof -
  have nN: "n < node_count x" and nb: "nd_terminal (node x n) = Some b"
    using block_table [OF wf n] by simp_all
  note view = without_terminal_view [where c = n and b = b and x = x]
  show ?thesis
  proof (rule labelled_terminals [OF wf view(1-3)])
    show "node (without_terminal n b x) m =
        (node x m)\<lparr>nd_terminal := nd_terminal (node (without_terminal n b x) m)\<rparr>" for m
      by (simp add: view(5) [OF nN])
    show "lab m \<noteq> None \<and> nd_terminal (node (without_terminal n b x) m) = Some b'"
      if "map_of (px_block_node (without_terminal n b x)) b' = Some m" for b' m
      using that block_table [OF wf, of b' m] nb
      by (cases "b' = b") (auto simp: view(4) view(5) [OF nN])
    show "p \<noteq> [] \<and> length p mod index_bs x = 0 \<and>
        map_of (px_block_node (without_terminal n b x)) b' = Some m"
      if m: "lab m = Some (ctx', p)" "nd_terminal (node (without_terminal n b x) m) = Some b'" for m ctx' p b'
    proof -
      from m(2) have "m \<noteq> n" and t: "nd_terminal (node x m) = Some b'"
        by (auto simp: view(5) [OF nN] split: if_splits)
      with terminalD [OF wf m(1) t] n show ?thesis by (auto simp: view(4))
    qed
  qed
qed

lemma block_at_without_terminal:
  assumes wf: "labelled x lab" and n: "map_of (px_block_node x) b = Some n"
  shows "block_at (without_terminal n b x) c p = (if block_at x c p = Some b then None else block_at x c p)"
proof -
  have nN: "n < node_count x" and nb: "nd_terminal (node x n) = Some b"
    using block_table [OF wf n] by simp_all
  note wfy = labelled_without_terminal [OF assms] and view = without_terminal_view(5) [OF nN, of b]
  show ?thesis
  proof (rule option_eqI)
    fix b'
    have only: "m = n" if "lab m = Some (c, p)" "nd_terminal (node x m) = Some b" for m
      using terminalD(2) [OF wf that] n by simp
    have "(if block_at x c p = Some b then None else block_at x c p) = Some b' \<longleftrightarrow>
        block_at x c p = Some b' \<and> b' \<noteq> b" by auto
    also have "\<dots> \<longleftrightarrow> (\<exists>m. lab m = Some (c, p) \<and> nd_terminal (node (without_terminal n b x) m) = Some b')"
    proof -
      have "lab m = Some (c, p) \<and> nd_terminal (node (without_terminal n b x) m) = Some b' \<longleftrightarrow>
          (lab m = Some (c, p) \<and> nd_terminal (node x m) = Some b') \<and> b' \<noteq> b" for m
        using only [of m] nb by (auto simp: view)
      then show ?thesis unfolding block_at_iff [OF wf] by auto
    qed
    finally show "block_at (without_terminal n b x) c p = Some b' \<longleftrightarrow>
        (if block_at x c p = Some b then None else block_at x c p) = Some b'"
      unfolding block_at_iff [OF wfy] by simp
  qed
qed

section \<open>Pruning a node\<close>

definition prune_step :: "nat \<Rightarrow> prefix_index \<Rightarrow> prefix_index" where
  "prune_step n x = set_node (nd_parent (node x n))
     (\<lambda>p. p\<lparr>nd_children := AList.delete (nd_first (node x n)) (nd_children p)\<rparr>) x"

lemma prune_step_view:
  assumes "nd_parent (node x n) < node_count x"
  shows "index_bs (prune_step n x) = index_bs x" "px_roots (prune_step n x) = px_roots x"
    "node_count (prune_step n x) = node_count x" "px_block_node (prune_step n x) = px_block_node x"
    "node (prune_step n x) m = (if m = nd_parent (node x n)
       then (node x m)\<lparr>nd_children := AList.delete (nd_first (node x n)) (nd_children (node x m))\<rparr>
       else node x m)"
  using assms by (simp_all add: prune_step_def set_node_def index_bs_def nth_list_update)

lemma labelled_prune_step:
  assumes wf: "labelled x lab" and n: "lab n = Some (ctx, p)" and p: "p \<noteq> []"
    and leaf: "nd_children (node x n) = []" "nd_terminal (node x n) = None"
  shows "labelled (prune_step n x) (lab(n := None))" (is "labelled ?y ?l")
proof (rule labelledI)
  obtain q where e: "nd_edge (node x n) \<noteq> []" "nd_first (node x n) = hd (nd_edge (node x n))"
    "p = q @ nd_edge (node x n)" "lab (nd_parent (node x n)) = Some (ctx, q)"
    "child x (nd_parent (node x n)) (hd (nd_edge (node x n))) = Some n"
    by (rule parentE [OF wf n p])
  let ?k = "nd_parent (node x n)" and ?t = "nd_first (node x n)"
  have kN: "?k < node_count x" using labelledD(3) [OF wf e(4)] .
  note view = prune_step_view [OF kN]
  have kn: "?k \<noteq> n" using e(1,3,4) n by auto
  have keep: "nd_edge (node ?y m) = nd_edge (node x m)" "nd_parent (node ?y m) = nd_parent (node x m)"
    "nd_terminal (node ?y m) = nd_terminal (node x m)" "nd_first (node ?y m) = nd_first (node x m)" for m
    using view(5) [of m] by simp_all
  have ch: "child ?y m t = (if m = ?k \<and> t = ?t then None else child x m t)" for m t
    using view(5) [of m] by simp
  show "0 < index_bs ?y" "node_count ?y \<le> invalid_node" using labelledD(1,2) [OF wf] view by simp_all
  show "m < node_count ?y" if "?l m = Some l" for m l
    using that labelledD(3) [OF wf] view by (auto split: if_splits)
  show "m = m'" if "?l m = Some l" "?l m' = Some l" for m m' l
    using that labelledD(4) [OF wf] by (auto split: if_splits)
  show "map_of (px_roots ?y) c = Some m \<longleftrightarrow> ?l m = Some (c, [])" for c m
    using rootD [OF wf, of c m] n p view(2) by auto
  show "?l m \<noteq> None \<and> nd_terminal (node ?y m) = Some b" if "map_of (px_block_node ?y) b = Some m" for b m
  proof -
    have "map_of (px_block_node x) b = Some m" using that view(4) by simp
    from block_table [OF wf this] leaf(2) show ?thesis by (auto simp: keep)
  qed
  fix m c p' assume m: "?l m = Some (c, p')"
  then have mn: "m \<noteq> n" and m': "lab m = Some (c, p')" by (auto split: if_splits)
  have nochild: "d \<noteq> n" if "child ?y m t = Some d" for t d
  proof
    assume "d = n"
    with that have d: "child x m t = Some n" "\<not> (m = ?k \<and> t = ?t)" by (auto simp: ch split: if_splits)
    from childD(3,4) [OF wf m' d(1)] e(2) d(2) show False by simp
  qed
  have children: "?l d = Some (c, p' @ nd_edge (node ?y d)) \<and> nd_edge (node ?y d) \<noteq> [] \<and>
        hd (nd_edge (node ?y d)) = t \<and> nd_parent (node ?y d) = m" if d: "child ?y m t = Some d" for t d
  proof -
    have "child x m t = Some d" using d by (auto simp: ch split: if_splits)
    from childD [OF wf m' this] nochild [OF d] show ?thesis by (simp add: keep)
  qed
  have dist: "distinct (map fst (nd_children (node ?y m)))"
    using child_keys [OF wf m'] view(5) [of m] by (auto simp: distinct_delete)
  have parent: "?l (nd_parent (node x m)) = lab (nd_parent (node x m)) \<and>
      child ?y (nd_parent (node x m)) (hd (nd_edge (node x m))) = Some m"
    if "lab (nd_parent (node x m)) = Some (c, q')"
      "child x (nd_parent (node x m)) (hd (nd_edge (node x m))) = Some m" for q'
  proof -
    have "nd_parent (node x m) \<noteq> n" using that(2) leaf(1) by auto
    moreover have "\<not> (nd_parent (node x m) = ?k \<and> hd (nd_edge (node x m)) = ?t)"
      using that(2) e(2,5) mn by auto
    ultimately show ?thesis using that(2) by (simp add: ch)
  qed
  show "node_ok ?y ?l m c p'"
    unfolding node_ok_def
  proof (intro conjI impI)
    show "distinct (map fst (nd_children (node ?y m)))" by (rule dist)
    show "\<forall>t d. child ?y m t = Some d \<longrightarrow> ?l d = Some (c, p' @ nd_edge (node ?y d)) \<and>
        nd_edge (node ?y d) \<noteq> [] \<and> hd (nd_edge (node ?y d)) = t \<and> nd_parent (node ?y d) = m"
      using children by blast
    show "nd_parent (node ?y m) = invalid_node" "nd_terminal (node ?y m) = None" if "p' = []"
      using root_node [OF wf] m' that keep by simp_all
    show "\<forall>b. nd_terminal (node ?y m) = Some b \<longrightarrow>
        length p' mod index_bs ?y = 0 \<and> map_of (px_block_node ?y) b = Some m"
      using terminalD [OF wf m'] keep view by simp
    assume "p' \<noteq> []"
    with wf m' obtain q' where q': "nd_edge (node x m) \<noteq> []" "nd_first (node x m) = hd (nd_edge (node x m))"
      "p' = q' @ nd_edge (node x m)" "lab (nd_parent (node x m)) = Some (c, q')"
      "child x (nd_parent (node x m)) (hd (nd_edge (node x m))) = Some m"
      "length q' mod index_bs x + length (nd_edge (node x m)) \<le> index_bs x"
      by (rule parentE)
    then show "nd_edge (node ?y m) \<noteq> []" "nd_first (node ?y m) = hd (nd_edge (node ?y m))"
      by (simp_all add: keep)
    show "\<exists>q. p' = q @ nd_edge (node ?y m) \<and> ?l (nd_parent (node ?y m)) = Some (c, q) \<and>
        child ?y (nd_parent (node ?y m)) (hd (nd_edge (node ?y m))) = Some m \<and>
        length q mod index_bs ?y + length (nd_edge (node ?y m)) \<le> index_bs ?y"
      using q' parent [OF q'(4,5)] by (intro exI [of _ q']) (simp add: keep view(1))
  qed
qed

lemma block_at_prune_step:
  assumes wf: "labelled x lab" and n: "lab n = Some (ctx, p)" and p: "p \<noteq> []"
    and leaf: "nd_children (node x n) = []" "nd_terminal (node x n) = None"
  shows "block_at (prune_step n x) c q = block_at x c q"
proof (rule option_eqI)
  fix b
  note wfy = labelled_prune_step [OF assms]
  have kN: "nd_parent (node x n) < node_count x"
    using parentE [OF wf n p] labelledD(3) [OF wf] by metis
  have t: "nd_terminal (node (prune_step n x) m) = nd_terminal (node x m)" for m
    by (simp add: prune_step_view(5) [OF kN])
  show "block_at (prune_step n x) c q = Some b \<longleftrightarrow> block_at x c q = Some b"
  proof -
    have "(lab(n := None)) m = Some (c, q) \<and> nd_terminal (node x m) = Some b \<longleftrightarrow>
        lab m = Some (c, q) \<and> nd_terminal (node x m) = Some b" for m using leaf(2) by auto
    then show ?thesis unfolding block_at_iff [OF wfy] block_at_iff [OF wf] t by simp
  qed
qed

end
