(* ===== verification/Prefix_Split.thy ===== *)
theory Prefix_Split
  imports Prefix_Steps
begin

text \<open>
  Cutting an edge: the child keeps the front of its edge, a new node below it takes the rest, its
  terminal block and its children. No path gains or loses a block.
\<close>

definition set_parents :: "nat \<Rightarrow> (token_id \<times> nat) list \<Rightarrow> prefix_index \<Rightarrow> prefix_index" where
  "set_parents k cs x = fold (\<lambda>(tok, g). set_node g (\<lambda>nd. nd\<lparr>nd_parent := k\<rparr>)) cs x"

lemma set_parents_simps:
  "set_parents k [] x = x"
  "set_parents k ((t, g) # cs) x = set_parents k cs (set_node g (\<lambda>nd. nd\<lparr>nd_parent := k\<rparr>) x)"
  by (simp_all add: set_parents_def)

lemma set_parents_others:
  "node_count (set_parents k cs x) = node_count x"
  "px_roots (set_parents k cs x) = px_roots x"
  "px_block_node (set_parents k cs x) = px_block_node x"
  "px_block_size (set_parents k cs x) = px_block_size x"
proof (induction cs arbitrary: x)
  case (Cons p cs)
  {
    case 1 then show ?case by (cases p) (simp add: set_parents_simps Cons set_node_def)
  next
    case 2 then show ?case by (cases p) (simp add: set_parents_simps Cons set_node_def)
  next
    case 3 then show ?case by (cases p) (simp add: set_parents_simps Cons set_node_def)
  next
    case 4 then show ?case by (cases p) (simp add: set_parents_simps Cons set_node_def)
  }
qed (simp_all add: set_parents_simps)

lemma node_set_parents:
  "\<forall>g \<in> snd ` set cs. g < node_count x \<Longrightarrow> m < node_count x \<Longrightarrow>
   node (set_parents k cs x) m = (if m \<in> snd ` set cs then (node x m)\<lparr>nd_parent := k\<rparr> else node x m)"
proof (induction cs arbitrary: x)
  case (Cons p cs)
  obtain t g where p: "p = (t, g)" by (cases p)
  let ?x = "set_node g (\<lambda>nd. nd\<lparr>nd_parent := k\<rparr>) x"
  have "node_count ?x = node_count x" by (simp add: set_node_def)
  moreover have "node ?x m = (if m = g then (node x g)\<lparr>nd_parent := k\<rparr> else node x m)"
    using Cons.prems p by (simp add: set_node_def nth_list_update)
  ultimately show ?case using Cons.IH [of ?x] Cons.prems by (auto simp: p set_parents_simps)
qed (simp add: set_parents_simps)

lemma split_edge_view:
  assumes room: "node_count x < invalid_node" and c: "c < node_count x"
    and gs: "\<forall>g \<in> snd ` set (nd_children (node x c)). g < node_count x \<and> g \<noteq> c"
  shows "index_bs (split_edge c l x) = index_bs x" "px_roots (split_edge c l x) = px_roots x"
    "node_count (split_edge c l x) = Suc (node_count x)"
    "map_of (px_block_node (split_edge c l x)) = (case nd_terminal (node x c) of
       Some b \<Rightarrow> (map_of (px_block_node x))(b \<mapsto> node_count x) | None \<Rightarrow> map_of (px_block_node x))"
    "node (split_edge c l x) (node_count x) = \<lparr>nd_edge = drop l (nd_edge (node x c)),
       nd_terminal = nd_terminal (node x c), nd_children = nd_children (node x c), nd_parent = c,
       nd_first = hd (drop l (nd_edge (node x c)))\<rparr>"
    "node (split_edge c l x) c = (node x c)\<lparr>nd_edge := take l (nd_edge (node x c)),
       nd_terminal := None, nd_children := [(hd (drop l (nd_edge (node x c))), node_count x)]\<rparr>"
    "m < node_count x \<Longrightarrow> m \<noteq> c \<Longrightarrow> node (split_edge c l x) m =
       (if m \<in> snd ` set (nd_children (node x c)) then (node x m)\<lparr>nd_parent := node_count x\<rparr>
        else node x m)"
proof -
  let ?N = "node_count x" and ?cn = "node x c"
  let ?new = "\<lparr>nd_edge = drop l (nd_edge ?cn), nd_terminal = nd_terminal ?cn,
     nd_children = nd_children ?cn, nd_parent = c, nd_first = hd (drop l (nd_edge ?cn))\<rparr>"
  let ?x2 = "x\<lparr>px_nodes := px_nodes x @ [?new]\<rparr>"
  let ?x3 = "set_parents ?N (nd_children ?cn) ?x2"
  have N: "?N < 2 ^ 32" using room by (simp add: invalid_node_def)
  have x2: "set_node ?N (\<lambda>nd. nd\<lparr>nd_edge := drop l (nd_edge ?cn), nd_terminal := nd_terminal ?cn,
       nd_children := nd_children ?cn, nd_parent := c, nd_first := hd (drop l (nd_edge ?cn))\<rparr>)
       (x\<lparr>px_nodes := px_nodes x @ [empty_node]\<rparr>) = ?x2"
    by (simp add: set_node_def empty_node_def nth_append)
  have y: "split_edge c l x = set_node c (\<lambda>nd. nd\<lparr>nd_edge := take l (nd_edge nd), nd_terminal := None,
       nd_children := [(hd (drop l (nd_edge ?cn)), ?N)]\<rparr>)
       (case nd_terminal ?cn of
          Some b \<Rightarrow> ?x3\<lparr>px_block_node := AList.update b ?N (px_block_node ?x3)\<rparr> | None \<Rightarrow> ?x3)"
    unfolding split_edge_def Let_def new_node_eq [OF N] prod.case x2 set_parents_def ..
  have all: "\<forall>g \<in> snd ` set (nd_children ?cn). g < node_count ?x2" using gs by auto
  note f = node_set_parents [OF all, of _ ?N]
  have nd3: "node ?x3 m = (if m = ?N then ?new else if m \<in> snd ` set (nd_children ?cn)
      then (node x m)\<lparr>nd_parent := ?N\<rparr> else node x m)" if "m \<le> ?N" for m
    using f [of m] that gs by (auto simp: nth_append)
  show "index_bs (split_edge c l x) = index_bs x" "px_roots (split_edge c l x) = px_roots x"
    "node_count (split_edge c l x) = Suc ?N"
    "map_of (px_block_node (split_edge c l x)) = (case nd_terminal ?cn of
       Some b \<Rightarrow> (map_of (px_block_node x))(b \<mapsto> ?N) | None \<Rightarrow> map_of (px_block_node x))"
    unfolding y by (auto simp: set_parents_others set_node_def index_bs_def split: option.splits)
  have nodes: "px_nodes (case nd_terminal ?cn of
      Some b \<Rightarrow> ?x3\<lparr>px_block_node := AList.update b ?N (px_block_node ?x3)\<rparr> | None \<Rightarrow> ?x3) = px_nodes ?x3"
    by (simp split: option.splits)
  have ndy: "node (split_edge c l x) m = (if m = c then (node ?x3 c)\<lparr>nd_edge := take l (nd_edge (node ?x3 c)),
       nd_terminal := None, nd_children := [(hd (drop l (nd_edge ?cn)), ?N)]\<rparr> else node ?x3 m)" for m
    unfolding y using c by (simp add: set_parents_others set_node_def nodes nth_list_update)
  show "node (split_edge c l x) ?N = ?new" using c by (simp add: ndy nd3)
  show "node (split_edge c l x) c = ?cn\<lparr>nd_edge := take l (nd_edge ?cn),
       nd_terminal := None, nd_children := [(hd (drop l (nd_edge ?cn)), ?N)]\<rparr>"
    using c gs by (auto simp: ndy nd3)
  show "m < ?N \<Longrightarrow> m \<noteq> c \<Longrightarrow> node (split_edge c l x) m =
       (if m \<in> snd ` set (nd_children ?cn) then (node x m)\<lparr>nd_parent := ?N\<rparr> else node x m)"
    by (simp add: ndy nd3)
qed

section \<open>The cut keeps the index well-formed\<close>

text \<open>The cut of the edge of \<open>c\<close> after \<open>l\<close> tokens, the labels after it and the new node.\<close>

definition edge_cut ::
  "prefix_index \<Rightarrow> (nat \<Rightarrow> label option) \<Rightarrow> nat \<Rightarrow> nat \<Rightarrow> context_hash \<Rightarrow> token_id list \<Rightarrow> bool" where
  "edge_cut x lab c l ctx q \<longleftrightarrow> labelled x lab \<and> node_count x < invalid_node \<and>
     lab c = Some (ctx, q @ nd_edge (node x c)) \<and> 0 < l \<and> l < length (nd_edge (node x c))"

definition cut_labels ::
  "prefix_index \<Rightarrow> (nat \<Rightarrow> label option) \<Rightarrow> nat \<Rightarrow> nat \<Rightarrow> context_hash \<Rightarrow> token_id list \<Rightarrow> nat \<Rightarrow> label option"
  where
  "cut_labels x lab c l ctx q = lab(c \<mapsto> (ctx, q @ take l (nd_edge (node x c))),
     node_count x \<mapsto> (ctx, q @ nd_edge (node x c)))"

lemma edge_cutD:
  assumes "edge_cut x lab c l ctx q"
  shows "labelled x lab" "node_count x < invalid_node" "lab c = Some (ctx, q @ nd_edge (node x c))"
    "0 < l" "l < length (nd_edge (node x c))" "c < node_count x"
  using assms labelledD(3) [of x lab c] by (auto simp: edge_cut_def)

lemma cut_edge_parts:
  assumes "0 < l" "l < length e"
  shows "e \<noteq> []" "take l e \<noteq> []" "drop l e \<noteq> []" "hd (take l e) = hd e"
  using assms by (auto simp: hd_take)

lemma edge_cut_parent:
  assumes ec: "edge_cut x lab c l ctx q"
  shows "lab (nd_parent (node x c)) = Some (ctx, q)"
    "child x (nd_parent (node x c)) (hd (nd_edge (node x c))) = Some c"
    "nd_first (node x c) = hd (nd_edge (node x c))"
    "length q mod index_bs x + length (nd_edge (node x c)) \<le> index_bs x"
    "nd_parent (node x c) \<noteq> c" "nd_parent (node x c) < node_count x"
proof -
  note d = edge_cutD [OF ec]
  have ne: "nd_edge (node x c) \<noteq> []" using d(4,5) by auto
  then obtain q' where q': "q @ nd_edge (node x c) = q' @ nd_edge (node x c)"
    "lab (nd_parent (node x c)) = Some (ctx, q')"
    "child x (nd_parent (node x c)) (hd (nd_edge (node x c))) = Some c"
    "nd_first (node x c) = hd (nd_edge (node x c))"
    "length q' mod index_bs x + length (nd_edge (node x c)) \<le> index_bs x"
    using parentE [OF d(1,3)] by (metis append_is_Nil_conv)
  then show 1: "lab (nd_parent (node x c)) = Some (ctx, q)"
    and "child x (nd_parent (node x c)) (hd (nd_edge (node x c))) = Some c"
    "nd_first (node x c) = hd (nd_edge (node x c))"
    "length q mod index_bs x + length (nd_edge (node x c)) \<le> index_bs x" by simp_all
  from 1 d(3) ne show "nd_parent (node x c) \<noteq> c" by auto
  show "nd_parent (node x c) < node_count x" by (rule labelledD(3) [OF d(1) 1])
qed

lemma grandchild:
  assumes ec: "edge_cut x lab c l ctx q" and t: "child x c t = Some g"
  shows "lab g = Some (ctx, (q @ nd_edge (node x c)) @ nd_edge (node x g))" "nd_edge (node x g) \<noteq> []"
    "hd (nd_edge (node x g)) = t" "nd_parent (node x g) = c" "g < node_count x" "g \<noteq> c"
proof -
  note g = childD [OF edge_cutD(1,3) [OF ec] t]
  then show "lab g = Some (ctx, (q @ nd_edge (node x c)) @ nd_edge (node x g))"
    "nd_edge (node x g) \<noteq> []" "hd (nd_edge (node x g)) = t" "nd_parent (node x g) = c"
    "g < node_count x" by simp_all
  with edge_cutD(3) [OF ec] show "g \<noteq> c" by auto
qed

lemma edge_cut_view:
  assumes ec: "edge_cut x lab c l ctx q"
  shows "index_bs (split_edge c l x) = index_bs x" "px_roots (split_edge c l x) = px_roots x"
    "node_count (split_edge c l x) = Suc (node_count x)"
    "map_of (px_block_node (split_edge c l x)) = (case nd_terminal (node x c) of
       Some b \<Rightarrow> (map_of (px_block_node x))(b \<mapsto> node_count x) | None \<Rightarrow> map_of (px_block_node x))"
    "node (split_edge c l x) (node_count x) = \<lparr>nd_edge = drop l (nd_edge (node x c)),
       nd_terminal = nd_terminal (node x c), nd_children = nd_children (node x c), nd_parent = c,
       nd_first = hd (drop l (nd_edge (node x c)))\<rparr>"
    "node (split_edge c l x) c = (node x c)\<lparr>nd_edge := take l (nd_edge (node x c)),
       nd_terminal := None, nd_children := [(hd (drop l (nd_edge (node x c))), node_count x)]\<rparr>"
    "m < node_count x \<Longrightarrow> m \<noteq> c \<Longrightarrow> node (split_edge c l x) m =
       (if \<exists>t. child x c t = Some m then (node x m)\<lparr>nd_parent := node_count x\<rparr> else node x m)"
proof -
  have gc: "m \<in> snd ` set (nd_children (node x c)) \<longleftrightarrow> (\<exists>t. child x c t = Some m)" for m
    using child_keys [OF edge_cutD(1,3) [OF ec]] by force
  then have "\<forall>g \<in> snd ` set (nd_children (node x c)). g < node_count x \<and> g \<noteq> c"
    using grandchild(5,6) [OF ec] by blast
  note v = split_edge_view [OF edge_cutD(2,6) [OF ec] this, where l = l]
  from v(1-6) show "index_bs (split_edge c l x) = index_bs x" "px_roots (split_edge c l x) = px_roots x"
    "node_count (split_edge c l x) = Suc (node_count x)"
    "map_of (px_block_node (split_edge c l x)) = (case nd_terminal (node x c) of
       Some b \<Rightarrow> (map_of (px_block_node x))(b \<mapsto> node_count x) | None \<Rightarrow> map_of (px_block_node x))"
    "node (split_edge c l x) (node_count x) = \<lparr>nd_edge = drop l (nd_edge (node x c)),
       nd_terminal = nd_terminal (node x c), nd_children = nd_children (node x c), nd_parent = c,
       nd_first = hd (drop l (nd_edge (node x c)))\<rparr>"
    "node (split_edge c l x) c = (node x c)\<lparr>nd_edge := take l (nd_edge (node x c)),
       nd_terminal := None, nd_children := [(hd (drop l (nd_edge (node x c))), node_count x)]\<rparr>" .
  show "m < node_count x \<Longrightarrow> m \<noteq> c \<Longrightarrow> node (split_edge c l x) m =
     (if \<exists>t. child x c t = Some m then (node x m)\<lparr>nd_parent := node_count x\<rparr> else node x m)"
    using v(7) [of m] by (simp add: gc)
qed

lemma edge_cut_keep:
  assumes ec: "edge_cut x lab c l ctx q" and m: "m < node_count x" "m \<noteq> c"
  shows "nd_edge (node (split_edge c l x) m) = nd_edge (node x m)"
    "nd_children (node (split_edge c l x) m) = nd_children (node x m)"
    "nd_terminal (node (split_edge c l x) m) = nd_terminal (node x m)"
    "nd_first (node (split_edge c l x) m) = nd_first (node x m)"
    "nd_parent (node (split_edge c l x) m) =
       (if \<exists>t. child x c t = Some m then node_count x else nd_parent (node x m))"
  using edge_cut_view(7) [OF ec m] by simp_all

lemma no_label_at_cut:
  assumes ec: "edge_cut x lab c l ctx q"
  shows "lab m \<noteq> Some (ctx, q @ take l (nd_edge (node x c)))"
  using no_label_inside_edge [OF edge_cutD(1) [OF ec] edge_cut_parent(1,2) [OF ec],
      of "take l (nd_edge (node x c))" "drop l (nd_edge (node x c))"]
    cut_edge_parts [OF edge_cutD(4,5) [OF ec]] by simp

lemma cut_labels_simps:
  assumes ec: "edge_cut x lab c l ctx q"
  shows "cut_labels x lab c l ctx q c = Some (ctx, q @ take l (nd_edge (node x c)))"
    "cut_labels x lab c l ctx q (node_count x) = Some (ctx, q @ nd_edge (node x c))"
    "m \<noteq> c \<Longrightarrow> m \<noteq> node_count x \<Longrightarrow> cut_labels x lab c l ctx q m = lab m"
  using edge_cutD(6) [OF ec] by (simp_all add: cut_labels_def)

lemma cut_labels_cases:
  assumes ec: "edge_cut x lab c l ctx q" and m: "cut_labels x lab c l ctx q m = Some (c', p)"
  obtains (mid) "m = c" "c' = ctx" "p = q @ take l (nd_edge (node x c))"
    | (new) "m = node_count x" "c' = ctx" "p = q @ nd_edge (node x c)"
    | (old) "m \<noteq> c" "m < node_count x" "lab m = Some (c', p)"
  using m labelledD(3) [OF edge_cutD(1) [OF ec], of m] cut_labels_simps [OF ec]
  by (cases "m = node_count x"; cases "m = c") auto

lemma cut_labels_inject:
  assumes ec: "edge_cut x lab c l ctx q"
    and m: "cut_labels x lab c l ctx q m = Some v" and n: "cut_labels x lab c l ctx q n = Some v"
  shows "m = n"
proof (cases v)
  case (Pair c' p)
  note wf = edge_cutD(1) [OF ec]
  have whole: "lab j = Some (ctx, q @ nd_edge (node x c)) \<Longrightarrow> j = c" for j
    using labelledD(4) [OF wf] edge_cutD(3) [OF ec] by blast
  have "length (q @ take l (nd_edge (node x c))) < length (q @ nd_edge (node x c))"
    using edge_cutD(5) [OF ec] by simp
  then have ne: "q @ take l (nd_edge (node x c)) \<noteq> q @ nd_edge (node x c)" by (metis less_irrefl)
  from ec m [unfolded Pair] show ?thesis
  proof (cases rule: cut_labels_cases)
    case mid
    from ec n [unfolded Pair] show ?thesis
      by (cases rule: cut_labels_cases) (use mid ne no_label_at_cut [OF ec, of n] in auto)
  next
    case new
    from ec n [unfolded Pair] show ?thesis
      by (cases rule: cut_labels_cases) (use new ne whole [of n] in auto)
  next
    case old
    from ec n [unfolded Pair] show ?thesis
      by (cases rule: cut_labels_cases)
        (use old no_label_at_cut [OF ec, of m] whole [of m] labelledD(4) [OF wf] in auto)
  qed
qed

lemma length_mod_at_cut:
  assumes ec: "edge_cut x lab c l ctx q"
  shows "length (q @ take l (nd_edge (node x c))) mod index_bs x = length q mod index_bs x + l"
proof -
  have "length q mod index_bs x + l < index_bs x"
    using edge_cut_parent(4) [OF ec] edge_cutD(5) [OF ec] by simp
  then have "(length q + l) mod index_bs x = length q mod index_bs x + l"
    by (metis mod_add_left_eq mod_less)
  then show ?thesis using edge_cutD(5) [OF ec] by simp
qed

lemma node_ok_cut_new:
  assumes ec: "edge_cut x lab c l ctx q"
  shows "node_ok (split_edge c l x) (cut_labels x lab c l ctx q) (node_count x) ctx (q @ nd_edge (node x c))"
    (is "node_ok ?y ?l ?N ctx (q @ ?e)")
  unfolding node_ok_def
proof (intro conjI impI allI)
  note wf = edge_cutD(1) [OF ec] and c = edge_cutD(3) [OF ec] and view = edge_cut_view [OF ec]
    and parts = cut_edge_parts [OF edge_cutD(4,5) [OF ec]]
  show "distinct (map fst (nd_children (node ?y ?N)))" using child_keys [OF wf c] view(5) by simp
  show "?l d = Some (ctx, (q @ ?e) @ nd_edge (node ?y d))" "nd_edge (node ?y d) \<noteq> []"
    "hd (nd_edge (node ?y d)) = t" "nd_parent (node ?y d) = ?N" if "child ?y ?N t = Some d" for t d
  proof -
    have d: "child x c t = Some d" using that view(5) by simp
    note g = grandchild [OF ec d]
    show "?l d = Some (ctx, (q @ ?e) @ nd_edge (node ?y d))" "nd_edge (node ?y d) \<noteq> []"
      "hd (nd_edge (node ?y d)) = t" "nd_parent (node ?y d) = ?N"
      using g d edge_cut_keep [OF ec g(5,6)] cut_labels_simps(3) [OF ec g(6)] by auto
  qed
  show "\<exists>q'. q @ ?e = q' @ nd_edge (node ?y ?N) \<and> ?l (nd_parent (node ?y ?N)) = Some (ctx, q') \<and>
      child ?y (nd_parent (node ?y ?N)) (hd (nd_edge (node ?y ?N))) = Some ?N \<and>
      length q' mod index_bs ?y + length (nd_edge (node ?y ?N)) \<le> index_bs ?y"
    using edge_cut_parent(4) [OF ec] edge_cutD(5) [OF ec] length_mod_at_cut [OF ec]
    by (intro exI [of _ "q @ take l ?e"]) (simp add: view(1,5,6) cut_labels_simps(1) [OF ec])
  show "length (q @ ?e) mod index_bs ?y = 0" "map_of (px_block_node ?y) b = Some ?N"
    if "nd_terminal (node ?y ?N) = Some b" for b
    using that terminalD [OF wf c, of b] view(1,4,5) by auto
  show "nd_edge (node ?y ?N) \<noteq> []" "nd_first (node ?y ?N) = hd (nd_edge (node ?y ?N))"
    using parts view(5) by simp_all
qed (use cut_edge_parts [OF edge_cutD(4,5) [OF ec]] in simp_all)

lemma node_ok_cut_mid:
  assumes ec: "edge_cut x lab c l ctx q"
  shows "node_ok (split_edge c l x) (cut_labels x lab c l ctx q) c ctx (q @ take l (nd_edge (node x c)))"
    (is "node_ok ?y ?l c ctx (q @ take l ?e)")
  unfolding node_ok_def
proof (intro conjI impI allI)
  note view = edge_cut_view [OF ec] and parts = cut_edge_parts [OF edge_cutD(4,5) [OF ec]]
    and k = edge_cut_parent [OF ec]
  show "distinct (map fst (nd_children (node ?y c)))" using view(6) by simp
  show "?l d = Some (ctx, (q @ take l ?e) @ nd_edge (node ?y d))" "nd_edge (node ?y d) \<noteq> []"
    "hd (nd_edge (node ?y d)) = t" "nd_parent (node ?y d) = c" if "child ?y c t = Some d" for t d
    using that view(5,6) parts cut_labels_simps(2) [OF ec] by (auto split: if_splits)
  show "\<exists>q'. q @ take l ?e = q' @ nd_edge (node ?y c) \<and> ?l (nd_parent (node ?y c)) = Some (ctx, q') \<and>
      child ?y (nd_parent (node ?y c)) (hd (nd_edge (node ?y c))) = Some c \<and>
      length q' mod index_bs ?y + length (nd_edge (node ?y c)) \<le> index_bs ?y"
    using k edge_cutD(4,5) [OF ec] edge_cut_keep(2) [OF ec k(6,5)] cut_labels_simps(3) [OF ec k(5)] parts(4)
    by (intro exI [of _ q]) (simp add: view(1,6))
  show "nd_edge (node ?y c) \<noteq> []" "nd_first (node ?y c) = hd (nd_edge (node ?y c))"
    using parts view(6) k(3) by simp_all
qed (use cut_edge_parts [OF edge_cutD(4,5) [OF ec]] edge_cut_view(6) [OF ec] in simp_all)

lemma node_ok_cut_old:
  assumes ec: "edge_cut x lab c l ctx q" and m: "m \<noteq> c" "m < node_count x" "lab m = Some (c', p)"
  shows "node_ok (split_edge c l x) (cut_labels x lab c l ctx q) m c' p" (is "node_ok ?y ?l m c' p")
  unfolding node_ok_def
proof (intro conjI impI allI)
  note wf = edge_cutD(1) [OF ec] and c = edge_cutD(3) [OF ec] and view = edge_cut_view [OF ec]
    and parts = cut_edge_parts [OF edge_cutD(4,5) [OF ec]] and k = edge_cut_parent [OF ec]
    and km = edge_cut_keep [OF ec m(2,1)]
  show "distinct (map fst (nd_children (node ?y m)))" using child_keys [OF wf m(3)] km by simp
  show "nd_terminal (node ?y m) = None" if "p = []"
    using root_node(2) [OF wf] m(3) that km by simp
  show "nd_parent (node ?y m) = invalid_node" if p: "p = []"
  proof -
    have "child x c t \<noteq> Some m" for t using grandchild(1,2) [OF ec, of t m] m(3) p by auto
    then show ?thesis using root_node(1) [OF wf] m(3) p km by simp
  qed
  show "length p mod index_bs ?y = 0" "map_of (px_block_node ?y) b = Some m"
    if "nd_terminal (node ?y m) = Some b" for b
  proof -
    have t: "nd_terminal (node x m) = Some b" using that km by simp
    note d = terminalD [OF wf m(3) t]
    then show "length p mod index_bs ?y = 0" using view(1) by simp
    have "nd_terminal (node x c) \<noteq> Some b" using d(2) terminalD(2) [OF wf c] m(1) by auto
    then show "map_of (px_block_node ?y) b = Some m" using d(2) view(4) by (auto split: option.splits)
  qed
  show "?l d = Some (c', p @ nd_edge (node ?y d))" "nd_edge (node ?y d) \<noteq> []"
    "hd (nd_edge (node ?y d)) = t" "nd_parent (node ?y d) = m" if "child ?y m t = Some d" for t d
  proof -
    have d: "child x m t = Some d" using that km by simp
    note g = childD [OF wf m(3) d]
    have "?l d = Some (c', p @ nd_edge (node ?y d)) \<and> nd_edge (node ?y d) \<noteq> [] \<and>
      hd (nd_edge (node ?y d)) = t \<and> nd_parent (node ?y d) = m"
    proof (cases "d = c")
      case True
      then have "m = nd_parent (node x c)" "c' = ctx" "p = q" using g(4) m(3) k(1) by auto
      then show ?thesis using True g parts view(6) cut_labels_simps(1) [OF ec] by simp
    next
      case False
      then have "\<not> (\<exists>t. child x c t = Some d)" using grandchild(4) [OF ec] g(4) m(1) by auto
      with g edge_cut_keep [OF ec g(5) False] cut_labels_simps(3) [OF ec False] show ?thesis by simp
    qed
    then show "?l d = Some (c', p @ nd_edge (node ?y d))" "nd_edge (node ?y d) \<noteq> []"
      "hd (nd_edge (node ?y d)) = t" "nd_parent (node ?y d) = m" by simp_all
  qed
  assume p: "p \<noteq> []"
  obtain q' where q': "nd_edge (node x m) \<noteq> []" "nd_first (node x m) = hd (nd_edge (node x m))"
    "p = q' @ nd_edge (node x m)" "lab (nd_parent (node x m)) = Some (c', q')"
    "child x (nd_parent (node x m)) (hd (nd_edge (node x m))) = Some m"
    "length q' mod index_bs x + length (nd_edge (node x m)) \<le> index_bs x"
    by (rule parentE [OF wf m(3) p])
  then show "nd_edge (node ?y m) \<noteq> []" "nd_first (node ?y m) = hd (nd_edge (node ?y m))"
    using km by simp_all
  show "\<exists>q'. p = q' @ nd_edge (node ?y m) \<and> ?l (nd_parent (node ?y m)) = Some (c', q') \<and>
      child ?y (nd_parent (node ?y m)) (hd (nd_edge (node ?y m))) = Some m \<and>
      length q' mod index_bs ?y + length (nd_edge (node ?y m)) \<le> index_bs ?y"
  proof (cases "\<exists>t. child x c t = Some m")
    case True
    then obtain t where t: "child x c t = Some m" by blast
    note g = grandchild [OF ec t]
    have "nd_parent (node ?y m) = node_count x" using True km by simp
    moreover have "c' = ctx" "q' = q @ nd_edge (node x c)" using g(1) m(3) q'(3) by auto
    ultimately show ?thesis
      using q' g t km by (intro exI [of _ q']) (simp add: view(1,5) cut_labels_simps(2) [OF ec])
  next
    case False
    have j: "nd_parent (node x m) \<noteq> c" using q'(5) False by auto
    have jN: "nd_parent (node x m) < node_count x" by (rule labelledD(3) [OF wf q'(4)])
    have "nd_parent (node ?y m) = nd_parent (node x m)" using False km by simp
    then show ?thesis
      using q' km cut_labels_simps(3) [OF ec j] jN
      by (intro exI [of _ q']) (simp add: view(1) edge_cut_keep(2) [OF ec jN j])
  qed
qed

lemma labelled_split_edge:
  assumes ec: "edge_cut x lab c l ctx q"
  shows "labelled (split_edge c l x) (cut_labels x lab c l ctx q)" (is "labelled ?y ?l")
proof (rule labelledI)
  note wf = edge_cutD(1) [OF ec] and c = edge_cutD(3,6) [OF ec] and view = edge_cut_view [OF ec]
  show "0 < index_bs ?y" using labelledD(1) [OF wf] view(1) by simp
  show "node_count ?y \<le> invalid_node" using edge_cutD(2) [OF ec] view(3) by simp
  show "m < node_count ?y" if "?l m = Some v" for m v
  proof (cases v)
    case (Pair c' p)
    from ec that [unfolded Pair] show ?thesis
      by (cases rule: cut_labels_cases) (use c view(3) in simp_all)
  qed
  show "m = n" if "?l m = Some v" "?l n = Some v" for m n v by (rule cut_labels_inject [OF ec that])
  show "map_of (px_roots ?y) c' = Some m \<longleftrightarrow> ?l m = Some (c', [])" for c' m
  proof
    assume "map_of (px_roots ?y) c' = Some m"
    then have m: "lab m = Some (c', [])" using rootD [OF wf] view(2) by simp
    then have "m \<noteq> c" "m \<noteq> node_count x" using c cut_edge_parts [OF edge_cutD(4,5) [OF ec]]
      labelledD(3) [OF wf m] by auto
    then show "?l m = Some (c', [])" using m cut_labels_simps(3) [OF ec] by simp
  next
    assume "?l m = Some (c', [])"
    with ec show "map_of (px_roots ?y) c' = Some m"
      by (cases rule: cut_labels_cases)
        (use cut_edge_parts [OF edge_cutD(4,5) [OF ec]] rootD [OF wf] view(2) in auto)
  qed
  show "?l m \<noteq> None \<and> nd_terminal (node ?y m) = Some b" if b: "map_of (px_block_node ?y) b = Some m" for b m
  proof (cases "nd_terminal (node x c) = Some b")
    case True
    then have "m = node_count x" using b view(4) by simp
    then show ?thesis using True view(5) cut_labels_simps(2) [OF ec] by simp
  next
    case False
    then have "map_of (px_block_node x) b = Some m" using b view(4) by (auto split: option.splits if_splits)
    note t = block_table [OF wf this]
    then have "m \<noteq> c" using False by auto
    with t show ?thesis using edge_cut_keep(3) [OF ec t(2)] cut_labels_simps(3) [OF ec] by simp
  qed
  show "node_ok ?y ?l m c' p" if "?l m = Some (c', p)" for m c' p
    using ec that
    by (cases rule: cut_labels_cases)
      (use node_ok_cut_new [OF ec] node_ok_cut_mid [OF ec] node_ok_cut_old [OF ec] in simp_all)
qed

lemma block_at_split_edge:
  assumes ec: "edge_cut x lab c l ctx q"
  shows "block_at (split_edge c l x) c' p = block_at x c' p"
proof (rule block_at_same [OF edge_cutD(1) [OF ec] labelled_split_edge [OF ec]])
  note wf = edge_cutD(1) [OF ec] and c = edge_cutD(3) [OF ec] and view = edge_cut_view [OF ec]
  show "\<exists>k. cut_labels x lab c l ctx q k = Some (c', p) \<and>
      nd_terminal (node (split_edge c l x) k) = nd_terminal (node x m)" if m: "lab m = Some (c', p)" for m
  proof (cases "m = c")
    case True
    then show ?thesis
      using m c view(5) cut_labels_simps(2) [OF ec] by (intro exI [of _ "node_count x"]) simp
  next
    case False
    then show ?thesis
      using m edge_cut_keep(3) [OF ec labelledD(3) [OF wf m] False] labelledD(3) [OF wf m]
        cut_labels_simps(3) [OF ec False] by (intro exI [of _ m]) simp
  qed
  show "nd_terminal (node (split_edge c l x) k) = None \<or> (\<exists>m. lab m = Some (c', p))"
    if "cut_labels x lab c l ctx q k = Some (c', p)" for k
    using ec that by (cases rule: cut_labels_cases) (use view(6) c in auto)
qed

end
