(* ===== verification/Prefix_Insert.thy ===== *)
theory Prefix_Insert
  imports Prefix_Split
begin

text \<open>
  Insertion refines the abstract map from (context, token prefix) to block: on a well-formed index
  with room for the new nodes the loops return, and each block lands at its prefix unless a block
  is there already.
\<close>

section \<open>The abstract map\<close>

type_synonym prefix_map = "context_hash \<Rightarrow> token_id list \<Rightarrow> block_id option"

definition put_absent :: "context_hash \<Rightarrow> token_id list \<Rightarrow> block_id \<Rightarrow> prefix_map \<Rightarrow> prefix_map" where
  "put_absent ctx p b m = (if m ctx p = None then m(ctx := (m ctx)(p \<mapsto> b)) else m)"

fun put_blocks ::
  "nat \<Rightarrow> context_hash \<Rightarrow> token_id list \<Rightarrow> nat \<Rightarrow> block_id list \<Rightarrow> prefix_map \<Rightarrow> prefix_map" where
  "put_blocks bs ctx toks k [] m = m"
| "put_blocks bs ctx toks k (b # blocks) m =
     put_blocks bs ctx toks (Suc k) blocks (put_absent ctx (take (Suc k * bs) toks) b m)"

lemma put_absent_apply:
  "put_absent ctx p b m c q = (if c = ctx \<and> q = p \<and> m ctx p = None then Some b else m c q)"
  by (simp add: put_absent_def)

lemma put_blocks_apply:
  assumes "0 < bs" "(k + length blocks) * bs \<le> length toks"
  shows "put_blocks bs ctx toks k blocks m c q =
    (if c = ctx \<and> m c q = None \<and> (\<exists>i < length blocks. q = take (Suc (k + i) * bs) toks)
     then Some (blocks ! (length q div bs - Suc k)) else m c q)"
  using assms(2)
proof (induction blocks arbitrary: k m)
  case (Cons b blocks)
  let ?m = "put_absent ctx (take (Suc k * bs) toks) b m"
  have len: "Suc (k + i) * bs \<le> length toks" if "i \<le> length blocks" for i
    by (rule le_trans [OF mult_le_mono1 Cons.prems]) (use that in simp)
  have IH: "put_blocks bs ctx toks k (b # blocks) m c q =
    (if c = ctx \<and> ?m c q = None \<and> (\<exists>i < length blocks. q = take (Suc (Suc k + i) * bs) toks)
     then Some (blocks ! (length q div bs - Suc (Suc k))) else ?m c q)"
    using Cons.IH [of "Suc k" ?m] Cons.prems by simp
  show ?case
  proof (cases "q = take (Suc k * bs) toks")
    case True
    have L: "length q div bs = Suc k" using len [of 0] True assms(1) by simp
    have "\<not> (\<exists>i < length blocks. q = take (Suc (Suc k + i) * bs) toks)"
    proof
      assume "\<exists>i < length blocks. q = take (Suc (Suc k + i) * bs) toks"
      then obtain i where i: "i < length blocks" "q = take (Suc (Suc k + i) * bs) toks" by blast
      have "length q = Suc (k + Suc i) * bs" using i len [of "Suc i"] by simp
      then have "length q div bs = Suc (k + Suc i)" using assms(1) by (metis div_mult_self_is_m)
      with L show False by simp
    qed
    then have "put_blocks bs ctx toks k (b # blocks) m c q = ?m c q" by (simp only: IH simp_thms if_False)
    moreover have "\<exists>i < length (b # blocks). q = take (Suc (k + i) * bs) toks"
      using True by (intro exI [of _ 0]) simp
    ultimately show ?thesis using L True by (auto simp: put_absent_apply)
  next
    case False
    then have m: "?m c q = m c q" by (simp add: put_absent_apply)
    have ex: "(\<exists>i < length (b # blocks). q = take (Suc (k + i) * bs) toks) \<longleftrightarrow>
        (\<exists>i < length blocks. q = take (Suc (Suc k + i) * bs) toks)"
    proof
      assume "\<exists>i < length (b # blocks). q = take (Suc (k + i) * bs) toks"
      then obtain i where i: "i < length (b # blocks)" "q = take (Suc (k + i) * bs) toks" by blast
      with False have "i \<noteq> 0" by (intro notI) simp
      with i show "\<exists>i < length blocks. q = take (Suc (Suc k + i) * bs) toks"
        by (intro exI [of _ "i - 1"]) simp
    next
      assume "\<exists>i < length blocks. q = take (Suc (Suc k + i) * bs) toks"
      then obtain i where "i < length blocks" "q = take (Suc (Suc k + i) * bs) toks" by blast
      then show "\<exists>i < length (b # blocks). q = take (Suc (k + i) * bs) toks"
        by (intro exI [of _ "Suc i"]) simp
    qed
    have idx: "(b # blocks) ! (length q div bs - Suc k) = blocks ! (length q div bs - Suc (Suc k))"
      if i: "\<exists>i < length blocks. q = take (Suc (Suc k + i) * bs) toks"
    proof -
      from i obtain i where i: "i < length blocks" "q = take (Suc (Suc k + i) * bs) toks" by blast
      have "length q = Suc (k + Suc i) * bs" using i len [of "Suc i"] by simp
      then have "length q div bs = Suc (k + Suc i)" using assms(1) by (metis div_mult_self_is_m)
      then show ?thesis by simp
    qed
    show ?thesis unfolding IH m ex by (intro if_cong) (simp_all only: idx)
  qed
qed simp

section \<open>Comparing the segment with an edge\<close>

lemma lcp_loop_spec:
  assumes "lcp \<le> mm"
  shows "lcp \<le> lcp_loop toks pos edge mm lcp" "lcp_loop toks pos edge mm lcp \<le> mm"
    "lcp \<le> i \<Longrightarrow> i < lcp_loop toks pos edge mm lcp \<Longrightarrow> toks ! (pos + i) = edge ! i"
    "lcp_loop toks pos edge mm lcp < mm \<Longrightarrow>
       toks ! (pos + lcp_loop toks pos edge mm lcp) \<noteq> edge ! lcp_loop toks pos edge mm lcp"
proof -
  have "lcp \<le> lcp_loop toks pos edge mm lcp \<and> lcp_loop toks pos edge mm lcp \<le> mm \<and>
    (\<forall>i. lcp \<le> i \<and> i < lcp_loop toks pos edge mm lcp \<longrightarrow> toks ! (pos + i) = edge ! i) \<and>
    (lcp_loop toks pos edge mm lcp < mm \<longrightarrow>
       toks ! (pos + lcp_loop toks pos edge mm lcp) \<noteq> edge ! lcp_loop toks pos edge mm lcp)"
    using assms
  proof (induction toks pos edge mm lcp rule: lcp_loop.induct)
    case (1 toks pos edge mm lcp)
    show ?case
    proof (cases "lcp < mm \<and> toks ! (pos + lcp) = edge ! lcp")
      case True
      have "toks ! (pos + i) = edge ! i" if "lcp \<le> i" "i < lcp_loop toks pos edge mm (Suc lcp)" for i
        using 1(1) [OF True] True that by (cases "i = lcp") auto
      with True 1(1) [OF True] show ?thesis by (subst (1 2 3 4 5 6) lcp_loop.simps) auto
    next
      case False
      then have "lcp_loop toks pos edge mm lcp = lcp" by (auto simp: lcp_loop.simps)
      with False 1(2) show ?thesis by auto
    qed
  qed
  then show "lcp \<le> lcp_loop toks pos edge mm lcp" "lcp_loop toks pos edge mm lcp \<le> mm"
    "lcp \<le> i \<Longrightarrow> i < lcp_loop toks pos edge mm lcp \<Longrightarrow> toks ! (pos + i) = edge ! i"
    "lcp_loop toks pos edge mm lcp < mm \<Longrightarrow>
       toks ! (pos + lcp_loop toks pos edge mm lcp) \<noteq> edge ! lcp_loop toks pos edge mm lcp"
    by auto
qed

lemma take_lcp:
  assumes "l = lcp_loop toks pos edge mm 0" "mm \<le> length edge" "pos + mm \<le> length toks"
  shows "take pos toks @ take l edge = take (pos + l) toks"
proof -
  note s = lcp_loop_spec [where lcp = 0 and mm = mm and toks = toks and pos = pos and edge = edge, folded assms(1)]
  have "take l (drop pos toks) = take l edge"
    by (rule nth_equalityI) (use s assms(2,3) in auto)
  then show ?thesis by (simp add: take_add)
qed

lemma take_at:
  assumes "pos < e" "e \<le> length toks"
  shows "take e toks = take pos toks @ toks ! pos # take (e - Suc pos) (drop (Suc pos) toks)"
proof -
  have "take e toks = take (pos + (e - pos)) toks" using assms(1) by simp
  also have "\<dots> = take pos toks @ take (Suc (e - Suc pos)) (drop pos toks)"
    unfolding take_add using assms(1) by (simp add: Suc_diff_Suc)
  also have "drop pos toks = toks ! pos # drop (Suc pos) toks"
    using assms by (simp add: Cons_nth_drop_Suc)
  finally show ?thesis by simp
qed

lemma mod_in_block:
  fixes pos :: nat
  assumes "k * bs \<le> pos" "pos < Suc k * bs"
  shows "pos mod bs = pos - k * bs"
proof -
  from assms(1) obtain r where "pos = k * bs + r" by (auto dest: le_Suc_ex)
  with assms(2) show ?thesis by simp
qed

section \<open>One block segment\<close>

text \<open>What one segment does: the block is put at the segment's end unless one is there, at most two
  nodes are added, and the walk ends at the segment's node.\<close>

definition segment_done ::
  "prefix_index \<Rightarrow> context_hash \<Rightarrow> token_id list \<Rightarrow> block_id \<Rightarrow> nat \<Rightarrow> prefix_index \<Rightarrow> nat \<Rightarrow> bool" where
  "segment_done x ctx toks b e y m \<longleftrightarrow>
     (\<exists>lab. labelled y lab \<and> lab m = Some (ctx, take e toks)) \<and>
     index_bs y = index_bs x \<and> node_count y \<le> node_count x + 2 \<and>
     block_at y = put_absent ctx (take e toks) b (block_at x)"

lemma segment_doneI:
  assumes "labelled y lab" "lab m = Some (ctx, take e toks)" "index_bs y = index_bs x"
    "node_count y \<le> node_count x + 2"
    and "\<And>c q. block_at y c q = put_absent ctx (take e toks) b (block_at x) c q"
  shows "segment_done x ctx toks b e y m"
  using assms unfolding segment_done_def by blast

lemma leaf_segment:
  assumes wf: "labelled x lab" and n: "lab n = Some (ctx, take pos toks)"
    and none: "child x n (toks ! pos) = None" and room: "node_count x < invalid_node"
    and range: "k * index_bs x \<le> pos" "pos < Suc k * index_bs x" "Suc k * index_bs x \<le> length toks"
    and fresh: "map_of (px_block_node x) b = None"
  obtains y where "create_leaf toks b (Suc k * index_bs x) n pos x = (node_count x, y)"
    "segment_done x ctx toks b (Suc k * index_bs x) y (node_count x)" "node_count y = Suc (node_count x)"
proof -
  let ?e = "Suc k * index_bs x"
  obtain i y where run: "create_leaf toks b ?e n pos x = (i, y)" by fastforce
  note view = create_leaf_view [OF room labelledD(3) [OF wf n] run]
  have mod: "pos mod index_bs x = pos - k * index_bs x"
    by (rule mod_in_block [OF range(1,2)])
  have fits: "length (take pos toks) mod index_bs x + (?e - pos) = index_bs x"
    using range mod by simp
  have path: "take pos toks @ take (?e - pos) (drop pos toks) = take ?e toks"
    using range by (simp add: take_add [symmetric] del: mult_Suc)
  note wfy = labelled_create_leaf [OF wf n none room range(2,3) fits fresh run, unfolded path]
  note at = block_at_create_leaf [OF wf n none room range(2,3) fits fresh run, unfolded path]
  have "take ?e toks = take pos toks @ toks ! pos # tl (take (?e - pos) (drop pos toks))"
    using range by (subst path [symmetric]) (simp add: Cons_nth_drop_Suc [symmetric, of pos toks] take_Cons' del: mult_Suc)
  then have old: "block_at x ctx (take ?e toks) = None"
    using block_at_unlabelled [OF wf] no_child_no_path [OF wf n none] by metis
  have "segment_done x ctx toks b ?e y (node_count x)"
    by (rule segment_doneI [OF wfy]) (simp_all add: view(2,4) at put_absent_apply old del: mult_Suc)
  with run view(1,4) that show thesis by blast
qed

text \<open>The descent through whole edges, and the leaf or the terminal block that ends it.\<close>

lemma insert_segment_refines:
  assumes "labelled x lab" "lab n = Some (ctx, take pos toks)"
    and room: "node_count x + 2 \<le> invalid_node"
    and range: "k * index_bs x \<le> pos" "pos < Suc k * index_bs x" "Suc k * index_bs x \<le> length toks"
    and fresh: "block_at x ctx (take (Suc k * index_bs x) toks) = None \<Longrightarrow> map_of (px_block_node x) b = None"
  shows "\<exists>y m. insert_segment toks b (Suc k * index_bs x) x n pos = Some (y, m, Suc k * index_bs x) \<and>
    segment_done x ctx toks b (Suc k * index_bs x) y m"
  using assms(2) range(1,2)
proof (induction "Suc k * index_bs x - pos" arbitrary: n pos rule: less_induct)
  case less
  note wf = assms(1) and n = less.prems(1)
  let ?e = "Suc k * index_bs x"
  have start: "\<not> ?e \<le> pos" "\<not> length toks < ?e" using less.prems range(3) by simp_all
  have at: "node_at x n = Some (node x n)" using labelledD(3) [OF wf n] by (simp add: node_at_def)
  have mod: "pos mod index_bs x = pos - k * index_bs x"
    by (rule mod_in_block [OF less.prems(2,3)])
  show ?case
  proof (cases "child x n (toks ! pos)")
    case None
    have "block_at x ctx (take ?e toks) = None"
    proof (rule block_at_unlabelled [OF wf])
      have "take ?e toks = take pos toks @ toks ! pos # take (?e - Suc pos) (drop (Suc pos) toks)"
        by (rule take_at) (use start in simp_all)
      then show "lab m \<noteq> Some (ctx, take ?e toks)" for m using no_child_no_path [OF wf n None] by metis
    qed
    then have b: "map_of (px_block_node x) b = None" by (rule fresh)
    obtain y where y: "create_leaf toks b ?e n pos x = (node_count x, y)"
      "segment_done x ctx toks b ?e y (node_count x)"
      by (rule leaf_segment [OF wf n None _ less.prems(2,3) range(3) b]) (use room in simp)
    have "insert_segment toks b ?e x n pos = Some (y, node_count x, ?e)"
      using start at None y(1) by (subst insert_segment.simps) (simp del: mult_Suc)
    with y(2) show ?thesis by blast
  next
    case (Some c)
    note c = childD [OF wf n Some]
    let ?edge = "nd_edge (node x c)"
    define l where "l = lcp_loop toks pos ?edge (min (length ?edge) (?e - pos)) 0"
    have atc: "node_at x c = Some (node x c)" using c(5) by (simp add: node_at_def)
    have len: "length ?edge \<le> ?e - pos"
      using child_edge_fits [OF wf n Some] mod start range(3) less.prems by simp
    then have l: "l = lcp_loop toks pos ?edge (length ?edge) 0" by (simp add: l_def del: mult_Suc)
    note spec = lcp_loop_spec [where lcp = 0 and mm = "length ?edge" and toks = toks and pos = pos
        and edge = ?edge, folded l]
    have path: "take pos toks @ take l ?edge = take (pos + l) toks"
      by (rule take_lcp [OF l]) (use len start in auto)
    show ?thesis
    proof (cases "l = length ?edge")
      case whole: True
      then have lc: "lab c = Some (ctx, take (pos + l) toks)" using c(1) path by simp
      show ?thesis
      proof (cases "pos + l = ?e")
        case True
        have run: "insert_segment toks b ?e x n pos = Some (set_terminal_if_none c b x, c, ?e)"
          using start at Some atc l_def whole True by (subst insert_segment.simps) (simp add: Let_def del: mult_Suc)
        have old: "block_at x ctx (take ?e toks) = nd_terminal (node x c)"
          using block_at_label [OF wf lc] True by simp
        have "segment_done x ctx toks b ?e (set_terminal_if_none c b x) c"
        proof (cases "nd_terminal (node x c)")
          case None
          then have eq: "set_terminal_if_none c b x = with_terminal c b x"
            by (simp add: set_terminal_if_none_def with_terminal_def)
          have q: "take ?e toks \<noteq> []" "length (take ?e toks) mod index_bs x = 0"
            using start labelledD(1) [OF wf] by (auto simp del: mult_Suc)
          have f: "map_of (px_block_node x) b = None" using fresh old None by simp
          note hyp = wf lc [unfolded True] q None f
          show ?thesis unfolding eq
            by (rule segment_doneI [OF labelled_with_terminal [OF hyp] lc [unfolded True]])
              (simp_all add: with_terminal_view(1,3) block_at_with_terminal [OF hyp] put_absent_apply old None del: mult_Suc)
        next
          case (Some b')
          then have eq: "set_terminal_if_none c b x = x" by (simp add: set_terminal_if_none_def)
          show ?thesis unfolding eq
            by (rule segment_doneI [OF wf lc [unfolded True]]) (simp_all add: put_absent_apply old Some del: mult_Suc)
        qed
        with run show ?thesis by blast
      next
        case False
        then have lt: "pos + l < ?e" using len whole start by simp
        have "0 < l" using c(2) whole by simp
        then have "?e - (pos + l) < ?e - pos" using lt by simp
        from less.hyps [OF this lc _ lt] less.prems(2)
        obtain y m where "insert_segment toks b ?e x c (pos + l) = Some (y, m, ?e)"
          "segment_done x ctx toks b ?e y m" by auto
        moreover have "insert_segment toks b ?e x n pos = insert_segment toks b ?e x c (pos + l)"
          using start at Some atc l_def whole False by (subst insert_segment.simps) (simp add: Let_def del: mult_Suc)
        ultimately show ?thesis by auto
      qed
    next
      case False
      then have partial: "l < length ?edge" using spec(2) by simp
      have "0 < l"
      proof (rule ccontr)
        assume "\<not> 0 < l"
        then have "toks ! pos \<noteq> ?edge ! 0" using spec(4) partial by simp
        then show False using c(2,3) by (simp add: hd_conv_nth)
      qed
      then have ec: "edge_cut x lab c l ctx (take pos toks)"
        using wf room c(1) partial by (simp add: edge_cut_def)
      note cut = edge_cut_view [OF ec]
      let ?x = "split_edge c l x" and ?lab = "cut_labels x lab c l ctx (take pos toks)"
      have lc: "?lab c = Some (ctx, take (pos + l) toks)" using cut_labels_simps(1) [OF ec] path by simp
      have none: "child ?x c (toks ! (pos + l)) = None"
        using spec(4) partial cut(6) by (simp add: hd_drop_conv_nth)
      have lt: "pos + l < ?e" using partial len by simp
      have "block_at x ctx (take ?e toks) = None"
      proof -
        have "take ?e toks = take (pos + l) toks @ toks ! (pos + l) #
            take (?e - Suc (pos + l)) (drop (Suc (pos + l)) toks)"
          by (rule take_at) (use lt range(3) in simp_all)
        then have "block_at ?x ctx (take ?e toks) = None"
          using block_at_unlabelled [OF labelled_split_edge [OF ec]]
            no_child_no_path [OF labelled_split_edge [OF ec] lc none] by metis
        then show ?thesis by (simp add: block_at_split_edge [OF ec])
      qed
      then have b: "map_of (px_block_node x) b = None" by (rule fresh)
      have "nd_terminal (node x c) \<noteq> Some b" using b terminalD(2) [OF wf c(1)] by auto
      then have b': "map_of (px_block_node ?x) b = None" using b cut(4) by (auto split: option.splits)
      obtain y where y: "create_leaf toks b (Suc k * index_bs ?x) c (pos + l) ?x = (node_count ?x, y)"
        "segment_done ?x ctx toks b (Suc k * index_bs ?x) y (node_count ?x)"
        "node_count y = Suc (node_count ?x)"
        by (rule leaf_segment [OF labelled_split_edge [OF ec] lc none _ _ _ _ b', where k = k])
          (use room less.prems range(3) lt in \<open>simp_all add: cut(1,3) del: mult_Suc\<close>)
      have atc': "node_at ?x c = Some (node ?x c)" using c(5) cut(3) by (simp add: node_at_def)
      have "insert_segment toks b ?e ?x c (pos + l) = Some (y, node_count ?x, ?e)"
        using lt start atc' none y(1) cut(1)
        by (subst insert_segment.simps) (simp del: mult_Suc)
      moreover have gs: "list_all (\<lambda>(tok, g). g < node_count x) (nd_children (node x c))"
        using grandchild(5) [OF ec] child_keys [OF wf c(1)] by (fastforce simp: list_all_iff)
      moreover have "insert_segment toks b ?e x n pos = insert_segment toks b ?e ?x c (pos + l)"
        using start at Some atc l_def False gs
        by (subst insert_segment.simps) (simp add: Let_def del: mult_Suc)
      moreover have "segment_done x ctx toks b ?e y (node_count ?x)"
        using y(2,3) cut(1,3) block_at_split_edge [OF ec]
        by (simp add: segment_done_def fun_eq_iff put_absent_apply del: mult_Suc)
      ultimately show ?thesis by auto
    qed
  qed
qed

end
