(* ===== verification/Prefix_Refine.thy ===== *)
theory Prefix_Refine
  imports Prefix_Insert
begin

text \<open>
  The index as an abstract map: insertion, lookup and removal return on every well-formed index and
  act on \<^const>\<open>block_at\<close> as the map operations do.
\<close>

section \<open>Insertion\<close>

text \<open>The blocks of an insertion that will be indexed must not be indexed elsewhere.\<close>

definition new_blocks_fresh ::
  "prefix_index \<Rightarrow> context_hash \<Rightarrow> token_id list \<Rightarrow> nat \<Rightarrow> block_id list \<Rightarrow> bool" where
  "new_blocks_fresh x ctx toks k blocks \<longleftrightarrow> (\<forall>i < length blocks.
     block_at x ctx (take (Suc (k + i) * index_bs x) toks) = None \<longrightarrow>
     map_of (px_block_node x) (blocks ! i) = None)"

lemma insert_loop_refines:
  assumes "labelled x lab" "lab n = Some (ctx, take (k * index_bs x) toks)"
    and "node_count x + 2 * length blocks \<le> invalid_node"
    and "(k + length blocks) * index_bs x \<le> length toks"
    and "distinct blocks" "new_blocks_fresh x ctx toks k blocks"
  shows "\<exists>y. insert_loop toks blocks k x n (k * index_bs x) = Some y \<and> index_wf y \<and>
    index_bs y = index_bs x \<and> node_count y \<le> node_count x + 2 * length blocks \<and>
    block_at y = put_blocks (index_bs x) ctx toks k blocks (block_at x)"
  using assms
proof (induction blocks arbitrary: k x n lab)
  case Nil
  then show ?case by (auto simp: index_wf_def)
next
  case (Cons b blocks)
  let ?bs = "index_bs x"
  note wf = Cons.prems(1)
  have bs: "0 < ?bs" by (rule labelledD(1) [OF wf])
  have len: "Suc (k + i) * ?bs \<le> length toks" if "i \<le> length blocks" for i
    by (rule le_trans [OF mult_le_mono1 Cons.prems(4)]) (use that in simp)
  have room: "node_count x + 2 \<le> invalid_node" using Cons.prems(3) by simp
  have fresh: "map_of (px_block_node x) b = None" if "block_at x ctx (take (Suc k * ?bs) toks) = None"
    using Cons.prems(6) that unfolding new_blocks_fresh_def by fastforce
  obtain x1 m where seg: "insert_segment toks b (Suc k * ?bs) x n (k * ?bs) = Some (x1, m, Suc k * ?bs)"
    and fin: "segment_done x ctx toks b (Suc k * ?bs) x1 m"
    using insert_segment_refines [OF wf Cons.prems(2) room, of k b] fresh bs len [of 0] by auto
  from fin obtain lab1 where x1: "labelled x1 lab1" "lab1 m = Some (ctx, take (Suc k * ?bs) toks)"
    "index_bs x1 = ?bs" "node_count x1 \<le> node_count x + 2"
    "block_at x1 = put_absent ctx (take (Suc k * ?bs) toks) b (block_at x)"
    unfolding segment_done_def by blast
  have "new_blocks_fresh x1 ctx toks (Suc k) blocks"
    unfolding new_blocks_fresh_def
  proof (intro allI impI)
    fix i assume i: "i < length blocks"
      and none: "block_at x1 ctx (take (Suc (Suc k + i) * index_bs x1) toks) = None"
    let ?q = "take (Suc (k + Suc i) * ?bs) toks"
    have "block_at x ctx ?q = None" using none x1(3,5) by (simp add: put_absent_apply split: if_splits)
    then have "map_of (px_block_node x) (blocks ! i) = None"
      using Cons.prems(6) i unfolding new_blocks_fresh_def by fastforce
    then have "block_at x c p \<noteq> Some (blocks ! i)" for c p using block_node_dom [OF wf] by blast
    moreover have "blocks ! i \<noteq> b" using Cons.prems(5) i by auto
    ultimately have "block_at x1 c p \<noteq> Some (blocks ! i)" for c p
      by (auto simp: x1(5) put_absent_apply)
    then show "map_of (px_block_node x1) (blocks ! i) = None" using block_node_dom [OF x1(1)] by blast
  qed
  then obtain y where y: "insert_loop toks blocks (Suc k) x1 m (Suc k * ?bs) = Some y" "index_wf y"
    "index_bs y = ?bs" "node_count y \<le> node_count x1 + 2 * length blocks"
    "block_at y = put_blocks ?bs ctx toks (Suc k) blocks (block_at x1)"
    using Cons.IH [OF x1(1), of m "Suc k"] x1 Cons.prems(3,4,5) by auto
  then show ?case using seg x1(4,5) by (auto simp del: mult_Suc)
qed

text \<open>What an insertion needs: room for two nodes per block and a root, a token for every slot of
  the blocks, and blocks that are new where they are added.\<close>

definition insertable :: "prefix_index \<Rightarrow> context_hash \<Rightarrow> token_id list \<Rightarrow> block_id list \<Rightarrow> bool" where
  "insertable x ctx toks blocks \<longleftrightarrow>
     node_count x + 2 * length blocks < invalid_node \<and>
     length blocks * index_bs x \<le> length toks \<and> distinct blocks \<and>
     list_all (\<lambda>i. block_at x ctx (take (Suc i * index_bs x) toks) = None \<longrightarrow>
       map_of (px_block_node x) (blocks ! i) = None) [0..<length blocks]"

lemma index_insert_refines:
  assumes "index_wf x" "insertable x ctx toks blocks"
  shows "\<exists>y. index_insert ctx toks blocks x = Some y \<and> index_wf y \<and> index_bs y = index_bs x \<and>
    node_count y \<le> node_count x + 2 * length blocks + 1 \<and>
    block_at y = put_blocks (index_bs x) ctx toks 0 blocks (block_at x)"
proof (cases "blocks = []")
  case True
  then show ?thesis using assms(1) by (simp add: index_insert_def)
next
  case False
  from assms(1) obtain lab where wf: "labelled x lab" by (auto simp: index_wf_def)
  note ins = assms(2) [unfolded insertable_def]
  have room: "node_count x < invalid_node" using ins by simp
  have fresh: "new_blocks_fresh x ctx toks 0 blocks"
    using ins unfolding new_blocks_fresh_def list_all_iff by (simp del: mult_Suc)
  show ?thesis
  proof (cases "map_of (px_roots x) ctx")
    case (Some r)
    then have "lab r = Some (ctx, take (0 * index_bs x) toks)" by (simp add: rootD [OF wf])
    from insert_loop_refines [OF wf this, of blocks] ins fresh
    show ?thesis using Some False room by (auto simp: index_insert_def get_or_create_root_eq)
  next
    case None
    let ?x = "add_root ctx x" and ?r = "node_count x"
    note wf1 = labelled_add_root [OF wf None room] and at = block_at_add_root [OF wf None room]
    have view: "index_bs ?x = index_bs x" "node_count ?x = Suc ?r" "px_block_node ?x = px_block_node x"
      by (simp_all add: add_root_def index_bs_def)
    have "(lab(?r \<mapsto> (ctx, []))) ?r = Some (ctx, take (0 * index_bs ?x) toks)" by simp
    moreover have "new_blocks_fresh ?x ctx toks 0 blocks"
      using fresh by (simp add: new_blocks_fresh_def view at del: mult_Suc)
    ultimately obtain y where y: "insert_loop toks blocks 0 ?x ?r 0 = Some y" "index_wf y"
      "index_bs y = index_bs x" "node_count y \<le> node_count ?x + 2 * length blocks"
      "block_at y = put_blocks (index_bs x) ctx toks 0 blocks (block_at ?x)"
      using insert_loop_refines [OF wf1, of ?r ctx 0 toks blocks] ins view by auto
    have "block_at ?x = block_at x" by (intro ext) (rule at)
    with y have "insert_loop toks blocks 0 ?x ?r 0 = Some y"
      "block_at y = put_blocks (index_bs x) ctx toks 0 blocks (block_at x)" by simp_all
    with y(2-4) view(2) None False room show ?thesis
      by (auto simp: index_insert_def get_or_create_root_eq)
  qed
qed

section \<open>Lookup\<close>

definition prefix_blocks :: "nat \<Rightarrow> prefix_map \<Rightarrow> context_hash \<Rightarrow> token_id list \<Rightarrow> nat \<Rightarrow> block_id list" where
  "prefix_blocks bs m ctx toks k = map the (takeWhile (\<lambda>b. b \<noteq> None)
     (map (\<lambda>i. m ctx (take (Suc i * bs) toks)) [k..<length toks div bs]))"

lemma prefix_blocks_stop:
  "length toks div bs \<le> k \<or> m ctx (take (Suc k * bs) toks) = None \<Longrightarrow> prefix_blocks bs m ctx toks k = []"
  by (cases "k < length toks div bs") (auto simp: prefix_blocks_def upt_conv_Cons simp del: mult_Suc)

lemma prefix_blocks_step:
  "k < length toks div bs \<Longrightarrow> m ctx (take (Suc k * bs) toks) = Some b \<Longrightarrow>
   prefix_blocks bs m ctx toks k = b # prefix_blocks bs m ctx toks (Suc k)"
  by (simp add: prefix_blocks_def upt_conv_Cons del: mult_Suc)

lemma edge_match:
  assumes "length e \<le> length toks - pos" "pos \<le> length toks"
  shows "edge_mismatch toks pos e \<longleftrightarrow> take (length e) (drop pos toks) \<noteq> e"
proof -
  have "take (length e) (drop pos toks) = e \<longleftrightarrow> (\<forall>i < length e. toks ! (pos + i) = e ! i)"
    using assms by (subst list_eq_iff_nth_eq) auto
  then show ?thesis by (auto simp: edge_mismatch_def list_ex_iff)
qed

lemma no_next_block:
  assumes wf: "labelled x lab" and n: "lab n = Some (ctx, take pos toks)" and pos: "pos < length toks"
    and no: "\<And>c. child x n (toks ! pos) = Some c \<Longrightarrow>
      take (length (nd_edge (node x c))) (drop pos toks) \<noteq> nd_edge (node x c)"
  shows "prefix_blocks (index_bs x) (block_at x) ctx toks (pos div index_bs x) = []"
proof (rule prefix_blocks_stop, rule disjCI)
  let ?e = "Suc (pos div index_bs x) * index_bs x"
  assume "block_at x ctx (take ?e toks) \<noteq> None"
  then obtain b where "block_at x ctx (take ?e toks) = Some b" unfolding not_None_eq by (rule exE)
  from this [unfolded block_at_iff [OF wf]] obtain m where m: "lab m = Some (ctx, take ?e toks)" by (elim exE conjE)
  have lt: "pos < ?e"
    unfolding mult_Suc by (rule dividend_less_div_times [OF labelledD(1) [OF wf]])
  show "length toks div index_bs x \<le> pos div index_bs x"
  proof (rule ccontr)
    assume "\<not> length toks div index_bs x \<le> pos div index_bs x"
    then have "Suc (pos div index_bs x) \<le> length toks div index_bs x" by simp
    then have e: "?e \<le> length toks"
      by (meson le_trans mult_le_mono1 div_times_less_eq_dividend)
    let ?s = "take (?e - Suc pos) (drop (Suc pos) toks)"
    have "lab m = Some (ctx, take pos toks @ toks ! pos # ?s)" using m take_at [OF lt e] by simp
    from descent [OF wf n this] obtain c s' where c: "child x n (toks ! pos) = Some c"
      "toks ! pos # ?s = nd_edge (node x c) @ s'" by blast
    have "drop pos toks = (toks ! pos # ?s) @ drop ?e toks"
      using lt pos by (simp add: Cons_nth_drop_Suc [symmetric] del: mult_Suc)
        (metis Suc_leI append_take_drop_id drop_drop le_add_diff_inverse2)
    then have "take (length (nd_edge (node x c))) (drop pos toks) = nd_edge (node x c)"
      unfolding c(2) append_assoc by simp
    with no [OF c(1)] show False by simp
  qed
qed

lemma lookup_loop_refines:
  assumes "labelled x lab" "lab n = Some (ctx, take pos toks)" "pos \<le> length toks"
  shows "lookup_loop x toks n pos acc =
    Some (acc @ prefix_blocks (index_bs x) (block_at x) ctx toks (pos div index_bs x))"
  using assms(2,3)
proof (induction "length toks - pos" arbitrary: n pos acc rule: less_induct)
  case less
  note wf = assms(1) and n = less.prems(1)
  let ?bs = "index_bs x" and ?k = "pos div index_bs x"
  have bs: "0 < ?bs" by (rule labelledD(1) [OF wf])
  have at: "node_at x n = Some (node x n)" using labelledD(3) [OF wf n] by (simp add: node_at_def)
  show ?case
  proof (cases "pos < length toks")
    case False
    then have "prefix_blocks ?bs (block_at x) ctx toks ?k = []"
      using less.prems(2) by (intro prefix_blocks_stop) simp
    with False show ?thesis by (subst lookup_loop.simps) simp
  next
    case pos: True
    show ?thesis
    proof (cases "child x n (toks ! pos)")
      case None
      have "prefix_blocks ?bs (block_at x) ctx toks ?k = []"
        by (rule no_next_block [OF wf n pos]) (simp add: None)
      then show ?thesis using pos at None by (subst lookup_loop.simps) simp
    next
      case (Some c)
      note c = childD [OF wf n Some]
      let ?edge = "nd_edge (node x c)" and ?pos = "pos + length (nd_edge (node x c))"
      have atc: "node_at x c = Some (node x c)" using c(5) by (simp add: node_at_def)
      show ?thesis
      proof (cases "take (length ?edge) (drop pos toks) = ?edge")
        case False
        then have "prefix_blocks ?bs (block_at x) ctx toks ?k = []"
          using no_next_block [OF wf n pos] Some by simp
        moreover have "length toks - pos < length ?edge \<or> edge_mismatch toks pos ?edge"
          using False edge_match [of ?edge toks pos] pos by (cases "length ?edge \<le> length toks - pos") auto
        ultimately show ?thesis using pos at Some atc by (subst lookup_loop.simps) auto
      next
        case True
        then have len: "length ?edge \<le> length toks - pos" by (metis length_drop length_take min.cobounded1)
        then have mm: "\<not> edge_mismatch toks pos ?edge" using True edge_match [OF len] pos by simp
        have path: "take ?pos toks = take pos toks @ ?edge" using True by (simp add: take_add)
        then have lc: "lab c = Some (ctx, take ?pos toks)" using c(1) by simp
        have le: "?pos \<le> length toks" using len pos by simp
        have shorter: "length toks - ?pos < length toks - pos" using c(2) pos len by (cases ?edge) auto
        note IH = less.hyps [OF shorter lc le]
        have fits: "pos mod ?bs + length ?edge \<le> ?bs"
          using child_edge_fits [OF wf n Some] pos by simp
        have split: "?pos = ?k * ?bs + (pos mod ?bs + length ?edge)" by simp
        have eqn: "lookup_loop x toks n pos acc = (if ?pos mod ?bs = 0
            then (case nd_terminal (node x c) of Some b \<Rightarrow> lookup_loop x toks c ?pos (acc @ [b]) | None \<Rightarrow> Some acc)
            else lookup_loop x toks c ?pos acc)"
          using pos at Some atc len mm bs
          by (subst lookup_loop.simps) (simp split: option.splits)
        show ?thesis
        proof (cases "pos mod ?bs + length ?edge = ?bs")
          case True
          then have e: "?pos = Suc ?k * ?bs" using split by simp
          have "Suc ?k \<le> length toks div ?bs"
            using le e bs by (metis div_le_mono div_mult_self_is_m)
          then have k: "?k < length toks div ?bs" by simp
          have b: "block_at x ctx (take (Suc ?k * ?bs) toks) = nd_terminal (node x c)"
            using block_at_label [OF wf lc] e by simp
          have "?pos div ?bs = Suc ?k" "?pos mod ?bs = 0" using e bs by simp_all
          then show ?thesis
            using eqn IH b prefix_blocks_step [OF k] prefix_blocks_stop [of toks ?bs ?k "block_at x" ctx]
            by (cases "nd_terminal (node x c)") auto
        next
          case False
          then have small: "pos mod ?bs + length ?edge < ?bs" using fits by simp
          then have "?pos div ?bs = ?k" "?pos mod ?bs = pos mod ?bs + length ?edge"
            using split by (metis add.commute add.right_neutral div_less div_mult_self1 less_nat_zero_code,
              metis mod_less mod_mult_self3)
          moreover have "pos mod ?bs + length ?edge \<noteq> 0" using c(2) by simp
          ultimately show ?thesis using eqn IH by (metis (no_types, lifting))
        qed
      qed
    qed
  qed
qed

lemma index_lookup_refines:
  assumes "index_wf x"
  shows "index_lookup ctx toks x = Some
    (let blocks = prefix_blocks (index_bs x) (block_at x) ctx toks 0
     in \<lparr>il_blocks = blocks, il_matched_tokens = of_nat (length blocks * index_bs x)\<rparr>)"
proof -
  from assms obtain lab where wf: "labelled x lab" by (auto simp: index_wf_def)
  show ?thesis
  proof (cases "map_of (px_roots x) ctx")
    case None
    then have "block_at x ctx p = None" for p by (simp add: block_at_def)
    then have "prefix_blocks (index_bs x) (block_at x) ctx toks 0 = []"
      by (intro prefix_blocks_stop) simp
    with None show ?thesis by (simp add: index_lookup_def Let_def)
  next
    case (Some r)
    then have r: "lab r = Some (ctx, take 0 toks)" by (simp add: rootD [OF wf])
    have "prefix_blocks (index_bs x) (block_at x) ctx toks 0 = []" if "toks = []"
      using that by (simp add: prefix_blocks_def)
    then show ?thesis
      using lookup_loop_refines [OF wf r, of "[]"] Some by (auto simp: index_lookup_def Let_def)
  qed
qed

section \<open>Removal\<close>

definition drop_block :: "block_id \<Rightarrow> prefix_map \<Rightarrow> prefix_map" where
  "drop_block b m = (\<lambda>ctx p. if m ctx p = Some b then None else m ctx p)"

lemma prune_if_empty_refines:
  assumes "labelled x lab" "lab n = Some (ctx, p)"
  shows "\<exists>y. prune_if_empty x n = Some y \<and> index_wf y \<and> index_bs y = index_bs x \<and>
    node_count y = node_count x \<and> block_at y = block_at x"
  using assms
proof (induction "length p" arbitrary: x lab n p rule: less_induct)
  case less
  note wf = less.prems(1) and n = less.prems(2)
  have nN: "n < node_count x" by (rule labelledD(3) [OF wf n])
  then have at: "node_at x n = Some (node x n)" by (simp add: node_at_def)
  have valid: "m \<noteq> invalid_node" if "m < node_count x" for m using that labelledD(2) [OF wf] by simp
  show ?case
  proof (cases "nd_children (node x n) \<noteq> [] \<or> nd_terminal (node x n) \<noteq> None \<or> p = []")
    case True
    then have "prune_if_empty x n = Some x"
      using at nN root_node(1) [OF wf] n valid [OF nN] by (subst prune_if_empty.simps) auto
    then show ?thesis using wf by (auto simp: index_wf_def)
  next
    case False
    then have leaf: "nd_children (node x n) = []" "nd_terminal (node x n) = None" and p: "p \<noteq> []" by auto
    obtain q where q: "nd_edge (node x n) \<noteq> []" "p = q @ nd_edge (node x n)"
      "lab (nd_parent (node x n)) = Some (ctx, q)" by (rule parentE [OF wf n p])
    have kN: "nd_parent (node x n) < node_count x" by (rule labelledD(3) [OF wf q(3)])
    let ?y = "prune_step n x"
    have "nd_parent (node x n) \<noteq> n" using q n by auto
    then have k: "(lab(n := None)) (nd_parent (node x n)) = Some (ctx, q)" using q(3) by simp
    have "length q < length p" using q(1,2) by simp
    from less.hyps [OF this labelled_prune_step [OF wf n p leaf] k]
    obtain y where y: "prune_if_empty ?y (nd_parent (node x n)) = Some y" "index_wf y"
      "index_bs y = index_bs x" "node_count y = node_count x" "block_at y = block_at ?y"
      by (auto simp: prune_step_view [OF kN])
    have "prune_if_empty x n = prune_if_empty ?y (nd_parent (node x n))"
      using at leaf kN valid [OF nN] valid [OF kN]
      by (subst prune_if_empty.simps) (simp add: node_at_def prune_step_def)
    moreover have "block_at ?y = block_at x"
      by (intro ext) (rule block_at_prune_step [OF wf n p leaf])
    ultimately show ?thesis using y by auto
  qed
qed

lemma index_remove_refines:
  assumes "index_wf x"
  shows "\<exists>y. index_remove b x = Some y \<and> index_wf y \<and> index_bs y = index_bs x \<and>
    node_count y = node_count x \<and> block_at y = drop_block b (block_at x)"
proof -
  from assms obtain lab where wf: "labelled x lab" by (auto simp: index_wf_def)
  show ?thesis
  proof (cases "map_of (px_block_node x) b")
    case None
    then have "drop_block b (block_at x) = block_at x"
      using block_node_dom [OF wf, of b] by (auto simp: drop_block_def fun_eq_iff)
    with None assms show ?thesis by (simp add: index_remove_def)
  next
    case (Some n)
    note t = block_table [OF wf Some]
    then obtain ctx p where n: "lab n = Some (ctx, p)" by auto
    let ?x = "without_terminal n b x"
    obtain y where "prune_if_empty ?x n = Some y" "index_wf y" "index_bs y = index_bs x"
      "node_count y = node_count x" "block_at y = block_at ?x"
      using prune_if_empty_refines [OF labelled_without_terminal [OF wf Some] n]
      by (auto simp: without_terminal_view)
    moreover have "block_at ?x = drop_block b (block_at x)"
      by (intro ext) (simp add: block_at_without_terminal [OF wf Some] drop_block_def)
    moreover have "index_remove b x = prune_if_empty ?x n"
      using Some t(2) by (simp add: index_remove_def without_terminal_def)
    ultimately show ?thesis by auto
  qed
qed

end
