(* ===== verification/Prefix_Counts.thy ===== *)
theory Prefix_Counts
  imports Prefix_Refine
begin

text \<open>
  The two counts of the index return on a well-formed index and count the cached extensions of a
  block's path: those one block longer, and all of them. Neither depends on the order of the
  children.
\<close>

section \<open>The nodes below a node\<close>

text \<open>The nodes that satisfy \<open>Q\<close> and lie below \<open>n\<close>, at a distance in tokens that satisfies \<open>P\<close>.\<close>

definition below :: "prefix_index \<Rightarrow> (nat \<Rightarrow> label option) \<Rightarrow> (nat \<Rightarrow> bool) \<Rightarrow> nat \<Rightarrow> (nat \<Rightarrow> bool) \<Rightarrow> nat set" where
  "below x lab Q n P = {m. Q m \<and>
     (\<exists>ctx p s. lab n = Some (ctx, p) \<and> lab m = Some (ctx, p @ s) \<and> P (length s))}"

lemma below_iff:
  "lab n = Some (ctx, p) \<Longrightarrow> m \<in> below x lab Q n P \<longleftrightarrow>
     Q m \<and> (\<exists>s. lab m = Some (ctx, p @ s) \<and> P (length s))"
  by (auto simp: below_def)

lemma finite_below: "labelled x lab \<Longrightarrow> finite (below x lab Q n P)"
  by (rule finite_subset [of _ "{..<node_count x}"]) (auto simp: below_def dest: labelledD(3))

lemma below_children:
  assumes wf: "labelled x lab" and n: "lab n = Some (ctx, p)"
  shows "below x lab Q n P = (if Q n \<and> P 0 then {n} else {}) \<union>
    (\<Union>c \<in> snd ` set (nd_children (node x n)). below x lab Q c (\<lambda>d. P (d + length (nd_edge (node x c)))))"
    (is "?L = ?R")
proof (rule set_eqI)
  fix m
  have mem: "c \<in> snd ` set (nd_children (node x n)) \<longleftrightarrow> (\<exists>t. child x n t = Some c)" for c
    using child_keys [OF wf n] by force
  have "m \<in> ?R \<longleftrightarrow> (Q n \<and> P 0 \<and> m = n) \<or>
      (\<exists>c t. child x n t = Some c \<and> m \<in> below x lab Q c (\<lambda>d. P (d + length (nd_edge (node x c)))))"
    unfolding Un_iff UN_iff Bex_def mem by auto
  also have "\<dots> \<longleftrightarrow> m \<in> ?L"
  proof
    assume "(Q n \<and> P 0 \<and> m = n) \<or>
      (\<exists>c t. child x n t = Some c \<and> m \<in> below x lab Q c (\<lambda>d. P (d + length (nd_edge (node x c)))))"
    then show "m \<in> ?L"
    proof (elim disjE exE conjE)
      fix c t assume c: "child x n t = Some c"
        "m \<in> below x lab Q c (\<lambda>d. P (d + length (nd_edge (node x c))))"
      from c(2) childD(1) [OF wf n c(1)] show ?thesis
        by (auto simp: below_iff [where lab = lab and Q = Q and n = c and ctx = ctx and p = "p @ nd_edge (node x c)"] below_iff [where lab = lab and Q = Q and n = n, OF n]
          add.commute)
    qed (use n in \<open>auto simp: below_iff [where lab = lab and Q = Q and n = n, OF n]\<close>)
  next
    assume m: "m \<in> ?L"
    then obtain s where s: "lab m = Some (ctx, p @ s)" "P (length s)" "Q m"
      by (auto simp: below_iff [where lab = lab and Q = Q and n = n, OF n])
    show "(Q n \<and> P 0 \<and> m = n) \<or>
      (\<exists>c t. child x n t = Some c \<and> m \<in> below x lab Q c (\<lambda>d. P (d + length (nd_edge (node x c)))))"
    proof (cases s)
      case Nil
      then have "m = n" using s(1) n labelledD(4) [OF wf] by auto
      with s Nil show ?thesis by simp
    next
      case (Cons t u)
      from descent [OF wf n, of m t u] s(1) Cons obtain c s' where
        c: "child x n t = Some c" "s = nd_edge (node x c) @ s'" by auto
      note l = childD(1) [OF wf n c(1)]
      have "m \<in> below x lab Q c (\<lambda>d. P (d + length (nd_edge (node x c))))"
        using s c(2) by (auto simp: below_iff [where lab = lab and Q = Q and n = c, OF l] add.commute)
      with c(1) show ?thesis by blast
    qed
  qed
  finally show "m \<in> ?L \<longleftrightarrow> m \<in> ?R" by simp
qed

lemma card_below:
  assumes wf: "labelled x lab" and n: "lab n = Some (ctx, p)"
  shows "card (below x lab Q n P) = (if Q n \<and> P 0 then 1 else 0) +
    sum_list (map (\<lambda>(t, c). card (below x lab Q c (\<lambda>d. P (d + length (nd_edge (node x c))))))
      (nd_children (node x n)))"
proof -
  let ?cs = "nd_children (node x n)"
  let ?B = "\<lambda>c. below x lab Q c (\<lambda>d. P (d + length (nd_edge (node x c))))"
  have key: "child x n t = Some c" if "(t, c) \<in> set ?cs" for t c
    using that child_keys [OF wf n] by simp
  have sub: "Q m \<and> (\<exists>s'. lab m = Some (ctx, p @ t # s'))"
    if "(t, c) \<in> set ?cs" "m \<in> ?B c" for t c m
  proof -
    note c = childD [OF wf n key [OF that(1)]]
    then obtain e where "nd_edge (node x c) = t # e" by (cases "nd_edge (node x c)") auto
    with that(2) show ?thesis by (auto simp: below_iff [where lab = lab and Q = Q and n = c, OF c(1)])
  qed
  have "card (\<Union>c \<in> snd ` set ?cs. ?B c) = (\<Sum>(t, c) \<leftarrow> ?cs. card (?B c))"
    using key sub child_keys [OF wf n]
  proof -
    have "(\<Union>c \<in> snd ` set ?cs. ?B c) = (\<Union>q \<in> set ?cs. ?B (snd q))" by auto
    also have "card \<dots> = (\<Sum>q \<in> set ?cs. card (?B (snd q)))"
    proof (rule card_UN_disjoint)
      show "\<forall>q \<in> set ?cs. \<forall>r \<in> set ?cs. q \<noteq> r \<longrightarrow> ?B (snd q) \<inter> ?B (snd r) = {}"
      proof (intro ballI impI)
        fix q r assume q: "q \<in> set ?cs" and r: "r \<in> set ?cs" and "q \<noteq> r"
        obtain t c t' c' where qr: "q = (t, c)" "r = (t', c')" by (cases q; cases r)
        have "t \<noteq> t'" using \<open>q \<noteq> r\<close> eq_key_imp_eq_value [OF child_keys [OF wf n]] q r unfolding qr by blast
        have False if m: "m \<in> ?B c" "m \<in> ?B c'" for m
        proof -
          from sub [of t c m] sub [of t' c' m] m q r
          obtain u v where "lab m = Some (ctx, p @ t # u)" "lab m = Some (ctx, p @ t' # v)"
            unfolding qr by blast
          with \<open>t \<noteq> t'\<close> show False by simp
        qed
        then show "?B (snd q) \<inter> ?B (snd r) = {}" unfolding qr snd_conv by blast
      qed
    qed (simp_all add: finite_below [OF wf])
    also have "\<dots> = (\<Sum>(t, c) \<leftarrow> ?cs. card (?B c))"
      using child_keys [OF wf n] by (simp add: sum_list_distinct_conv_sum_set distinct_map case_prod_unfold)
    finally show ?thesis .
  qed
  moreover have "n \<notin> (\<Union>c \<in> snd ` set ?cs. ?B c)" using sub n by fastforce
  ultimately show ?thesis
    unfolding below_children [OF wf n, where P = P and Q = Q] by (simp add: finite_below [OF wf])
qed

section \<open>Distances as token paths\<close>

abbreviation holds_block :: "prefix_index \<Rightarrow> nat \<Rightarrow> bool" where
  "holds_block x m \<equiv> nd_terminal (node x m) \<noteq> None"

lemma card_below_paths:
  assumes wf: "labelled x lab" and n: "lab n = Some (ctx, p)"
  shows "card (below x lab (holds_block x) n P) =
    card {s. block_at x ctx (p @ s) \<noteq> None \<and> P (length s)}"
proof (rule bij_betw_same_card)
  let ?f = "\<lambda>m. drop (length p) (snd (the (lab m)))"
  let ?S = "{s. block_at x ctx (p @ s) \<noteq> None \<and> P (length s)}"
  have lab: "lab m = Some (ctx, p @ ?f m)" if "m \<in> below x lab (holds_block x) n P" for m
    using that by (auto simp: below_iff [where lab = lab and n = n, OF n])
  show "bij_betw ?f (below x lab (holds_block x) n P) ?S"
    unfolding bij_betw_def
  proof (intro conjI inj_onI set_eqI)
    fix m m' assume m: "m \<in> below x lab (holds_block x) n P" "m' \<in> below x lab (holds_block x) n P"
      "?f m = ?f m'"
    from lab [OF m(1)] lab [OF m(2)] m(3) show "m = m'" using labelledD(4) [OF wf] by metis
  next
    fix s
    show "s \<in> ?f ` below x lab (holds_block x) n P \<longleftrightarrow> s \<in> ?S"
    proof
      assume "s \<in> ?f ` below x lab (holds_block x) n P"
      then obtain m where m: "m \<in> below x lab (holds_block x) n P" "s = ?f m" by blast
      from m(1) have "holds_block x m" "P (length s)"
        using m(2) by (auto simp: below_iff [where lab = lab and n = n, OF n])
      with block_at_label [OF wf lab [OF m(1)]] m(2) show "s \<in> ?S" by simp
    next
      assume s: "s \<in> ?S"
      then obtain b where "block_at x ctx (p @ s) = Some b" by auto
      then obtain m where m: "lab m = Some (ctx, p @ s)" "nd_terminal (node x m) = Some b"
        by (auto simp: block_at_iff [OF wf])
      then have "m \<in> below x lab (holds_block x) n P" "s = ?f m"
        using s by (auto simp: below_iff [where lab = lab and n = n, OF n])
      then show "s \<in> ?f ` below x lab (holds_block x) n P" by blast
    qed
  qed
qed

section \<open>The loops\<close>

text \<open>The size of the tree below a node bounds both loops.\<close>

definition tree_size :: "prefix_index \<Rightarrow> (nat \<Rightarrow> label option) \<Rightarrow> nat \<Rightarrow> nat" where
  "tree_size x lab n = card (below x lab (\<lambda>_. True) n (\<lambda>_. True))"

lemma tree_size_children:
  "labelled x lab \<Longrightarrow> lab n = Some (ctx, p) \<Longrightarrow>
   tree_size x lab n = Suc (sum_list (map (\<lambda>(t, c). tree_size x lab c) (nd_children (node x n))))"
  unfolding tree_size_def by (subst card_below) simp_all

lemma child_labels:
  assumes "labelled x lab" "lab n \<noteq> None" "(t, c) \<in> set (nd_children (node x n))"
  shows "lab c \<noteq> None" "nd_edge (node x c) \<noteq> []" "length (nd_edge (node x c)) \<le> index_bs x"
    "c < node_count x"
proof -
  from assms(2) obtain ctx p where n: "lab n = Some (ctx, p)" by auto
  have "child x n t = Some c" using assms(3) child_keys [OF assms(1) n] by simp
  from childD [OF assms(1) n this] child_edge_fits [OF assms(1) n this]
  show "lab c \<noteq> None" "nd_edge (node x c) \<noteq> []" "length (nd_edge (node x c)) \<le> index_bs x"
    "c < node_count x" by simp_all
qed

lemma descendant_count_loop_eq:
  assumes wf: "labelled x lab"
  shows "\<forall>n \<in> set stack. lab n \<noteq> None \<Longrightarrow> descendant_count_loop x stack cnt =
    Some (cnt + of_nat (sum_list (map (\<lambda>n. card (below x lab (holds_block x) n (\<lambda>_. True))) stack)))"
proof (induction "sum_list (map (tree_size x lab) stack)" arbitrary: stack cnt rule: less_induct)
  case less
  show ?case
  proof (cases "stack = []")
    case True
    then show ?thesis by (subst descendant_count_loop.simps) simp
  next
    case False
    let ?n = "last stack" and ?rest = "butlast stack"
    let ?cs = "nd_children (node x ?n)"
    have stack: "stack = ?rest @ [?n]" using False by simp
    obtain ctx p where n: "lab ?n = Some (ctx, p)" using less.prems False by fastforce
    have at: "node_at x ?n = Some (node x ?n)" using labelledD(3) [OF wf n] by (simp add: node_at_def)
    have "\<forall>m \<in> set (?rest @ map snd ?cs). lab m \<noteq> None"
      using less.prems child_labels(1) [OF wf, of ?n] n by (auto dest: in_set_butlastD)
    moreover have "sum_list (map (tree_size x lab) (?rest @ map snd ?cs)) < sum_list (map (tree_size x lab) stack)"
      by (subst (2) stack) (simp add: tree_size_children [OF wf n] o_def case_prod_unfold)
    moreover have "card (below x lab (holds_block x) ?n (\<lambda>_. True)) = (if holds_block x ?n then 1 else 0) +
        sum_list (map (\<lambda>n. card (below x lab (holds_block x) n (\<lambda>_. True))) (map snd ?cs))"
      by (subst card_below [OF wf n]) (simp add: o_def case_prod_unfold)
    ultimately have "descendant_count_loop x (?rest @ map snd ?cs) (if holds_block x ?n then cnt + 1 else cnt) =
        Some (cnt + of_nat (sum_list (map (\<lambda>n. card (below x lab (holds_block x) n (\<lambda>_. True))) (?rest @ [?n]))))"
      using less.hyps by simp
    then show ?thesis using False at stack by (subst descendant_count_loop.simps) simp
  qed
qed

text \<open>The breadth-first loop counts the nodes at exactly the remaining distance of each queue entry.\<close>

lemma push_children_eq:
  "\<forall>(t, c) \<in> set cs. c < node_count x \<Longrightarrow> push_children x r cs =
     Some (map (\<lambda>(t, c). (c, r - of_nat (length (nd_edge (node x c)))))
       (filter (\<lambda>(t, c). of_nat (length (nd_edge (node x c))) \<le> r) cs))"
  by (induction cs) (auto simp: node_at_def Let_def)

abbreviation at_distance :: "prefix_index \<Rightarrow> (nat \<Rightarrow> label option) \<Rightarrow> nat \<times> u32 \<Rightarrow> nat" where
  "at_distance x lab q \<equiv> card (below x lab (holds_block x) (fst q) (\<lambda>d. d = unat (snd q)))"

lemma below_empty: "(\<And>d. \<not> P d) \<Longrightarrow> below x lab Q n P = {}"
  by (auto simp: below_def)

lemma index_bs_bound: "index_bs x < 2 ^ 32"
  using unsigned_less [of "px_block_size x", where 'a = nat] by (simp add: index_bs_def)

lemma pushed_sums:
  assumes "\<And>t c. (t, c) \<in> set cs \<Longrightarrow> length (nd_edge (node x c)) < 2 ^ 32"
  shows "sum_list (map (at_distance x lab) (map (\<lambda>(t, c). (c, r - of_nat (length (nd_edge (node x c)))))
      (filter (\<lambda>(t, c). of_nat (length (nd_edge (node x c))) \<le> r) cs))) =
    sum_list (map (\<lambda>(t, c). card (below x lab (holds_block x) c
      (\<lambda>d. d + length (nd_edge (node x c)) = unat r))) cs)"
  using assms
proof (induction cs)
  case (Cons q cs)
  obtain t c where q: "q = (t, c)" by (cases q)
  let ?l = "length (nd_edge (node x c))" and ?w = "of_nat (length (nd_edge (node x c))) :: u32"
  have w: "unat ?w = ?l" using Cons.prems [of t c] q by (simp add: unat_of_nat)
  have "card (below x lab (holds_block x) c (\<lambda>d. d + ?l = unat r)) =
      (if ?w \<le> r then at_distance x lab (c, r - ?w) else 0)"
  proof (cases "?w \<le> r")
    case True
    then have "?l \<le> unat r" "unat (r - ?w) = unat r - ?l"
      using w by (simp_all add: word_le_nat_alt unat_sub)
    then have "(\<lambda>d. d + ?l = unat r) = (\<lambda>d. d = unat (r - ?w))" by auto
    with True show ?thesis by simp
  next
    case False
    then have "unat r < ?l" using w by (simp add: word_le_nat_alt)
    then have "below x lab (holds_block x) c (\<lambda>d. d + ?l = unat r) = {}" by (intro below_empty) simp
    with False show ?thesis by simp
  qed
  with Cons.IH [OF Cons.prems [OF list.set_intros(2)]] show ?case by (simp add: q)
qed simp

lemma pushed_subset:
  "sum_list (map (\<lambda>q. f (fst q)) (map (\<lambda>(t, c). (c, g c)) (filter P cs))) \<le>
   (sum_list (map (\<lambda>(t, c). f c) cs) :: nat)"
  by (induction cs) auto

lemma child_count_loop_eq:
  assumes wf: "labelled x lab"
  shows "\<forall>q \<in> set queue. lab (fst q) \<noteq> None \<Longrightarrow> child_count_loop x queue cnt =
    Some (cnt + of_nat (sum_list (map (at_distance x lab) queue)))"
proof (induction "sum_list (map (\<lambda>q. tree_size x lab (fst q)) queue)" arbitrary: queue cnt rule: less_induct)
  case less
  show ?case
  proof (cases queue)
    case Nil
    then show ?thesis by (subst child_count_loop.simps) simp
  next
    case (Cons q rest)
    obtain n r where q: "q = (n, r)" by (cases q)
    let ?cs = "nd_children (node x n)"
    obtain ctx p where n: "lab n = Some (ctx, p)" using less.prems Cons q by auto
    have at: "node_at x n = Some (node x n)" using labelledD(3) [OF wf n] by (simp add: node_at_def)
    note size = tree_size_children [OF wf n]
    note cl = child_labels [OF wf, of n, unfolded n, simplified]
    show ?thesis
    proof (cases "r = 0")
      case True
      have "at_distance x lab (n, r) = (if holds_block x n then 1 else 0)"
      proof -
        have "below x lab (holds_block x) c (\<lambda>d. d + length (nd_edge (node x c)) = 0) = {}"
          if "(t, c) \<in> set ?cs" for t c using cl(2) [OF that] by (intro below_empty) simp
        then have "sum_list (map (\<lambda>(t, c). card (below x lab (holds_block x) c
            (\<lambda>d. d + length (nd_edge (node x c)) = 0))) ?cs) = 0"
          by (auto simp: sum_list_eq_0_iff simp del: add_is_0)
        then show ?thesis using True card_below [OF wf n, of "holds_block x" "\<lambda>d. d = 0"] by simp
      qed
      moreover have "child_count_loop x rest (if holds_block x n then cnt + 1 else cnt) =
          Some ((if holds_block x n then cnt + 1 else cnt) + of_nat (sum_list (map (at_distance x lab) rest)))"
        by (rule less.hyps) (use less.prems Cons q size in simp_all)
      ultimately show ?thesis
        unfolding Cons q using at True by (subst child_count_loop.simps) simp
    next
      case False
      let ?pushed = "map (\<lambda>(t, c). (c, r - of_nat (length (nd_edge (node x c)))))
        (filter (\<lambda>(t, c). of_nat (length (nd_edge (node x c))) \<le> r) ?cs)"
      have push: "push_children x r ?cs = Some ?pushed" using cl(4) by (intro push_children_eq) auto
      have lens: "length (nd_edge (node x c)) < 2 ^ 32" if "(t, c) \<in> set ?cs" for t c
        using cl(3) [OF that] index_bs_bound [of x] by simp
      have "unat r \<noteq> 0" using False by (simp add: unat_eq_zero)
      then have "at_distance x lab (n, r) = sum_list (map (at_distance x lab) ?pushed)"
        using card_below [OF wf n, of "holds_block x" "\<lambda>d. d = unat r"] pushed_sums [of ?cs x lab r] lens
        by simp
      moreover have "child_count_loop x (rest @ ?pushed) cnt =
          Some (cnt + of_nat (sum_list (map (at_distance x lab) (rest @ ?pushed))))"
      proof (rule less.hyps)
        show "\<forall>q \<in> set (rest @ ?pushed). lab (fst q) \<noteq> None"
          using less.prems Cons cl(1) by auto
        show "sum_list (map (\<lambda>q. tree_size x lab (fst q)) (rest @ ?pushed))
            < sum_list (map (\<lambda>q. tree_size x lab (fst q)) queue)"
          using pushed_subset [of "tree_size x lab" "\<lambda>c. r - of_nat (length (nd_edge (node x c)))"
              "\<lambda>(t, c). of_nat (length (nd_edge (node x c))) \<le> r" ?cs] size
          unfolding Cons q map_append sum_list_append list.map sum_list.Cons fst_conv by linarith
      qed
      ultimately show ?thesis
        unfolding Cons q using at False push by (subst child_count_loop.simps) (simp add: add.commute)
    qed
  qed
qed

section \<open>The counts\<close>

lemma block_location:
  assumes "labelled x lab" "block_at x ctx p = Some b"
  obtains n where "lab n = Some (ctx, p)" "map_of (px_block_node x) b = Some n"
  using assms terminalD(2) [OF assms(1)] by (auto simp: block_at_iff [OF assms(1)])

lemma block_descendant_count_eq:
  assumes "index_wf x" "block_at x ctx p = Some b"
  shows "block_descendant_count b x =
    Some (of_nat (card {s. block_at x ctx (p @ s) \<noteq> None \<and> s \<noteq> []}))"
proof -
  from assms(1) obtain lab where wf: "labelled x lab" by (auto simp: index_wf_def)
  obtain n where n: "lab n = Some (ctx, p)" "map_of (px_block_node x) b = Some n"
    by (rule block_location [OF wf assms(2)])
  let ?cs = "nd_children (node x n)"
  note cl = child_labels [OF wf, of n, unfolded n, simplified]
  have at: "node_at x n = Some (node x n)" using labelledD(3) [OF wf n(1)] by (simp add: node_at_def)
  have "below x lab (holds_block x) c (\<lambda>d. d + length (nd_edge (node x c)) \<noteq> 0) =
      below x lab (holds_block x) c (\<lambda>_. True)" if "(t, c) \<in> set ?cs" for t c
    using cl(2) [OF that] by simp
  then have "sum_list (map (\<lambda>(t, c). card (below x lab (holds_block x) c
      (\<lambda>d. d + length (nd_edge (node x c)) \<noteq> 0))) ?cs) =
      sum_list (map (\<lambda>n. card (below x lab (holds_block x) n (\<lambda>_. True))) (map snd ?cs))"
    by (auto simp: o_def intro!: arg_cong [where f = sum_list] map_cong simp del: add_is_0)
  then have "sum_list (map (\<lambda>n. card (below x lab (holds_block x) n (\<lambda>_. True))) (map snd ?cs)) =
      card {s. block_at x ctx (p @ s) \<noteq> None \<and> length s \<noteq> 0}"
    using card_below [OF wf n(1), of "holds_block x" "\<lambda>d. d \<noteq> 0"]
    unfolding card_below_paths [OF wf n(1)] by simp
  moreover have "descendant_count_loop x (map snd ?cs) 0 =
      Some (0 + of_nat (sum_list (map (\<lambda>n. card (below x lab (holds_block x) n (\<lambda>_. True))) (map snd ?cs))))"
    by (rule descendant_count_loop_eq [OF wf]) (use cl(1) in auto)
  ultimately show ?thesis using n(2) at by (simp add: block_descendant_count_def)
qed

lemma block_child_count_eq:
  assumes "index_wf x" "block_at x ctx p = Some b"
  shows "block_child_count b x =
    Some (of_nat (card {s. block_at x ctx (p @ s) \<noteq> None \<and> length s = index_bs x}))"
proof -
  from assms(1) obtain lab where wf: "labelled x lab" by (auto simp: index_wf_def)
  obtain n where n: "lab n = Some (ctx, p)" "map_of (px_block_node x) b = Some n"
    by (rule block_location [OF wf assms(2)])
  let ?cs = "nd_children (node x n)" and ?r = "px_block_size x"
  note cl = child_labels [OF wf, of n, unfolded n, simplified]
  have at: "node_at x n = Some (node x n)" using labelledD(3) [OF wf n(1)] by (simp add: node_at_def)
  let ?pushed = "map (\<lambda>(t, c). (c, ?r - of_nat (length (nd_edge (node x c)))))
    (filter (\<lambda>(t, c). of_nat (length (nd_edge (node x c))) \<le> ?r) ?cs)"
  have push: "push_children x ?r ?cs = Some ?pushed" using cl(4) by (intro push_children_eq) auto
  have lens: "length (nd_edge (node x c)) < 2 ^ 32" if "(t, c) \<in> set ?cs" for t c
    using cl(3) [OF that] index_bs_bound [of x] by simp
  have "child_count_loop x ?pushed 0 = Some (0 + of_nat (sum_list (map (at_distance x lab) ?pushed)))"
    by (rule child_count_loop_eq [OF wf]) (use cl(1) in auto)
  moreover have "sum_list (map (at_distance x lab) ?pushed) =
      card {s. block_at x ctx (p @ s) \<noteq> None \<and> length s = index_bs x}"
    using card_below [OF wf n(1), of "holds_block x" "\<lambda>d. d = index_bs x"] labelledD(1) [OF wf]
      pushed_sums [of ?cs x lab ?r] lens
    unfolding card_below_paths [OF wf n(1)] index_bs_def by simp
  ultimately show ?thesis using n(2) at push by (simp add: block_child_count_def)
qed

lemma counts_return:
  assumes "index_wf x"
  shows "\<exists>n. block_child_count b x = Some n" "\<exists>n. block_descendant_count b x = Some n"
proof -
  from assms obtain lab where wf: "labelled x lab" by (auto simp: index_wf_def)
  have "map_of (px_block_node x) b = None \<or> (\<exists>c p. block_at x c p = Some b)"
    using block_node_dom [OF wf, of b] by blast
  then show "\<exists>n. block_child_count b x = Some n" "\<exists>n. block_descendant_count b x = Some n"
    using block_child_count_eq [OF assms] block_descendant_count_eq [OF assms]
    by (auto simp: block_child_count_def block_descendant_count_def)
qed

end
