(* ===== verification/Prefix_Props.thy ===== *)
theory Prefix_Props
  imports Prefix_Counts "HOL-Library.Code_Target_Nat"
begin

text \<open>
  The prefix index behind its interface: the laws its clients rely on as a locale, interpreted on the
  operations of the index, and the properties of the index over whole runs.
\<close>

section \<open>The interface\<close>

locale prefix_map_spec =
  fixes inv :: "'s \<Rightarrow> bool"
    and content :: "'s \<Rightarrow> prefix_map"
    and bs :: "'s \<Rightarrow> nat"
    and can_insert :: "'s \<Rightarrow> context_hash \<Rightarrow> token_id list \<Rightarrow> block_id list \<Rightarrow> bool"
    and insert_blocks :: "context_hash \<Rightarrow> token_id list \<Rightarrow> block_id list \<Rightarrow> 's \<Rightarrow> 's option"
    and remove_block :: "block_id \<Rightarrow> 's \<Rightarrow> 's option"
    and lookup_blocks :: "context_hash \<Rightarrow> token_id list \<Rightarrow> 's \<Rightarrow> block_id list option"
  assumes block_size: "inv s \<Longrightarrow> 0 < bs s"
    and room: "can_insert s ctx toks blocks \<Longrightarrow> length blocks * bs s \<le> length toks"
    and insert_law: "inv s \<Longrightarrow> can_insert s ctx toks blocks \<Longrightarrow>
      \<exists>t. insert_blocks ctx toks blocks s = Some t \<and> inv t \<and> bs t = bs s \<and>
        content t = put_blocks (bs s) ctx toks 0 blocks (content s)"
    and remove_law: "inv s \<Longrightarrow> \<exists>t. remove_block b s = Some t \<and> inv t \<and> bs t = bs s \<and>
      content t = drop_block b (content s)"
    and lookup_law: "inv s \<Longrightarrow>
      lookup_blocks ctx toks s = Some (prefix_blocks (bs s) (content s) ctx toks 0)"
begin

text \<open>A lookup after an insertion finds every block of the insertion, or the block that was there.\<close>

lemma lookup_after_insert:
  assumes "inv s" "can_insert s ctx toks blocks"
  shows "\<exists>t found. insert_blocks ctx toks blocks s = Some t \<and> lookup_blocks ctx toks t = Some found \<and>
    take (length blocks) found = map (\<lambda>i. case content s ctx (take (Suc i * bs s) toks) of
      Some b \<Rightarrow> b | None \<Rightarrow> blocks ! i) [0..<length blocks]"
proof -
  obtain t where t: "insert_blocks ctx toks blocks s = Some t" "inv t" "bs t = bs s"
    "content t = put_blocks (bs s) ctx toks 0 blocks (content s)" using insert_law [OF assms] by blast
  note B = block_size [OF assms(1)] and R = room [OF assms(2)]
  let ?L = "length blocks" and ?N = "length toks div bs s"
  let ?f = "\<lambda>i. content t ctx (take (Suc i * bs s) toks)"
  have f: "?f i = Some (case content s ctx (take (Suc i * bs s) toks) of Some b \<Rightarrow> b | None \<Rightarrow> blocks ! i)"
    if "i < ?L" for i
  proof -
    have "Suc i * bs s \<le> ?L * bs s" using that by (intro mult_le_mono1) simp
    then have "length (take (Suc i * bs s) toks) = Suc i * bs s"
      using le_trans [OF _ R] by (simp only: length_take min_absorb2)
    then have "length (take (Suc i * bs s) toks) div bs s = Suc i" using B by (metis div_mult_self_is_m)
    then have "?f i = (if content s ctx (take (Suc i * bs s) toks) = None \<and>
        (\<exists>j < ?L. take (Suc i * bs s) toks = take (Suc (0 + j) * bs s) toks)
        then Some (blocks ! i) else content s ctx (take (Suc i * bs s) toks))"
      unfolding t(4) by (subst put_blocks_apply [OF B]) (use R in \<open>simp_all del: mult_Suc\<close>)
    moreover have "\<exists>j < ?L. take (Suc i * bs s) toks = take (Suc (0 + j) * bs s) toks"
      using that by (intro exI [of _ i]) simp
    ultimately show ?thesis by (simp split: option.splits del: mult_Suc)
  qed
  have "?L \<le> ?N" using R B by (metis div_le_mono div_mult_self_is_m)
  then have "[0..<?N] = [0..<?L] @ [?L..<?N]" by (metis le_add_diff_inverse upt_add_eq_append zero_le)
  moreover have "takeWhile (\<lambda>b. b \<noteq> None) (map ?f [0..<?L] @ ys) =
      map ?f [0..<?L] @ takeWhile (\<lambda>b. b \<noteq> None) ys" for ys
    by (rule takeWhile_append2) (use f in auto)
  ultimately have "prefix_blocks (bs s) (content t) ctx toks 0 = map (the \<circ> ?f) [0..<?L] @
      map the (takeWhile (\<lambda>b. b \<noteq> None) (map ?f [?L..<?N]))"
    unfolding prefix_blocks_def by (simp del: mult_Suc)
  then have "take ?L (prefix_blocks (bs s) (content t) ctx toks 0) = map (the \<circ> ?f) [0..<?L]" by simp
  moreover have "map (the \<circ> ?f) [0..<?L] = map (\<lambda>i. case content s ctx (take (Suc i * bs s) toks) of
      Some b \<Rightarrow> b | None \<Rightarrow> blocks ! i) [0..<?L]" using f by simp
  moreover have "lookup_blocks ctx toks t = Some (prefix_blocks (bs s) (content t) ctx toks 0)"
    using lookup_law [OF t(2)] t(3) by simp
  ultimately show ?thesis using t(1) by auto
qed

text \<open>Every block a lookup returns is the content of its prefix.\<close>

lemma lookup_sound:
  assumes "inv s" "lookup_blocks ctx toks s = Some found" "i < length found"
  shows "content s ctx (take (Suc i * bs s) toks) = Some (found ! i)" "Suc i * bs s \<le> length toks"
proof -
  let ?f = "\<lambda>i. content s ctx (take (Suc i * bs s) toks)" and ?N = "length toks div bs s"
  let ?w = "takeWhile (\<lambda>b. b \<noteq> None) (map ?f [0..<?N])"
  have found: "found = map the ?w" using lookup_law [OF assms(1)] assms(2) by (simp add: prefix_blocks_def)
  then have i: "i < length ?w" using assms(3) by simp
  then have iN: "i < ?N" using length_takeWhile_le [of "\<lambda>b. b \<noteq> None" "map ?f [0..<?N]"] by simp
  have "?w ! i = ?f i" using i iN by (simp add: takeWhile_nth del: mult_Suc)
  moreover have "?w ! i \<noteq> None" using nth_mem [OF i] set_takeWhileD by fastforce
  ultimately show "?f i = Some (found ! i)" using found i by (auto simp del: mult_Suc)
  have "Suc i * bs s \<le> ?N * bs s" using iN by (intro mult_le_mono1) simp
  then show "Suc i * bs s \<le> length toks" using div_times_less_eq_dividend le_trans by blast
qed

text \<open>A removed block is not found again, whatever the context and the tokens.\<close>

lemma lookup_after_remove:
  assumes "inv s"
  shows "\<exists>t. remove_block b s = Some t \<and>
    (\<forall>ctx toks. \<exists>found. lookup_blocks ctx toks t = Some found \<and> b \<notin> set found)"
proof -
  obtain t where t: "remove_block b s = Some t" "inv t" "content t = drop_block b (content s)"
    using remove_law [OF assms] by blast
  have "b \<notin> set found" if "lookup_blocks ctx toks t = Some found" for ctx toks found
  proof
    assume "b \<in> set found"
    then obtain i where "i < length found" "found ! i = b" by (auto simp: in_set_conv_nth)
    with lookup_sound(1) [OF t(2) that] have "content t ctx (take (Suc i * bs t) toks) = Some b" by metis
    then show False by (simp add: t(3) drop_block_def split: if_splits)
  qed
  with lookup_law [OF t(2)] t(1) show ?thesis by blast
qed

end

abbreviation lookup_ids :: "context_hash \<Rightarrow> token_id list \<Rightarrow> prefix_index \<Rightarrow> block_id list option" where
  "lookup_ids ctx toks x \<equiv> map_option il_blocks (index_lookup ctx toks x)"

interpretation px: prefix_map_spec index_wf block_at index_bs insertable index_insert index_remove lookup_ids
proof
  fix s :: prefix_index and ctx toks blocks b
  show "index_wf s \<Longrightarrow> 0 < index_bs s" by (auto simp: index_wf_def dest: labelledD(1))
  show "insertable s ctx toks blocks \<Longrightarrow> length blocks * index_bs s \<le> length toks"
    by (simp add: insertable_def)
  show "index_wf s \<Longrightarrow> insertable s ctx toks blocks \<Longrightarrow> \<exists>t. index_insert ctx toks blocks s = Some t \<and>
      index_wf t \<and> index_bs t = index_bs s \<and>
      block_at t = put_blocks (index_bs s) ctx toks 0 blocks (block_at s)"
    using index_insert_refines by blast
  show "index_wf s \<Longrightarrow> \<exists>t. index_remove b s = Some t \<and> index_wf t \<and> index_bs t = index_bs s \<and>
      block_at t = drop_block b (block_at s)"
    using index_remove_refines by blast
  show "index_wf s \<Longrightarrow> lookup_ids ctx toks s = Some (prefix_blocks (index_bs s) (block_at s) ctx toks 0)"
    by (simp add: index_lookup_refines Let_def)
qed

section \<open>Runs\<close>

text \<open>A client's sequence of operations, what the index answers, and what the abstract map answers.\<close>

datatype index_op =
  Insert_blocks context_hash "token_id list" "block_id list"
| Remove_block block_id
| Lookup_tokens context_hash "token_id list"

fun index_run :: "index_op list \<Rightarrow> prefix_index \<Rightarrow> (prefix_index \<times> block_id list list) option" where
  "index_run [] x = Some (x, [])"
| "index_run (Insert_blocks ctx toks blocks # ops) x =
     Option.bind (index_insert ctx toks blocks x) (index_run ops)"
| "index_run (Remove_block b # ops) x = Option.bind (index_remove b x) (index_run ops)"
| "index_run (Lookup_tokens ctx toks # ops) x =
     Option.bind (lookup_ids ctx toks x) (\<lambda>found.
       map_option (\<lambda>(y, out). (y, found # out)) (index_run ops x))"

fun map_run :: "nat \<Rightarrow> index_op list \<Rightarrow> prefix_map \<Rightarrow> prefix_map \<times> block_id list list" where
  "map_run bs [] m = (m, [])"
| "map_run bs (Insert_blocks ctx toks blocks # ops) m = map_run bs ops (put_blocks bs ctx toks 0 blocks m)"
| "map_run bs (Remove_block b # ops) m = map_run bs ops (drop_block b m)"
| "map_run bs (Lookup_tokens ctx toks # ops) m =
     (case map_run bs ops m of (m', out) \<Rightarrow> (m', prefix_blocks bs m ctx toks 0 # out))"

text \<open>The obligation of the client: each insertion is insertable when it is reached.\<close>

fun run_ok :: "index_op list \<Rightarrow> prefix_index \<Rightarrow> bool" where
  "run_ok [] x \<longleftrightarrow> True"
| "run_ok (Insert_blocks ctx toks blocks # ops) x \<longleftrightarrow> insertable x ctx toks blocks \<and>
     (case index_insert ctx toks blocks x of None \<Rightarrow> True | Some y \<Rightarrow> run_ok ops y)"
| "run_ok (Remove_block b # ops) x \<longleftrightarrow>
     (case index_remove b x of None \<Rightarrow> True | Some y \<Rightarrow> run_ok ops y)"
| "run_ok (Lookup_tokens ctx toks # ops) x \<longleftrightarrow> run_ok ops x"

lemma index_run_simulates:
  "index_wf x \<Longrightarrow> run_ok ops x \<Longrightarrow> \<exists>y. index_run ops x = Some (y, snd (map_run (index_bs x) ops (block_at x))) \<and>
     index_wf y \<and> index_bs y = index_bs x \<and> block_at y = fst (map_run (index_bs x) ops (block_at x))"
proof (induction ops x rule: run_ok.induct)
  case (2 ctx toks blocks ops x)
  then obtain y where y: "index_insert ctx toks blocks x = Some y" "index_wf y" "index_bs y = index_bs x"
    "block_at y = put_blocks (index_bs x) ctx toks 0 blocks (block_at x)"
    using px.insert_law [of x ctx toks blocks] by auto
  with 2 show ?case by auto
next
  case (3 b ops x)
  then obtain y where "index_remove b x = Some y" "index_wf y" "index_bs y = index_bs x"
    "block_at y = drop_block b (block_at x)" using px.remove_law [of x b] by blast
  with 3 show ?case by auto
next
  case (4 ctx toks ops x)
  obtain r where r: "index_lookup ctx toks x = Some r"
    "il_blocks r = prefix_blocks (index_bs x) (block_at x) ctx toks 0"
    using px.lookup_law [OF 4(2), of ctx toks] by auto
  with 4 show ?case by (auto split: prod.split)
qed simp

lemma index_wf_make_index: "bs \<noteq> 0 \<Longrightarrow> index_wf (make_index bs)"
  using labelled_make_index by (auto simp: index_wf_def)

lemma block_at_make_index: "block_at (make_index bs) = (\<lambda>_ _. None)"
  by (intro ext) (simp add: block_at_def make_index_def)

text \<open>C3: the radix tree is a map from (context, token prefix) to block. From an empty index, every sequence
  of insertions, removals and lookups whose insertions have room, enough tokens and unindexed new
  blocks runs without undefined behaviour, answers every lookup as the map does, and ends in a
  well-formed index that holds the map's blocks: edge splits, shared prefixes and pruning are
  invisible.\<close>

theorem index_refines_map:
  assumes "bs \<noteq> 0" "run_ok ops (make_index bs)"
  shows "\<exists>y. index_run ops (make_index bs) = Some (y, snd (map_run (unat bs) ops (\<lambda>_ _. None))) \<and>
    index_wf y \<and> block_at y = fst (map_run (unat bs) ops (\<lambda>_ _. None))"
proof -
  have "index_bs (make_index bs) = unat bs" by (simp add: index_bs_def make_index_def)
  with index_run_simulates [OF index_wf_make_index [OF assms(1)] assms(2)]
  show ?thesis by (auto simp: block_at_make_index)
qed

text \<open>A run that shares a prefix, splits an edge, removes and looks up.\<close>

definition example_inserts :: "index_op list" where
  "example_inserts = [Insert_blocks 7 [1, 2, 3, 4] [10, 11], Insert_blocks 7 [1, 2, 3, 5] [10, 12]]"

definition example_index :: prefix_index where
  "example_index = fst (the (index_run example_inserts (make_index 2)))"

definition example_ops :: "index_op list" where
  "example_ops = example_inserts @
     [Lookup_tokens 7 [1, 2, 3, 5, 9], Remove_block 10, Lookup_tokens 7 [1, 2, 3, 4]]"

lemma run_ok_example: "run_ok example_ops (make_index 2)"
  by code_simp

theorem index_refines_map_witness:
  "run_ok example_ops (make_index 2) \<and>
   map_option snd (index_run example_ops (make_index 2)) = Some [[10, 12], []]"
proof -
  have "snd (map_run (unat (2 :: u32)) example_ops (\<lambda>_ _. None)) = [[10, 12], []]"
    by (simp add: example_ops_def example_inserts_def prefix_blocks_def put_absent_def drop_block_def
        upt_conv_Cons)
  with index_refines_map [OF _ run_ok_example] run_ok_example show ?thesis by auto
qed

lemma example_index:
  "index_wf example_index" "index_bs example_index = 2"
  "block_at example_index = fst (map_run 2 example_inserts (\<lambda>_ _. None))"
proof -
  have ok: "run_ok example_inserts (make_index 2)"
    using run_ok_example unfolding example_ops_def example_inserts_def by (auto split: option.splits)
  have bs: "index_bs (make_index 2) = 2" by (simp add: index_bs_def make_index_def)
  from index_run_simulates [OF index_wf_make_index ok] bs
  show "index_wf example_index" "index_bs example_index = 2"
    "block_at example_index = fst (map_run 2 example_inserts (\<lambda>_ _. None))"
    by (auto simp: example_index_def block_at_make_index)
qed

lemma example_block_at:
  "block_at example_index 7 [1, 2] = Some 10" "block_at example_index 7 [1, 2, 3, 5] = Some 12"
  "block_at example_index 7 ([1, 2] @ s) = (if s = [3, 4] then Some 11 else if s = [3, 5] then Some 12
     else if s = [] then Some 10 else None)"
  by (auto simp: example_index(3) example_inserts_def put_absent_def)

section \<open>Properties of the operations\<close>

text \<open>C19: read your writes. After an insertion, a lookup of the same tokens in the same context returns
  for every block slot of the insertion the block that was indexed there before, or the inserted one
  where the slot was empty.\<close>

theorem lookup_finds_inserted:
  assumes "index_wf x" "insertable x ctx toks blocks"
  shows "\<exists>y r. index_insert ctx toks blocks x = Some y \<and> index_lookup ctx toks y = Some r \<and>
    take (length blocks) (il_blocks r) = map (\<lambda>i. case block_at x ctx (take (Suc i * index_bs x) toks) of
      Some b \<Rightarrow> b | None \<Rightarrow> blocks ! i) [0..<length blocks]"
proof -
  obtain y found where "index_insert ctx toks blocks x = Some y" "lookup_ids ctx toks y = Some found"
    "take (length blocks) found = map (\<lambda>i. case block_at x ctx (take (Suc i * index_bs x) toks) of
      Some b \<Rightarrow> b | None \<Rightarrow> blocks ! i) [0..<length blocks]"
    using px.lookup_after_insert [OF assms] by blast
  then show ?thesis by (fastforce simp del: mult_Suc)
qed

theorem lookup_finds_inserted_witness:
  "\<exists>y r. index_insert 7 [1, 2, 8, 9] [10, 14] example_index = Some y \<and>
     index_lookup 7 [1, 2, 8, 9] y = Some r \<and> take 2 (il_blocks r) = [10, 14]"
proof -
  have "insertable example_index 7 [1, 2, 8, 9] [10, 14]" by code_simp
  moreover have two: "length [10, 14 :: block_id] = 2" "[0..<2] = [0, 1 :: nat]"
    by (simp_all add: upt_conv_Cons)
  ultimately show ?thesis
    using lookup_finds_inserted [of example_index 7 "[1, 2, 8, 9]" "[10, 14]", unfolded two]
    by (simp add: example_index example_inserts_def put_absent_def)
qed

lemma prefix_blocks_drop:
  "prefix_blocks bs (drop_block b m) ctx toks k = takeWhile (\<lambda>i. i \<noteq> b) (prefix_blocks bs m ctx toks k)"
proof -
  have "map the (takeWhile (\<lambda>v. v \<noteq> None) (map (\<lambda>i. drop_block b m ctx (f i)) xs)) =
      takeWhile (\<lambda>i. i \<noteq> b) (map the (takeWhile (\<lambda>v. v \<noteq> None) (map (\<lambda>i. m ctx (f i)) xs)))" for f and xs :: "nat list"
  proof (induction xs)
    case (Cons x xs)
    then show ?case by (cases "m ctx (f x)") (auto simp: drop_block_def)
  qed simp
  then show ?thesis by (simp add: prefix_blocks_def)
qed

text \<open>C20: a removed block is never found again. On a well-formed index, which holds each block at one path at
  most, removal returns and leaves the index well-formed, and a lookup after it, in any context and for
  any tokens, returns what it returned before up to the removed block: the block itself is in no answer,
  and prefixes without it are found as before. Well-formedness is what insertions of unindexed
  blocks and removals build from the empty index (C3); a block inserted at a second path is found at the
  first one even after its removal (\<open>doubly_indexed_block_stays\<close>).\<close>

theorem removed_block_not_found:
  assumes "index_wf x"
  shows "\<exists>y. index_remove b x = Some y \<and> index_wf y \<and>
    (\<forall>ctx toks. \<exists>before r. index_lookup ctx toks x = Some before \<and> index_lookup ctx toks y = Some r \<and>
       il_blocks r = takeWhile (\<lambda>i. i \<noteq> b) (il_blocks before) \<and> b \<notin> set (il_blocks r))"
proof -
  obtain y where y: "index_remove b x = Some y" "index_wf y" "index_bs y = index_bs x"
    "block_at y = drop_block b (block_at x)" using px.remove_law [OF assms] by blast
  have "\<exists>before r. index_lookup ctx toks x = Some before \<and> index_lookup ctx toks y = Some r \<and>
      il_blocks r = takeWhile (\<lambda>i. i \<noteq> b) (il_blocks before)" for ctx toks
    using px.lookup_law [OF assms, of ctx toks] px.lookup_law [OF y(2), of ctx toks]
    by (auto simp: y(3,4) prefix_blocks_drop)
  then show ?thesis using y(1,2) by (metis (mono_tags, lifting) set_takeWhileD)
qed

theorem removed_block_not_found_witness:
  "\<exists>y. index_remove 10 example_index = Some y \<and> index_wf y \<and>
    (\<forall>ctx toks. \<exists>before r. index_lookup ctx toks example_index = Some before \<and> index_lookup ctx toks y = Some r \<and>
       il_blocks r = takeWhile (\<lambda>i. i \<noteq> 10) (il_blocks before) \<and> 10 \<notin> set (il_blocks r))"
  by (rule removed_block_not_found [OF example_index(1)])

text \<open>\<open>insert\<close> does not check that a block is new; the index then remembers the last path only.\<close>

lemma doubly_indexed_block_stays:
  "map_option snd (index_run [Insert_blocks 7 [1, 2] [0], Insert_blocks 7 [3, 4] [0], Remove_block 0,
     Lookup_tokens 7 [1, 2], Lookup_tokens 7 [3, 4]] (make_index 2)) = Some [[0], []]"
  by code_simp

lemma unat_small: "n < 2 ^ 32 \<Longrightarrow> unat (of_nat n :: u32) = n"
  by (simp add: unat_of_nat)

text \<open>C21: the bounds of a lookup: the matched tokens are whole blocks, never more than the tokens asked
  for, without wrap-around of the 32-bit count, and the match stops only where the next block slot is
  incomplete or empty.\<close>

theorem lookup_matches_maximal_prefix:
  assumes "index_wf x" "length toks < 2 ^ 32" "index_lookup ctx toks x = Some r"
  shows "unat (il_matched_tokens r) = length (il_blocks r) * index_bs x \<and>
    length (il_blocks r) * index_bs x \<le> length toks \<and>
    list_all (\<lambda>i. block_at x ctx (take (Suc i * index_bs x) toks) = Some (il_blocks r ! i))
      [0..<length (il_blocks r)] \<and>
    (length toks < Suc (length (il_blocks r)) * index_bs x \<or>
     block_at x ctx (take (Suc (length (il_blocks r)) * index_bs x) toks) = None)"
proof -
  let ?bs = "index_bs x" and ?N = "length toks div index_bs x"
  let ?f = "\<lambda>i. block_at x ctx (take (Suc i * ?bs) toks)"
  let ?w = "takeWhile (\<lambda>b. b \<noteq> None) (map ?f [0..<?N])"
  have B: "0 < ?bs" by (rule px.block_size [OF assms(1)])
  have r: "il_blocks r = map the ?w" "il_matched_tokens r = of_nat (length ?w * ?bs)"
    using assms(3) index_lookup_refines [OF assms(1), of ctx toks] by (auto simp: Let_def prefix_blocks_def)
  have "length ?w \<le> ?N" using length_takeWhile_le [of "\<lambda>b. b \<noteq> None" "map ?f [0..<?N]"] by simp
  then have le: "length ?w * ?bs \<le> length toks"
    by (meson div_times_less_eq_dividend le_trans mult_le_mono1)
  have "lookup_ids ctx toks x = Some (il_blocks r)" using assms(3) by simp
  from px.lookup_sound(1) [OF assms(1) this]
  have "list_all (\<lambda>i. ?f i = Some (il_blocks r ! i)) [0..<length (il_blocks r)]"
    by (simp add: list_all_iff del: mult_Suc)
  moreover have "length toks < Suc (length ?w) * ?bs \<or> ?f (length ?w) = None"
  proof (cases "length ?w < ?N")
    case True
    then have "\<not> (map ?f [0..<?N] ! length ?w \<noteq> None)"
      using nth_length_takeWhile [of "\<lambda>b. b \<noteq> None" "map ?f [0..<?N]"] by simp
    with True show ?thesis by (simp del: mult_Suc)
  next
    case False
    then have "?N < Suc (length ?w)" by simp
    then show ?thesis using B by (simp add: div_less_iff_less_mult del: mult_Suc)
  qed
  moreover have "unat (il_matched_tokens r) = length ?w * ?bs"
    unfolding r(2) by (rule unat_small) (rule le_less_trans [OF le assms(2)])
  ultimately show ?thesis using le by (simp add: r(1) del: mult_Suc)
qed

theorem lookup_matches_maximal_prefix_witness:
  "\<exists>r. index_lookup 7 [1, 2, 3, 5, 9] example_index = Some r \<and> unat (il_matched_tokens r) = 4"
proof -
  let ?toks = "[1, 2, 3, 5, 9] :: token_id list"
  obtain r where r: "index_lookup 7 ?toks example_index = Some r" "il_blocks r = [10, 12]"
    using index_lookup_refines [OF example_index(1), of 7 ?toks]
    by (auto simp: Let_def prefix_blocks_def upt_conv_Cons example_index example_inserts_def put_absent_def)
  with lookup_matches_maximal_prefix [OF example_index(1) _ r(1)] show ?thesis
    by (simp add: example_index)
qed

text \<open>C23: the counts the eviction policies use. For an indexed block, the child count is the number of
  cached paths exactly one block longer, and the descendant count the number of all longer cached
  paths in its context, however the tree has been split (both modulo \<open>2 ^ 32\<close>).\<close>

theorem counts_are_cached_extensions:
  assumes "index_wf x" "block_at x ctx p = Some b"
  shows "block_child_count b x =
      Some (of_nat (card {s. block_at x ctx (p @ s) \<noteq> None \<and> length s = index_bs x})) \<and>
    block_descendant_count b x = Some (of_nat (card {s. block_at x ctx (p @ s) \<noteq> None \<and> s \<noteq> []}))"
  using block_child_count_eq [OF assms] block_descendant_count_eq [OF assms] by blast

theorem counts_are_cached_extensions_witness:
  "block_child_count 10 example_index = Some 2 \<and> block_descendant_count 10 example_index = Some 2"
proof -
  have "{s. block_at example_index 7 ([1, 2] @ s) \<noteq> None \<and> length s = index_bs example_index} = {[3, 4], [3, 5]}"
    "{s. block_at example_index 7 ([1, 2] @ s) \<noteq> None \<and> s \<noteq> []} = {[3, 4], [3, 5]}"
    unfolding example_block_at(3) example_index(2) by auto
  with counts_are_cached_extensions [OF example_index(1) example_block_at(1)] show ?thesis by simp
qed

text \<open>C22: every query of a well-formed index returns: lookup, removal and both counts end for all
  arguments, never read outside the node vector, and leave a well-formed index.\<close>

theorem index_operations_return:
  assumes "index_wf x"
  shows "(\<exists>r. index_lookup ctx toks x = Some r) \<and> (\<exists>y. index_remove b x = Some y \<and> index_wf y) \<and>
    (\<exists>n. block_child_count b x = Some n) \<and> (\<exists>n. block_descendant_count b x = Some n)"
proof (intro conjI)
  show "\<exists>r. index_lookup ctx toks x = Some r" using index_lookup_refines [OF assms] by blast
  show "\<exists>y. index_remove b x = Some y \<and> index_wf y" using index_remove_refines [OF assms] by blast
qed (use counts_return [OF assms] in auto)

theorem index_operations_return_witness: "\<exists>n. block_child_count 10 example_index = Some n"
  using index_operations_return [OF example_index(1)] by blast

end
