(* ===== verification/Eviction.thy ===== *)
theory Eviction
  imports Local_Cache Prefix_Props
begin

text \<open>
  The eviction controller on a cache without a tier manager (what \<open>LocalCache\<close>'s constructors
  without tiers build): manager and index stay consistent, a round never throws, and only
  ready blocks of the tier that no handle pins are evicted.
\<close>

section \<open>Consistency of the cache\<close>

text \<open>The manager and the index are well-formed, and every indexed block is ready and was cached with
  the index's block size.\<close>

definition cache_inv :: "cache_core \<Rightarrow> bool" where
  "cache_inv c \<longleftrightarrow> manager_inv (cc_manager c) \<and> unready_unpinned (cc_manager c) \<and>
     index_wf (cc_index c) \<and> cc_tiers c = None \<and>
     (\<forall>ctx p i. block_at (cc_index c) ctx p = Some i \<longrightarrow>
        has_block i (cc_manager c) \<and> br_state (block_of i (cc_manager c)) = Ready \<and>
        br_token_count (block_of i (cc_manager c)) = ucast (px_block_size (cc_index c)))"

lemma cache_invD:
  assumes "cache_inv c"
  shows "manager_inv (cc_manager c)" "unready_unpinned (cc_manager c)" "index_wf (cc_index c)"
    "cc_tiers c = None"
    "block_at (cc_index c) ctx p = Some i \<Longrightarrow> has_block i (cc_manager c)"
    "block_at (cc_index c) ctx p = Some i \<Longrightarrow> br_state (block_of i (cc_manager c)) = Ready"
    "block_at (cc_index c) ctx p = Some i \<Longrightarrow>
       br_token_count (block_of i (cc_manager c)) = ucast (px_block_size (cc_index c))"
  using assms by (auto simp: cache_inv_def)

lemma cache_inv_same:
  assumes "cache_inv c" "cc_manager d = cc_manager c" "cc_index d = cc_index c" "cc_tiers d = cc_tiers c"
  shows "cache_inv d"
  using assms by (simp add: cache_inv_def)

lemma block_size_eq: "index_bs y = index_bs x \<Longrightarrow> px_block_size y = px_block_size x"
  by (simp add: index_bs_def word_unat_eq_iff)

lemma unready_unpinned_make: "unready_unpinned (make_manager c)"
  by (simp add: unready_unpinned_def make_manager_def make_store_def record_of_def in_store_def fresh_record_def)

lemma cache_inv_make_core: "bs \<noteq> 0 \<Longrightarrow> cache_inv (make_core capacity bs None events decisions)"
  by (simp add: cache_inv_def make_core_def manager_inv_make index_wf_make_index block_at_make_index
      unready_unpinned_make)

text \<open>The blocks an eviction of tier \<open>t\<close> may take.\<close>

definition takeable :: "tier \<Rightarrow> block_manager \<Rightarrow> block_id set" where
  "takeable t m = {i. has_block i m \<and> evictable (block_of i m) \<and> br_tier (block_of i m) = t}"

section \<open>Candidates\<close>

lemma block_named:
  assumes inv: "manager_inv m" and i: "has_block i m" and st: "br_state (block_of i m) \<noteq> Free"
  shows "br_id (block_of i m) = i"
proof -
  have live: "pool_live (bm_pool m) i" by (rule ready_live [OF assms])
  with pool_live_gen [OF manager_invD(1) [OF inv] live] manager_invD(4) [OF inv i]
  show ?thesis by (auto simp: slot_agrees_def)
qed

lemma record_in_store:
  assumes "store_inv s" "r \<in> set (bs_records s)"
  shows "\<exists>i. in_store i s \<and> record_of i s = r"
proof -
  from assms(2) obtain k where k: "k < length (bs_records s)" "bs_records s ! k = r"
    by (auto simp: in_set_conv_nth)
  have "k < unat (bs_capacity s)" using k(1) assms(1) by (simp add: store_inv_def)
  then have "store_slot (of_nat k) = k"
    using unat_u32_lt [of "bs_capacity s"] by (simp add: store_slot_def)
  with k \<open>k < unat (bs_capacity s)\<close> show ?thesis
    by (intro exI [of _ "of_nat k"]) (simp add: in_store_def record_of_def)
qed

lemma set_safe_candidates:
  assumes inv: "manager_inv m"
  shows "set (safe_candidates (bm_store m)) = {i. has_block i m \<and> evictable (block_of i m)}"
proof (rule set_eqI)
  fix i
  have "i \<in> set (safe_candidates (bm_store m)) \<longleftrightarrow>
      (\<exists>r \<in> set (bs_records (bm_store m)). evictable r \<and> i = br_id r)"
    by (auto simp: safe_candidates_def)
  also have "\<dots> \<longleftrightarrow> (\<exists>j. has_block j m \<and> evictable (block_of j m) \<and> i = br_id (block_of j m))"
    using record_in_store [OF manager_invD(2) [OF inv]] manager_invD(2) [OF inv]
    by (fastforce simp: record_of_def in_store_def store_inv_def)
  also have "\<dots> \<longleftrightarrow> has_block i m \<and> evictable (block_of i m)"
    using block_named [OF inv] by (auto simp: evictable_def)
  finally show "i \<in> set (safe_candidates (bm_store m)) \<longleftrightarrow> i \<in> {i. has_block i m \<and> evictable (block_of i m)}"
    by simp
qed

lemma takeable_code:
  "manager_inv m \<Longrightarrow>
   takeable t m = set (filter (\<lambda>i. br_tier (block_of i m) = t) (safe_candidates (bm_store m)))"
  by (auto simp: takeable_def set_safe_candidates)

lemma filter_tier_eq:
  "\<forall>i \<in> set is. in_store i s \<Longrightarrow> filter_tier s t is = Inr (filter (\<lambda>i. br_tier (record_of i s) = t) is)"
  by (induction "is") auto

lemma build_features_ok:
  assumes "index_wf x" "in_store i s"
  shows "\<exists>f. build_features s x i now = Inr f \<and> bf_id f = i"
proof -
  obtain n k where "block_child_count i x = Some n" "block_descendant_count i x = Some k"
    using counts_return [OF assms(1)] by blast
  with assms(2) show ?thesis by (auto simp: build_features_def defined_or_def Let_def)
qed

lemma build_all_features:
  assumes "index_wf x" "\<forall>i \<in> set is. in_store i s"
  shows "\<exists>fs. outcome_map (\<lambda>i. build_features s x i now) is = Inr fs \<and> map bf_id fs = is"
  using assms(2)
proof (induction "is")
  case (Cons i "is")
  then obtain fs where "outcome_map (\<lambda>i. build_features s x i now) is = Inr fs" "map bf_id fs = is" by auto
  moreover obtain f where "build_features s x i now = Inr f" "bf_id f = i"
    using build_features_ok [OF assms(1), of i s now] Cons.prems by auto
  ultimately show ?case by simp
qed simp

section \<open>One victim\<close>

text \<open>The blocks \<open>vs\<close> are gone: their records are free, their paths empty, everything else is as before.\<close>

definition evicted :: "block_id list \<Rightarrow> cache_core \<Rightarrow> cache_core \<Rightarrow> bool" where
  "evicted vs c d \<longleftrightarrow> cache_inv d \<and>
     block_at (cc_index d) = fold drop_block vs (block_at (cc_index c)) \<and>
     index_bs (cc_index d) = index_bs (cc_index c) \<and>
     node_count (cc_index d) = node_count (cc_index c) \<and>
     bs_capacity (bm_store (cc_manager d)) = bs_capacity (bm_store (cc_manager c)) \<and>
     (\<forall>j. has_block j (cc_manager c) \<longrightarrow> block_of j (cc_manager d) =
        (if j \<in> set vs then (block_of j (cc_manager c))\<lparr>br_state := Free\<rparr> else block_of j (cc_manager c))) \<and>
     bp_free (bm_pool (cc_manager d)) = bp_free (bm_pool (cc_manager c)) @ vs"

lemma evictedD:
  assumes "evicted vs c d"
  shows "cache_inv d" "block_at (cc_index d) = fold drop_block vs (block_at (cc_index c))"
    "index_bs (cc_index d) = index_bs (cc_index c)" "node_count (cc_index d) = node_count (cc_index c)"
    "has_block j (cc_manager d) = has_block j (cc_manager c)"
    "has_block j (cc_manager c) \<Longrightarrow> block_of j (cc_manager d) =
        (if j \<in> set vs then (block_of j (cc_manager c))\<lparr>br_state := Free\<rparr> else block_of j (cc_manager c))"
    "bp_free (bm_pool (cc_manager d)) = bp_free (bm_pool (cc_manager c)) @ vs"
    "bs_capacity (bm_store (cc_manager d)) = bs_capacity (bm_store (cc_manager c))"
  using assms by (simp_all add: evicted_def in_store_def)

lemma evicted_none: "cache_inv c \<Longrightarrow> evicted [] c c"
  by (simp add: evicted_def)

lemma evicted_trans:
  assumes "evicted vs c d" "evicted ws d e"
  shows "evicted (vs @ ws) c e"
  using evictedD [OF assms(1)] assms(2) unfolding evicted_def by (auto simp: in_store_def)

lemma removed_manager:
  assumes inv: "manager_inv m" "unready_unpinned m" and v: "has_block v m" "evictable (block_of v m)"
  obtains p where "manager_transition v Ready Evicting m = (Inr (), set_block_state v Evicting m)"
    "manager_transition v Evicting Free (set_block_state v Evicting m) =
      (Inr (), (set_block_state v Free m)\<lparr>bm_pool := p\<rparr>)"
    "manager_inv ((set_block_state v Free m)\<lparr>bm_pool := p\<rparr>)"
    "unready_unpinned ((set_block_state v Free m)\<lparr>bm_pool := p\<rparr>)"
    "bp_free p = bp_free (bm_pool m) @ [v]"
proof -
  let ?m1 = "set_block_state v Evicting m"
  have "transition_guard v Ready Evicting m" using v by (simp add: transition_guard_def evictable_def)
  then have t1: "manager_transition v Ready Evicting m = (Inr (), ?m1)"
    by (simp add: manager_transition_guard)
  note i1 = manager_inv_transition [OF inv, of Ready v Evicting, OF _ t1]
  have st: "br_state (block_of v ?m1) = Evicting"
    using v(1) by (simp add: set_block_state_def record_of_put_record manager_invD(2) [OF inv(1)])
  have g: "transition_guard v Evicting Free ?m1"
    using v(1) st by (simp add: transition_guard_def set_block_state_def)
  have same: "set_block_state v Free ?m1 = set_block_state v Free m"
    using v(1) by (simp add: set_block_state_def put_block_def record_of_put_record manager_invD(2) [OF inv(1)])
  have m1: "manager_inv ?m1" "unready_unpinned ?m1" using i1 by simp_all
  have pool: "bm_pool ?m1 = bm_pool m" by (simp add: set_block_state_def)
  from m1(1) g show thesis
  proof (rule manager_transition_Free)
    fix p assume p: "pool_free v (bm_pool ?m1) = (Inr (), p)"
      "manager_transition v Evicting Free ?m1 = (Inr (), (set_block_state v Free ?m1)\<lparr>bm_pool := p\<rparr>)"
    note i2 = manager_inv_transition [OF m1, of Evicting v Free, OF _ p(2)]
    show thesis
      by (rule that [OF t1]) (use p i2 pool_free_okD(4) [OF p(1)] same pool in simp_all)
  qed
qed

lemma evict_victim_ok:
  assumes inv: "cache_inv c" and v: "has_block v (cc_manager c)" "evictable (block_of v (cc_manager c))"
  shows "\<exists>d. evict_victim pol cands now v c = (Inr (), d) \<and> evicted [v] c d \<and>
    cc_events d = record_event (Block_evicted v (ep_name pol) now) (cc_events c) \<and>
    cc_decisions d = log_decision (Eviction_decision \<lparr>ed_chosen_block = v, ed_policy_name = ep_name pol,
      ed_candidates = cands, ed_timestamp_ns = now\<rparr>) (cc_decisions c)"
proof -
  let ?m = "cc_manager c"
  note ci = cache_invD [OF inv]
  from ci(1,2) v obtain p where t: "manager_transition v Ready Evicting ?m = (Inr (), set_block_state v Evicting ?m)"
    "manager_transition v Evicting Free (set_block_state v Evicting ?m) =
      (Inr (), (set_block_state v Free ?m)\<lparr>bm_pool := p\<rparr>)"
    "manager_inv ((set_block_state v Free ?m)\<lparr>bm_pool := p\<rparr>)"
    "unready_unpinned ((set_block_state v Free ?m)\<lparr>bm_pool := p\<rparr>)"
    "bp_free p = bp_free (bm_pool ?m) @ [v]" by (rule removed_manager)
  obtain y where y: "index_remove v (cc_index c) = Some y" "index_wf y"
    "index_bs y = index_bs (cc_index c)" "node_count y = node_count (cc_index c)"
    "block_at y = drop_block v (block_at (cc_index c))"
    using index_remove_refines [OF ci(3), of v] by blast
  let ?ev = "Block_evicted v (ep_name pol) now"
  let ?dec = "Eviction_decision \<lparr>ed_chosen_block = v, ed_policy_name = ep_name pol,
      ed_candidates = cands, ed_timestamp_ns = now\<rparr>"
  define d where "d = emit_decision ?dec (emit_event ?ev
    (c\<lparr>cc_index := y, cc_manager := (set_block_state v Free ?m)\<lparr>bm_pool := p\<rparr>\<rparr>))"
  have run: "evict_victim pol cands now v c = (Inr (), d)"
    using ci(4) y(1) t(1,2)
    by (simp add: evict_victim_def on_manager_def on_index_def on_member_def engine_remove_block_def
        manager_free_block_def d_def return_with_def)
  have mi: "cc_manager d = (set_block_state v Free ?m)\<lparr>bm_pool := p\<rparr>" "cc_index d = y" "cc_tiers d = None"
    using ci(4) by (simp_all add: d_def emit_event_def emit_decision_def)
  have blk: "block_of j (cc_manager d) =
      (if j = v then (block_of v ?m)\<lparr>br_state := Free\<rparr> else block_of j ?m)" for j
    using v(1) by (simp add: mi set_block_state_def record_of_put_record manager_invD(2) [OF ci(1)])
  have has: "has_block j (cc_manager d) = has_block j ?m" for j
    by (simp add: mi set_block_state_def)
  have "cache_inv d"
    unfolding cache_inv_def using t(3,4) y(2,5) ci(5-7) has blk mi block_size_eq [OF y(3)]
    by (auto simp: drop_block_def split: if_splits)
  then have "evicted [v] c d"
    using y t(5) mi blk by (simp add: evicted_def) (simp add: set_block_state_def)
  with run show ?thesis by (simp add: d_def emit_event_def emit_decision_def)
qed

section \<open>One round and the loop\<close>

text \<open>The choice of a round, from the manager and the index alone.\<close>

definition pick_victim ::
  "eviction_policy \<Rightarrow> tier \<Rightarrow> u64 \<Rightarrow> block_manager \<Rightarrow> prefix_index \<Rightarrow> (block_id list \<times> block_id) option outcome" where
  "pick_victim pol t now m x =
     (let all_candidates = safe_candidates (bm_store m) in
      if all_candidates = [] then Inr None
      else case filter_tier (bm_store m) t all_candidates of
        Inl e \<Rightarrow> Inl e
      | Inr candidates \<Rightarrow>
          if candidates = [] then Inr None
          else case outcome_map (\<lambda>i. build_features (bm_store m) x i now) candidates of
            Inl e \<Rightarrow> Inl e
          | Inr features \<Rightarrow> Inr (map_option (Pair candidates) (ep_choose_victim pol
              \<lparr>ec_tier = t, ec_needed_bytes = 0, ec_timestamp_ns = now\<rparr> features)))"

lemma evict_one_eq:
  "evict_one pol t now c =
     (case pick_victim pol t now (cc_manager c) (cc_index c) of
        Inl e \<Rightarrow> throw e c
      | Inr None \<Rightarrow> return_with False c
      | Inr (Some (candidates, v)) \<Rightarrow>
          and_then (evict_victim pol candidates now v c) (\<lambda>_ c1. return_with True c1))"
  by (simp add: evict_one_def pick_victim_def Let_def split: sum.split option.split)

lemma pick_victim_ok:
  assumes inv: "manager_inv m" "index_wf x" and pol: "candidate_eviction (ep_choose_victim pol)"
  shows "(pick_victim pol t now m x = Inr None \<and>
      (takeable t m = {} \<or> (\<exists>ctx fs. fs \<noteq> [] \<and> ep_choose_victim pol ctx fs = None))) \<or>
    (\<exists>candidates v. pick_victim pol t now m x = Inr (Some (candidates, v)) \<and> v \<in> takeable t m)"
proof -
  let ?s = "bm_store m"
  let ?all = "safe_candidates ?s"
  let ?cands = "filter (\<lambda>i. br_tier (record_of i ?s) = t) ?all"
  let ?ctx = "\<lparr>ec_tier = t, ec_needed_bytes = 0, ec_timestamp_ns = now\<rparr>"
  note all = set_safe_candidates [OF inv(1)]
  have cands: "set ?cands = takeable t m" using all by (auto simp: takeable_def)
  have in_all: "\<forall>i \<in> set ?all. in_store i ?s" using all by auto
  then have "\<forall>i \<in> set ?cands. in_store i ?s" by auto
  from build_all_features [OF inv(2) this, of now] obtain fs where
    fs: "outcome_map (\<lambda>i. build_features ?s x i now) ?cands = Inr fs" "map bf_id fs = ?cands" by blast
  show ?thesis
  proof (cases "?cands = []")
    case True
    then have "pick_victim pol t now m x = Inr None"
      using filter_tier_eq [OF in_all, of t] by (simp add: pick_victim_def Let_def)
    then show ?thesis using True cands by simp
  next
    case False
    then have ne: "?all \<noteq> []" "fs \<noteq> []" using fs(2) by auto
    have pick: "pick_victim pol t now m x = Inr (map_option (Pair ?cands) (ep_choose_victim pol ?ctx fs))"
      using filter_tier_eq [OF in_all, of t] fs(1) False ne(1) by (simp add: pick_victim_def Let_def)
    show ?thesis
    proof (cases "ep_choose_victim pol ?ctx fs")
      case None
      then show ?thesis using pick ne(2) by auto
    next
      case (Some v)
      then have "v \<in> takeable t m"
        using candidate_eviction.victim_is_candidate [OF pol Some] fs(2) unfolding cands [symmetric]
        by (metis list.set_map)
      with pick Some show ?thesis by simp
    qed
  qed
qed

lemma evict_one_ok:
  assumes inv: "cache_inv c" and pol: "candidate_eviction (ep_choose_victim pol)"
  shows "(evict_one pol t now c = (Inr False, c) \<and>
      (takeable t (cc_manager c) = {} \<or> (\<exists>ctx fs. fs \<noteq> [] \<and> ep_choose_victim pol ctx fs = None))) \<or>
    (\<exists>v d. evict_one pol t now c = (Inr True, d) \<and> v \<in> takeable t (cc_manager c) \<and> evicted [v] c d \<and>
      cc_events d = record_event (Block_evicted v (ep_name pol) now) (cc_events c))"
proof -
  consider (none) "pick_victim pol t now (cc_manager c) (cc_index c) = Inr None"
      "takeable t (cc_manager c) = {} \<or> (\<exists>ctx fs. fs \<noteq> [] \<and> ep_choose_victim pol ctx fs = None)"
    | (some) cands v where "pick_victim pol t now (cc_manager c) (cc_index c) = Inr (Some (cands, v))"
      "v \<in> takeable t (cc_manager c)"
    using pick_victim_ok [OF cache_invD(1,3) [OF inv] pol, of t now] by blast
  then show ?thesis
  proof cases
    case none
    then show ?thesis by (simp add: evict_one_eq return_with_def)
  next
    case some
    then obtain d where d: "evict_victim pol cands now v c = (Inr (), d)" "evicted [v] c d"
      "cc_events d = record_event (Block_evicted v (ep_name pol) now) (cc_events c)"
      using evict_victim_ok [OF inv, of v pol cands now] by (auto simp: takeable_def)
    with some show ?thesis by (auto simp: evict_one_eq return_with_def)
  qed
qed

lemma takeable_evicted:
  assumes "evicted vs c d"
  shows "takeable t (cc_manager d) = takeable t (cc_manager c) - set vs"
  using evictedD(5,6) [OF assms] by (auto simp: takeable_def evictable_def split: if_splits)

text \<open>What \<open>makeSpace\<close> promises: the victims were takeable and are distinct, the count is theirs, and
  it reports success exactly when it evicted what was asked.\<close>

lemma make_space_loop_ok:
  assumes "cache_inv c" and pol: "candidate_eviction (ep_choose_victim pol)"
  shows "\<exists>vs r d. make_space_loop pol t now left n c = (Inr r, d) \<and> evicted vs c d \<and> distinct vs \<and>
    set vs \<subseteq> takeable t (cc_manager c) \<and> es_evicted_count r = n + of_nat (length vs) \<and>
    length vs \<le> left \<and> (es_status r = Space_made \<longleftrightarrow> length vs = left) \<and>
    cc_events d = fold (\<lambda>v. record_event (Block_evicted v (ep_name pol) now)) vs (cc_events c) \<and>
    (length vs < left \<longrightarrow> takeable t (cc_manager d) = {} \<or>
       (\<exists>ctx fs. fs \<noteq> [] \<and> ep_choose_victim pol ctx fs = None))"
  using assms(1)
proof (induction left arbitrary: n c)
  case 0
  then show ?case by (intro exI [of _ "[]"]) (simp add: return_with_def evicted_none)
next
  case (Suc left)
  from evict_one_ok [OF Suc.prems pol, of t now] consider
    (stop) "evict_one pol t now c = (Inr False, c)"
      "takeable t (cc_manager c) = {} \<or> (\<exists>ctx fs. fs \<noteq> [] \<and> ep_choose_victim pol ctx fs = None)"
  | (go) v d where "evict_one pol t now c = (Inr True, d)" "v \<in> takeable t (cc_manager c)"
      "evicted [v] c d" "cc_events d = record_event (Block_evicted v (ep_name pol) now) (cc_events c)"
    by blast
  then show ?case
  proof cases
    case stop
    then show ?thesis
      by (intro exI [of _ "[]"]) (simp add: return_with_def evicted_none [OF Suc.prems])
  next
    case d: (go v d)
    obtain vs r e where e: "make_space_loop pol t now left (n + 1) d = (Inr r, e)" "evicted vs d e" "distinct vs"
      "set vs \<subseteq> takeable t (cc_manager d)" "es_evicted_count r = n + 1 + of_nat (length vs)"
      "length vs \<le> left" "es_status r = Space_made \<longleftrightarrow> length vs = left"
      "cc_events e = fold (\<lambda>v. record_event (Block_evicted v (ep_name pol) now)) vs (cc_events d)"
      "length vs < left \<longrightarrow> takeable t (cc_manager e) = {} \<or>
         (\<exists>ctx fs. fs \<noteq> [] \<and> ep_choose_victim pol ctx fs = None)"
      using Suc.IH [OF evictedD(1) [OF d(3)], of "n + 1"] by blast
    have "evicted (v # vs) c e" using evicted_trans [OF d(3) e(2)] by simp
    moreover have "set (v # vs) \<subseteq> takeable t (cc_manager c)" "distinct (v # vs)"
      using d(2) e(3,4) takeable_evicted [OF d(3), of t] by auto
    ultimately show ?thesis
      using d(1,4) e by (intro exI [of _ "v # vs"] exI [of _ r] exI [of _ e]) (auto simp: add.assoc)
  qed
qed

section \<open>Properties\<close>

text \<open>C5: making space is safe with any eviction policy that picks one of the candidates it is shown. On a
  consistent cache without tiers, \<open>makeSpace\<close> ends without an exception and leaves the cache
  consistent. It evicts distinct blocks, at most as many as asked, all of them ready, unpinned and in
  the requested tier: their slots return to the free list, their paths leave the index, their
  \<open>BlockEvicted\<close> events are recorded in order, and no other record or indexed path changes. It
  reports success exactly when it evicted the number asked for.\<close>

theorem make_space_evicts_only_takeable:
  assumes "cache_inv c" "candidate_eviction (ep_choose_victim pol)"
  shows "\<exists>vs r d. make_space pol req c = (Inr r, d) \<and> evicted vs c d \<and> distinct vs \<and>
    set vs \<subseteq> takeable (ms_tier req) (cc_manager c) \<and>
    es_evicted_count r = of_nat (length vs) \<and> length vs \<le> unat (ms_blocks_needed req) \<and>
    (es_status r = Space_made \<longleftrightarrow> length vs = unat (ms_blocks_needed req)) \<and>
    cc_events d = fold (\<lambda>v. record_event (Block_evicted v (ep_name pol) (ms_timestamp_ns req))) vs (cc_events c)"
  using make_space_loop_ok [OF assms, of "ms_tier req" "ms_timestamp_ns req" "unat (ms_blocks_needed req)" 0]
  unfolding make_space_def add_0 by blast

text \<open>A cache of two slots, one of which holds a ready block that nothing pins.\<close>

definition demo_core :: cache_core where
  "demo_core = (make_core 2 2 None (In_memory_event_sink []) Null_decision_logger)\<lparr>cc_manager := demo_manager\<rparr>"

definition demo_request :: "u32 \<Rightarrow> make_space_request" where
  "demo_request n = \<lparr>ms_blocks_needed = n, ms_timestamp_ns = 9, ms_tier = GpuSim\<rparr>"

lemma demo_core:
  "cache_inv demo_core" "takeable GpuSim (cc_manager demo_core) = {0}"
proof -
  show inv: "cache_inv demo_core"
    using demo_manager_inv
    by (simp add: cache_inv_def demo_core_def make_core_def index_wf_make_index block_at_make_index)
  have "filter (\<lambda>i. br_tier (block_of i (cc_manager demo_core)) = GpuSim)
      (safe_candidates (bm_store (cc_manager demo_core))) = [0]" by code_simp
  then show "takeable GpuSim (cc_manager demo_core) = {0}"
    using takeable_code [OF cache_invD(1) [OF inv], of GpuSim] by simp
qed

theorem make_space_evicts_only_takeable_witness:
  "\<exists>vs r d. make_space lru_eviction (demo_request 2) demo_core = (Inr r, d) \<and> evicted vs demo_core d \<and>
     set vs \<subseteq> {0} \<and> es_evicted_count r = of_nat (length vs) \<and> es_status r = Insufficient_candidates"
proof -
  have "candidate_eviction (ep_choose_victim lru_eviction)"
    by (simp add: lru_eviction_def lru.candidate_eviction_axioms)
  from make_space_evicts_only_takeable [OF demo_core(1) this, of "demo_request 2"]
  obtain vs r d where r: "make_space lru_eviction (demo_request 2) demo_core = (Inr r, d)"
    "evicted vs demo_core d" "distinct vs" "set vs \<subseteq> {0}" "es_evicted_count r = of_nat (length vs)"
    "es_status r = Space_made \<longleftrightarrow> length vs = 2"
    by (auto simp: demo_request_def demo_core(2))
  have "length vs \<le> 1" using distinct_card [OF r(3)] card_mono [OF _ r(4)] by simp
  with r have "es_status r = Insufficient_candidates" by (cases "es_status r") auto
  with r show ?thesis by blast
qed

text \<open>C7: making space succeeds whenever it can. With a policy that always picks a victim when it is shown
  one (least recently used, or least score), \<open>makeSpace\<close> reports success exactly when the
  tier holds at least as many ready, unpinned blocks as were asked for.\<close>

theorem make_space_succeeds_iff_enough:
  assumes "cache_inv c" "ranked_eviction (ep_choose_victim pol) rank"
  shows "\<exists>r d. make_space pol req c = (Inr r, d) \<and>
    (es_status r = Space_made \<longleftrightarrow>
       unat (ms_blocks_needed req) \<le> card (takeable (ms_tier req) (cc_manager c)))"
proof -
  let ?t = "ms_tier req" and ?n = "unat (ms_blocks_needed req)" and ?m = "cc_manager c"
  have pol: "candidate_eviction (ep_choose_victim pol)" using assms(2) by (simp add: ranked_eviction_def)
  have evicts: "ep_choose_victim pol ctx fs \<noteq> None" if "fs \<noteq> []" for ctx fs
    using ranked_eviction.evicts [OF assms(2) that] .
  obtain vs r d where run: "make_space pol req c = (Inr r, d)" and d: "evicted vs c d" "distinct vs"
    "set vs \<subseteq> takeable ?t ?m" "length vs \<le> ?n" "es_status r = Space_made \<longleftrightarrow> length vs = ?n"
    "length vs < ?n \<longrightarrow> takeable ?t (cc_manager d) = {} \<or>
       (\<exists>ctx fs. fs \<noteq> [] \<and> ep_choose_victim pol ctx fs = None)"
    using make_space_loop_ok [OF assms(1) pol, of ?t "ms_timestamp_ns req" ?n 0]
    unfolding make_space_def add_0 by blast
  have fin: "finite (takeable ?t ?m)"
    by (simp add: takeable_code [OF cache_invD(1) [OF assms(1)]])
  have "?n \<le> card (takeable ?t ?m)" if "length vs = ?n"
    using card_mono [OF fin d(3)] distinct_card [OF d(2)] that by simp
  moreover have "card (takeable ?t ?m) < ?n" if lt: "length vs \<noteq> ?n"
  proof -
    have "takeable ?t (cc_manager d) = {}" using d(4,6) lt evicts by (metis le_neq_implies_less)
    then have "takeable ?t ?m = set vs" using takeable_evicted [OF d(1), of ?t] d(3) by auto
    then show ?thesis using distinct_card [OF d(2)] d(4) lt by simp
  qed
  ultimately have "es_status r = Space_made \<longleftrightarrow> ?n \<le> card (takeable ?t ?m)" using d(5) by fastforce
  with run show ?thesis by blast
qed

theorem make_space_succeeds_iff_enough_witness:
  "(\<exists>r d. make_space lru_eviction (demo_request 1) demo_core = (Inr r, d) \<and> es_status r = Space_made) \<and>
   (\<exists>r d. make_space lru_eviction (demo_request 2) demo_core = (Inr r, d) \<and> es_status r \<noteq> Space_made)"
proof -
  have "ranked_eviction (ep_choose_victim lru_eviction) bf_last_access_ns"
    by (simp add: lru_eviction_def lru.ranked_eviction_axioms)
  note t = make_space_succeeds_iff_enough [OF demo_core(1) this]
  from t [of "demo_request 1"] t [of "demo_request 2"]
  show ?thesis by (auto simp: demo_request_def demo_core(2))
qed

end
