(* ===== verification/Admission.thy ===== *)
theory Admission
  imports Eviction
begin

text \<open>
  Lookup and admission on a consistent cache without tiers: the lookup engine pins the longest cached
  prefix, and an admitted block is found by the next lookup. The last section shows what goes wrong
  when an admission evicts an ancestor of the block it admits.
\<close>

section \<open>Lookup\<close>

definition pin_block :: "u64 \<Rightarrow> block_id \<Rightarrow> block_manager \<Rightarrow> block_manager" where
  "pin_block now i m = put_block i (pinned now (block_of i m)) m"

lemma pin_block_simps:
  assumes "manager_inv m" "has_block i m"
  shows "has_block j (pin_block now i m) = has_block j m"
    "block_of j (pin_block now i m) = (if j = i then pinned now (block_of i m) else block_of j m)"
    "bm_pool (pin_block now i m) = bm_pool m"
  using assms by (simp_all add: pin_block_def record_of_put_record manager_invD)

lemma unready_unpinned_pin:
  assumes "manager_inv m" "has_block i m" "br_state (block_of i m) = Ready" "unready_unpinned m"
  shows "unready_unpinned (pin_block now i m)"
  using assms(3,4) pin_block_simps [OF assms(1,2)] by (auto simp: unready_unpinned_def)

text \<open>The blocks of a list that can be pinned: ready, and of the asked block size.\<close>

definition usable :: "u32 \<Rightarrow> block_manager \<Rightarrow> block_id \<Rightarrow> bool" where
  "usable bs m i \<longleftrightarrow> has_block i m \<and> br_state (block_of i m) = Ready \<and> br_token_count (block_of i m) = ucast bs"

lemma usable_generation:
  assumes "manager_inv m" "usable bs m i"
  shows "br_generation (block_of i m) \<noteq> 0"
proof -
  have live: "pool_live (bm_pool m) i" using assms by (intro ready_live) (auto simp: usable_def)
  with assms manager_invD(4) [OF assms(1), of i] pool_live_gen [OF manager_invD(1) [OF assms(1)] live]
  show ?thesis by (auto simp: slot_agrees_def usable_def)
qed

lemma acquire_usable:
  "manager_inv m \<Longrightarrow> usable bs m i \<Longrightarrow>
   manager_acquire now i m = return_with (Some (Some (store_slot i))) (pin_block now i m)"
  by (simp add: manager_acquire_eq pin_block_def usable_generation) (simp add: usable_def)

lemma usable_pin:
  "manager_inv m \<Longrightarrow> usable bs m i \<Longrightarrow> usable bs (pin_block now i m) j = usable bs m j"
  by (auto simp: usable_def pin_block_simps)

lemma engine_loop_ok:
  assumes "manager_inv m" "unready_unpinned m" "\<forall>i \<in> set is. usable bs m i"
  shows "engine_loop now bs is r m = (Inr (r\<lparr>er_handles := er_handles r @ map (\<lambda>i. Some (store_slot i)) is,
      er_matched_tokens := er_matched_tokens r + of_nat (length is) * bs\<rparr>), fold (pin_block now) is m) \<and>
    manager_inv (fold (pin_block now) is m) \<and> unready_unpinned (fold (pin_block now) is m) \<and>
    (\<forall>j. has_block j (fold (pin_block now) is m) = has_block j m) \<and>
    (\<forall>j. br_state (block_of j (fold (pin_block now) is m)) = br_state (block_of j m) \<and>
      br_token_count (block_of j (fold (pin_block now) is m)) = br_token_count (block_of j m) \<and>
      br_refcount (block_of j (fold (pin_block now) is m)) = br_refcount (block_of j m) + of_nat (count_list is j))"
  using assms
proof (induction "is" arbitrary: r m)
  case Nil
  then show ?case by (simp add: return_with_def)
next
  case (Cons i "is")
  let ?m = "pin_block now i m"
  have u: "usable bs m i" "has_block i m" "br_state (block_of i m) = Ready"
    using Cons.prems(3) by (auto simp: usable_def)
  note pin = pin_block_simps [OF Cons.prems(1) u(2)]
  have inv: "manager_inv ?m" using manager_inv_pinned [OF Cons.prems(1) u(2)] u(3) by (simp add: pin_block_def)
  have unp: "unready_unpinned ?m" by (rule unready_unpinned_pin [OF Cons.prems(1) u(2,3) Cons.prems(2)])
  have us: "\<forall>j \<in> set is. usable bs ?m j"
    using Cons.prems(3) usable_pin [OF Cons.prems(1) u(1)] by auto
  have md: "handle_metadata (Some (store_slot i)) (bm_store ?m) = Inr (pinned now (block_of i m))"
    using pin(2) by (simp add: handle_metadata_def record_of_def)
  let ?r = "r\<lparr>er_handles := er_handles r @ [Some (store_slot i)], er_matched_tokens := er_matched_tokens r + bs\<rparr>"
  have "engine_loop now bs (i # is) r m = engine_loop now bs is ?r ?m"
    using acquire_usable [OF Cons.prems(1) u(1), of now] md u(1)
    by (simp add: usable_def return_with_def del: pinned_simps(7)) (simp add: usable_def)
  with Cons.IH [OF inv unp us, of ?r] show ?case
    by (auto simp: pin algebra_simps)
qed

text \<open>The index's answer on a consistent cache.\<close>

abbreviation found_blocks :: "cache_core \<Rightarrow> context_hash \<Rightarrow> token_id list \<Rightarrow> block_id list" where
  "found_blocks c ctx toks \<equiv> prefix_blocks (index_bs (cc_index c)) (block_at (cc_index c)) ctx toks 0"

lemma raw_lookup_ok: "index_wf x \<Longrightarrow> raw_lookup_blocks ctx toks x = Inr (prefix_blocks (index_bs x) (block_at x) ctx toks 0)"
  using px.lookup_law [of x ctx toks] by (auto simp: raw_lookup_blocks_def defined_or_def split: option.splits)

lemma found_indexed:
  assumes "index_wf x" "i \<in> set (prefix_blocks (index_bs x) (block_at x) ctx toks 0)"
  obtains p where "block_at x ctx p = Some i"
proof -
  from assms(2) obtain k where k: "k < length (prefix_blocks (index_bs x) (block_at x) ctx toks 0)"
    "prefix_blocks (index_bs x) (block_at x) ctx toks 0 ! k = i" by (auto simp: in_set_conv_nth)
  with px.lookup_sound(1) [OF assms(1) px.lookup_law [OF assms(1)] k(1)] that show thesis by metis
qed

lemma found_usable:
  assumes "cache_inv c" "i \<in> set (found_blocks c ctx toks)"
  shows "usable (px_block_size (cc_index c)) (cc_manager c) i"
proof -
  obtain p where "block_at (cc_index c) ctx p = Some i"
    by (rule found_indexed [OF cache_invD(3) [OF assms(1)] assms(2)])
  with cache_invD(5-7) [OF assms(1)] show ?thesis by (simp add: usable_def)
qed

lemma engine_lookup_ok:
  assumes "cache_inv c" "bs = px_block_size (cc_index c)"
  shows "engine_lookup now ctx toks bs (cc_index c) (cc_manager c) =
      (Inr \<lparr>er_handles = map (\<lambda>i. Some (store_slot i)) (found_blocks c ctx toks),
        er_matched_tokens = of_nat (length (found_blocks c ctx toks)) * bs\<rparr>,
       fold (pin_block now) (found_blocks c ctx toks) (cc_manager c))"
    "cache_inv (c\<lparr>cc_manager := fold (pin_block now) (found_blocks c ctx toks) (cc_manager c)\<rparr>)"
    "br_state (block_of j (fold (pin_block now) (found_blocks c ctx toks) (cc_manager c))) =
       br_state (block_of j (cc_manager c))"
    "br_refcount (block_of j (fold (pin_block now) (found_blocks c ctx toks) (cc_manager c))) =
       br_refcount (block_of j (cc_manager c)) + of_nat (count_list (found_blocks c ctx toks) j)"
proof -
  note ci = cache_invD [OF assms(1)]
  have us: "\<forall>i \<in> set (found_blocks c ctx toks). usable bs (cc_manager c) i"
    using found_usable [OF assms(1)] assms(2) by blast
  note loop = engine_loop_ok [OF ci(1,2) us, of now "\<lparr>er_handles = [], er_matched_tokens = 0\<rparr>"]
  then show "engine_lookup now ctx toks bs (cc_index c) (cc_manager c) =
      (Inr \<lparr>er_handles = map (\<lambda>i. Some (store_slot i)) (found_blocks c ctx toks),
        er_matched_tokens = of_nat (length (found_blocks c ctx toks)) * bs\<rparr>,
       fold (pin_block now) (found_blocks c ctx toks) (cc_manager c))"
    by (simp add: engine_lookup_def raw_lookup_ok [OF ci(3)])
  show "cache_inv (c\<lparr>cc_manager := fold (pin_block now) (found_blocks c ctx toks) (cc_manager c)\<rparr>)"
    using loop ci by (simp add: cache_inv_def)
qed (use engine_loop_ok [OF cache_invD(1,2) [OF assms(1)], of "found_blocks c ctx toks" bs now]
      found_usable [OF assms(1)] assms(2) in blast)+

text \<open>C8: a lookup through the engine returns a handle on every block of the longest cached prefix, in order,
  and counts their tokens. It takes exactly one reference on each of them, changes no state and
  leaves the cache consistent; it cannot throw.\<close>

theorem engine_lookup_pins_prefix:
  assumes "cache_inv c" "bs = px_block_size (cc_index c)"
  shows "\<exists>m. engine_lookup now ctx toks bs (cc_index c) (cc_manager c) =
      (Inr \<lparr>er_handles = map (\<lambda>i. Some (store_slot i)) (found_blocks c ctx toks),
        er_matched_tokens = of_nat (length (found_blocks c ctx toks)) * bs\<rparr>, m) \<and>
    cache_inv (c\<lparr>cc_manager := m\<rparr>) \<and>
    (\<forall>j. br_state (block_of j m) = br_state (block_of j (cc_manager c)) \<and>
      br_refcount (block_of j m) = br_refcount (block_of j (cc_manager c)) +
        of_nat (count_list (found_blocks c ctx toks) j))"
  using engine_lookup_ok [OF assms] by blast

text \<open>Two slots and blocks of four tokens; the block in slot 0 is indexed.\<close>

definition demo_lookup_core :: cache_core where
  "demo_lookup_core = (make_core 2 4 None Null_event_sink Null_decision_logger)
     \<lparr>cc_manager := demo_manager, cc_index := the (index_insert 7 [1, 2, 3, 4] [0] (make_index 4))\<rparr>"

lemma demo_lookup_core:
  "cache_inv demo_lookup_core" "index_bs (cc_index demo_lookup_core) = 4"
  "block_at (cc_index demo_lookup_core) c p = (if c = 7 \<and> p = [1, 2, 3, 4] then Some 0 else None)"
proof -
  have bs: "index_bs (make_index 4) = 4" by (simp add: index_bs_def make_index_def)
  have "insertable (make_index 4) 7 [1, 2, 3, 4] [0]" by code_simp
  from index_insert_refines [OF index_wf_make_index this] bs
  obtain y where y: "index_insert 7 [1, 2, 3, 4] [0] (make_index 4) = Some y" "index_wf y" "index_bs y = 4"
    "block_at y = put_blocks 4 7 [1, 2, 3, 4] 0 [0] (block_at (make_index 4))" by auto
  have at: "block_at y c p = (if c = 7 \<and> p = [1, 2, 3, 4] then Some 0 else None)" for c p
    by (simp add: y(4) block_at_make_index put_absent_def)
  have "px_block_size y = 4" using y(3) by (simp add: index_bs_def word_unat_eq_iff)
  moreover have "has_block 0 demo_manager \<and> br_state (block_of 0 demo_manager) = Ready \<and>
      br_token_count (block_of 0 demo_manager) = 4" by code_simp
  ultimately show "cache_inv demo_lookup_core"
    using demo_manager_inv y(2) at
    by (auto simp: cache_inv_def demo_lookup_core_def y(1) make_core_def split: if_splits)
  show "index_bs (cc_index demo_lookup_core) = 4"
    "block_at (cc_index demo_lookup_core) c p = (if c = 7 \<and> p = [1, 2, 3, 4] then Some 0 else None)"
    by (simp_all add: demo_lookup_core_def y(1,3) at)
qed

theorem engine_lookup_pins_prefix_witness:
  "\<exists>r m. engine_lookup 5 7 [1, 2, 3, 4, 5, 6] 4 (cc_index demo_lookup_core) (cc_manager demo_lookup_core) = (Inr r, m) \<and>
     er_handles r = [Some 0] \<and> er_matched_tokens r = 4"
proof -
  have found: "found_blocks demo_lookup_core 7 [1, 2, 3, 4, 5, 6] = [0]"
    by (simp add: prefix_blocks_def demo_lookup_core(2,3) upt_conv_Cons)
  have "(4 :: u32) = px_block_size (cc_index demo_lookup_core)"
    using demo_lookup_core(2) by (simp add: index_bs_def word_unat_eq_iff)
  from engine_lookup_pins_prefix [OF demo_lookup_core(1) this, of 5 7 "[1, 2, 3, 4, 5, 6]", unfolded found]
  show ?thesis by (auto simp: store_slot_def)
qed

section \<open>A new slot\<close>

lemma free_length: "pool_inv p \<Longrightarrow> length (bp_free p) < 2 ^ 32"
proof -
  assume inv: "pool_inv p"
  have "slot_of ` set (bp_free p) \<subseteq> {..<unat (bp_capacity p)}" using inv by (auto simp: pool_inv_def)
  then have "card (slot_of ` set (bp_free p)) \<le> unat (bp_capacity p)"
    using card_mono [of "{..<unat (bp_capacity p)}"] by fastforce
  moreover have "card (slot_of ` set (bp_free p)) = length (bp_free p)"
    using inv by (simp add: card_image inj_on_def pool_inv_def distinct_card)
  ultimately show ?thesis using unat_u32_lt [of "bp_capacity p"] by simp
qed

lemma available_zero: "manager_inv m \<Longrightarrow> manager_available m = 0 \<longleftrightarrow> bp_free (bm_pool m) = []"
  using free_length [OF manager_invD(1)] of_nat_u32_eq_0
  by (auto simp: manager_available_def pool_available_def)

text \<open>The blocks some handle pins are left alone.\<close>

definition pins_kept :: "cache_core \<Rightarrow> cache_core \<Rightarrow> bool" where
  "pins_kept c d \<longleftrightarrow> (\<forall>j. has_block j (cc_manager c) \<and> br_refcount (block_of j (cc_manager c)) \<noteq> 0 \<longrightarrow>
     has_block j (cc_manager d) \<and> block_of j (cc_manager d) = block_of j (cc_manager c))"

lemma pins_kept_trans: "pins_kept c d \<Longrightarrow> pins_kept d e \<Longrightarrow> pins_kept c e"
  by (simp add: pins_kept_def)

lemma pins_kept_same: "cc_manager d = cc_manager c \<Longrightarrow> pins_kept c d"
  by (simp add: pins_kept_def)

lemma pins_kept_evicted: "evicted vs c d \<Longrightarrow> set vs \<subseteq> takeable t (cc_manager c) \<Longrightarrow> pins_kept c d"
  by (auto simp: pins_kept_def evictedD takeable_def evictable_def)

lemma create_block_ok:
  assumes inv: "cache_inv c" and free: "bp_free (bm_pool (cc_manager c)) \<noteq> []"
  shows "\<exists>i g m. manager_create_block h idx count t (cc_manager c) = (Inr (Some (i, g)), m) \<and>
    cache_inv (c\<lparr>cc_manager := m\<rparr>) \<and> has_block i m \<and> block_of i m = new_record i g h idx count t \<and>
    (\<forall>ctx p. block_at (cc_index c) ctx p \<noteq> Some i) \<and> pins_kept c (c\<lparr>cc_manager := m\<rparr>) \<and>
    br_state (block_of i (cc_manager c)) = Free \<and>
    bp_free (bm_pool m) = butlast (bp_free (bm_pool (cc_manager c))) \<and>
    (\<forall>j. has_block j m = has_block j (cc_manager c)) \<and>
    (\<forall>j. j \<noteq> i \<longrightarrow> block_of j m = block_of j (cc_manager c))"
proof -
  let ?m = "cc_manager c"
  note ci = cache_invD [OF inv]
  from ci(1) show ?thesis
  proof (cases rule: manager_create_block_cases [of ?m h idx count t])
    case full
    with free show ?thesis by simp
  next
    case (created i g p)
    let ?m' = "put_block i (new_record i g h idx count t) (?m\<lparr>bm_pool := p\<rparr>)"
    have has: "has_block j ?m' = has_block j ?m" for j by simp
    have blk: "block_of j ?m' = (if j = i then new_record i g h idx count t else block_of j ?m)" for j
      using record_of_put_record [OF manager_invD(2) [OF ci(1)] created(3)] by simp
    have free_state: "br_state (block_of i ?m) = Free"
      using manager_invD(4) [OF ci(1) created(3)] created(2) by (auto simp: slot_agrees_def)
    have notin: "block_at (cc_index c) ctx p \<noteq> Some i" for ctx p
      using ci(6) [of ctx p i] free_state by auto
    have "manager_inv ?m'" by (rule manager_inv_create_block [OF ci(1) created(10)])
    moreover have "unready_unpinned ?m'"
      using ci(2) blk has by (simp add: unready_unpinned_def new_record_def)
    ultimately have "cache_inv (c\<lparr>cc_manager := ?m'\<rparr>)"
      using ci notin blk has by (auto simp: cache_inv_def)
    moreover have "has_block i ?m'" using has created(3) by blast
    moreover have "block_of i ?m' = new_record i g h idx count t" unfolding blk by (rule if_P) (rule refl)
    moreover have "pins_kept c (c\<lparr>cc_manager := ?m'\<rparr>)"
      using ci(2) free_state created(3) blk has by (auto simp: pins_kept_def unready_unpinned_def)
    moreover have "bp_free (bm_pool ?m') = butlast (bp_free (bm_pool ?m))"
      using pool_allocate_SomeD(5) [OF created(1)] by simp
    moreover have "j \<noteq> i \<longrightarrow> block_of j ?m' = block_of j ?m" for j unfolding blk by simp
    ultimately show ?thesis using created(10) notin has free_state by (intro exI conjI allI)
  qed
qed

section \<open>Admission of a new block\<close>

text \<open>The candidate's ancestors, and the state once the block \<open>i\<close> is indexed at its path and ready.\<close>

lemma found_nth:
  assumes "index_wf x" "k < length (prefix_blocks (index_bs x) (block_at x) ctx toks 0)"
  shows "block_at x ctx (take (Suc k * index_bs x) toks) = Some (prefix_blocks (index_bs x) (block_at x) ctx toks 0 ! k)"
  using px.lookup_sound(1) [OF assms(1) px.lookup_law [OF assms(1)] assms(2)] .

lemma found_distinct:
  assumes "index_wf x"
  shows "distinct (prefix_blocks (index_bs x) (block_at x) ctx toks 0)"
proof (rule distinct_conv_nth [THEN iffD2], intro allI impI)
  let ?f = "prefix_blocks (index_bs x) (block_at x) ctx toks 0"
  fix k l assume kl: "k < length ?f" "l < length ?f" "k \<noteq> l"
  have len: "length (take (Suc j * index_bs x) toks) = Suc j * index_bs x" if "j < length ?f" for j
    using px.lookup_sound(2) [OF assms px.lookup_law [OF assms] that] by (simp del: mult_Suc)
  have "Suc k * index_bs x \<noteq> Suc l * index_bs x" using kl(3) px.block_size [OF assms] by simp
  then have "take (Suc k * index_bs x) toks \<noteq> take (Suc l * index_bs x) toks"
    using len [OF kl(1)] len [OF kl(2)] by metis
  then show "?f ! k \<noteq> ?f ! l"
    using block_at_inject(2) [OF assms found_nth [OF assms kl(1)], of ctx "take (Suc l * index_bs x) toks"]
      found_nth [OF assms kl(2)] by metis
qed

lemma insert_new_block:
  assumes wf: "index_wf x" and fresh: "\<forall>c p. block_at x c p \<noteq> Some i"
    and size: "length toks = Suc idx * index_bs x"
    and anc: "\<forall>k < idx. block_at x ctx (take (Suc k * index_bs x) toks) = Some (existing ! k)"
    and len: "length existing = idx" and dist: "distinct existing" and new: "block_at x ctx toks = None"
    and room: "node_count x + 2 * Suc idx < invalid_node"
  shows "\<exists>y. index_insert ctx toks (existing @ [i]) x = Some y \<and> index_wf y \<and> index_bs y = index_bs x \<and>
    node_count y \<le> node_count x + 2 * Suc idx + 1 \<and>
    block_at y = (block_at x)(ctx := (block_at x ctx)(toks \<mapsto> i))"
proof -
  from wf obtain lab where lab: "labelled x lab" by (auto simp: index_wf_def)
  have unindexed: "map_of (px_block_node x) i = None" using block_node_dom [OF lab] fresh by blast
  have ifr: "i \<notin> set existing"
  proof
    assume "i \<in> set existing"
    then obtain k where "k < idx" "existing ! k = i" using len by (auto simp: in_set_conv_nth)
    with anc fresh show False by blast
  qed
  have ins: "insertable x ctx toks (existing @ [i])"
    unfolding insertable_def list_all_iff
  proof (intro conjI ballI impI)
    fix k assume k: "k \<in> set [0..<length (existing @ [i])]"
      and none: "block_at x ctx (take (Suc k * index_bs x) toks) = None"
    have "k = idx" using k none anc len by (cases "k < idx") auto
    then show "map_of (px_block_node x) ((existing @ [i]) ! k) = None"
      using unindexed len by (metis nth_append_length)
  qed (use room size len dist ifr in simp_all)
  obtain y where y: "index_insert ctx toks (existing @ [i]) x = Some y" "index_wf y" "index_bs y = index_bs x"
    "block_at y = put_blocks (index_bs x) ctx toks 0 (existing @ [i]) (block_at x)"
    "node_count y \<le> node_count x + 2 * Suc idx + 1"
    using index_insert_refines [OF wf ins] len by auto
  have B: "0 < index_bs x" by (rule px.block_size [OF wf])
  have "block_at y c q = ((block_at x)(ctx := (block_at x ctx)(toks \<mapsto> i))) c q" for c q
  proof -
    have "block_at y c q = (if c = ctx \<and> block_at x c q = None \<and>
        (\<exists>k < Suc idx. q = take (Suc k * index_bs x) toks)
        then Some ((existing @ [i]) ! (length q div index_bs x - 1)) else block_at x c q)"
      unfolding y(4) using len size by (subst put_blocks_apply [OF B]) (auto simp del: mult_Suc)
    also have "\<dots> = (if c = ctx \<and> q = toks then Some i else block_at x c q)"
    proof (cases "c = ctx \<and> q = toks")
      case True
      have "\<exists>k < Suc idx. toks = take (Suc k * index_bs x) toks" using size by (intro exI [of _ idx]) simp
      moreover have "length toks div index_bs x = Suc idx" using B size by (metis div_mult_self_is_m)
      ultimately show ?thesis using True new len by (simp add: nth_append)
    next
      case False
      have "\<not> (c = ctx \<and> block_at x c q = None \<and> (\<exists>k < Suc idx. q = take (Suc k * index_bs x) toks))"
      proof
        assume "c = ctx \<and> block_at x c q = None \<and> (\<exists>k < Suc idx. q = take (Suc k * index_bs x) toks)"
        then obtain k where k: "c = ctx" "block_at x ctx q = None" "k < Suc idx"
          "q = take (Suc k * index_bs x) toks" by blast
        then have "k = idx" using anc by (cases "k < idx") auto
        with k(1,4) size False show False by simp
      qed
      then show ?thesis unfolding if_not_P [OF False] by (rule if_not_P)
    qed
    finally show ?thesis by simp
  qed
  with y(1-3,5) show ?thesis by blast
qed

lemma finish_block:
  assumes inv: "cache_inv c" and i: "has_block i (cc_manager c)" "br_state (block_of i (cc_manager c)) = Admitting"
    "br_refcount (block_of i (cc_manager c)) = 0"
    "br_token_count (block_of i (cc_manager c)) = ucast (px_block_size (cc_index c))"
    and y: "index_wf y" "index_bs y = index_bs (cc_index c)"
      "block_at y = (block_at (cc_index c))(ctx := (block_at (cc_index c) ctx)(toks \<mapsto> i))"
  shows "\<exists>m. manager_transition i Admitting Ready (cc_manager c) = (Inr (), m) \<and>
    cache_inv (c\<lparr>cc_manager := m, cc_index := y\<rparr>) \<and> usable (px_block_size (cc_index c)) m i \<and>
    block_of i m = (block_of i (cc_manager c))\<lparr>br_state := Ready\<rparr> \<and>
    (\<forall>j. has_block j m = has_block j (cc_manager c)) \<and>
    (\<forall>j. j \<noteq> i \<longrightarrow> block_of j m = block_of j (cc_manager c))"
proof -
  let ?m = "cc_manager c" and ?n = "set_block_state i Ready (cc_manager c)"
  note ci = cache_invD [OF inv]
  have g: "transition_guard i Admitting Ready ?m" using i by (simp add: transition_guard_def)
  then have run: "manager_transition i Admitting Ready ?m = (Inr (), ?n)" by (simp add: manager_transition_guard)
  have inv': "manager_inv ?n" "unready_unpinned ?n" using manager_inv_transition [OF ci(1,2) _ run] by simp_all
  have blk: "block_of j ?n = (if j = i then (block_of i ?m)\<lparr>br_state := Ready\<rparr> else block_of j ?m)" for j
    using record_of_put_record [OF manager_invD(2) [OF ci(1)] i(1)] by (simp add: set_block_state_def)
  have has: "has_block j ?n = has_block j ?m" for j by (simp add: set_block_state_def)
  have "cache_inv (c\<lparr>cc_manager := ?n, cc_index := y\<rparr>)"
    using inv' y ci(4-7) i blk has block_size_eq [OF y(2)] by (auto simp: cache_inv_def split: if_splits)
  moreover have "usable (px_block_size (cc_index c)) ?n i" using i(1,4) blk has by (simp add: usable_def)
  ultimately show ?thesis using run blk has by auto
qed

text \<open>The new block in the cache: indexed at its path, ready, pinned once by the returned handle.\<close>

definition cached_as ::
  "block_id \<Rightarrow> context_hash \<Rightarrow> block_candidate \<Rightarrow> prefix_map \<Rightarrow> cache_core \<Rightarrow> bool" where
  "cached_as i ctx cand m d \<longleftrightarrow> cache_inv d \<and>
     block_at (cc_index d) = m(ctx := (m ctx)(bc_tokens cand \<mapsto> i)) \<and>
     has_block i (cc_manager d) \<and> br_state (block_of i (cc_manager d)) = Ready \<and>
     br_refcount (block_of i (cc_manager d)) = 1 \<and>
     br_hash (block_of i (cc_manager d)) = bc_hash cand \<and>
     br_block_index (block_of i (cc_manager d)) = bc_block_index cand"

text \<open>The last part of \<open>admit\<close> on a block that was just created.\<close>

lemma admit_placed_ok:
  assumes inv: "cache_inv c" and i: "has_block i (cc_manager c)" "br_state (block_of i (cc_manager c)) = Admitting"
      "br_refcount (block_of i (cc_manager c)) = 0"
      "br_token_count (block_of i (cc_manager c)) = ucast (px_block_size (cc_index c))"
    and fresh: "\<forall>ctx p. block_at (cc_index c) ctx p \<noteq> Some i"
    and size: "length (bc_tokens cand) = Suc idx * index_bs (cc_index c)"
    and anc: "\<forall>k < idx. block_at (cc_index c) ctx (take (Suc k * index_bs (cc_index c)) (bc_tokens cand)) =
      Some (existing ! k)"
    and len: "length existing = idx" and dist: "distinct existing"
    and new: "block_at (cc_index c) ctx (bc_tokens cand) = None"
    and room: "node_count (cc_index c) + 2 * Suc idx < invalid_node"
  shows "\<exists>d. admit_new_block now cfg ctx cand stamp t existing i c =
      (Inr \<lparr>as_status = Admitted, as_handle = Some (Some (store_slot i))\<rparr>, d) \<and> cache_inv d \<and>
    block_at (cc_index d) = (block_at (cc_index c))(ctx := (block_at (cc_index c) ctx)(bc_tokens cand \<mapsto> i)) \<and>
    index_bs (cc_index d) = index_bs (cc_index c) \<and>
    node_count (cc_index d) \<le> node_count (cc_index c) + 2 * Suc idx + 1 \<and>
    cc_events d = record_event (Block_admitted i ctx t (bc_origin cand) stamp) (cc_events c) \<and>
    bm_pool (cc_manager d) = bm_pool (cc_manager c) \<and>
    (\<forall>j. has_block j (cc_manager d) = has_block j (cc_manager c)) \<and>
    (\<forall>j. block_of j (cc_manager d) = (if j = i
       then pinned now ((block_of i (cc_manager c))\<lparr>br_state := Ready\<rparr>) else block_of j (cc_manager c)))"
proof -
  let ?m = "cc_manager c"
  obtain y where y: "index_insert ctx (bc_tokens cand) (existing @ [i]) (cc_index c) = Some y" "index_wf y"
    "index_bs y = index_bs (cc_index c)"
    "block_at y = (block_at (cc_index c))(ctx := (block_at (cc_index c) ctx)(bc_tokens cand \<mapsto> i))"
    "node_count y \<le> node_count (cc_index c) + 2 * Suc idx + 1"
    using insert_new_block [OF cache_invD(3) [OF inv] fresh size anc len dist new room] by blast
  obtain n where n: "manager_transition i Admitting Ready ?m = (Inr (), n)"
    "cache_inv (c\<lparr>cc_manager := n, cc_index := y\<rparr>)" "usable (px_block_size (cc_index c)) n i"
    "block_of i n = (block_of i ?m)\<lparr>br_state := Ready\<rparr>" "\<forall>j. has_block j n = has_block j ?m"
    "\<forall>j. j \<noteq> i \<longrightarrow> block_of j n = block_of j ?m"
    using finish_block [OF inv i y(2-4)] by blast
  have "n = set_block_state i Ready ?m"
    using n(1) i(1,2) by (simp add: manager_transition_guard transition_guard_def)
  then have pool: "bm_pool n = bm_pool ?m" by (simp add: set_block_state_def)
  let ?ev = "Block_admitted i ctx t (bc_origin cand) stamp"
  let ?d = "(emit_event ?ev (c\<lparr>cc_manager := n, cc_index := y\<rparr>))\<lparr>cc_manager := pin_block now i n\<rparr>"
  note ci = cache_invD [OF n(2)]
  have nm: "manager_inv n" "unready_unpinned n" using ci(1,2) by simp_all
  have hr: "has_block i n" "br_state (block_of i n) = Ready" using n(3) by (simp_all add: usable_def)
  note pin = pin_block_simps [OF nm(1) hr(1), where now = now]
  have "admit_new_block now cfg ctx cand stamp t existing i c =
      (Inr \<lparr>as_status = Admitted, as_handle = Some (Some (store_slot i))\<rparr>, ?d)"
    using cache_invD(4) [OF inv] y(1) n(1) acquire_usable [OF nm(1) n(3), of now]
    by (simp add: admit_new_block_def insert_full_blocks_def on_index_def on_manager_def on_member_def
        return_with_def emit_event_def Let_def)
  moreover have "cache_inv ?d"
  proof -
    have "manager_inv (pin_block now i n)" using manager_inv_pinned [OF nm(1) hr(1)] hr(2) by (simp add: pin_block_def)
    moreover have "unready_unpinned (pin_block now i n)" by (rule unready_unpinned_pin [OF nm(1) hr nm(2)])
    ultimately show ?thesis using ci(3-7) pin by (simp add: cache_inv_def emit_event_def)
  qed
  ultimately show ?thesis
    using y(3-5) n(4-6) pin pool by (intro exI [of _ ?d]) (simp add: emit_event_def)
qed

text \<open>What an admission of block \<open>i\<close> that evicted \<open>vs\<close> leaves beside the new block.\<close>

definition admitted_frame ::
  "admission_config \<Rightarrow> u64 \<Rightarrow> tier \<Rightarrow> block_id \<Rightarrow> block_id list \<Rightarrow> context_hash \<Rightarrow> block_candidate \<Rightarrow>
   cache_core \<Rightarrow> cache_core \<Rightarrow> bool" where
  "admitted_frame cfg stamp t i vs ctx cand c d \<longleftrightarrow>
     Suc (length (bp_free (bm_pool (cc_manager d)))) = length (bp_free (bm_pool (cc_manager c))) + length vs \<and>
     cc_events d = record_event (Block_admitted i ctx t (bc_origin cand) stamp)
       (fold (\<lambda>v. record_event (Block_evicted v (ep_name (ag_eviction cfg)) stamp)) vs (cc_events c)) \<and>
     (\<forall>j. has_block j (cc_manager d) = has_block j (cc_manager c)) \<and>
     (\<forall>j. has_block j (cc_manager c) \<and> j \<noteq> i \<and> j \<notin> set vs \<longrightarrow>
        block_of j (cc_manager d) = block_of j (cc_manager c)) \<and>
     br_tier (block_of i (cc_manager d)) = t"

lemma admit_new_block_ok:
  assumes inv: "cache_inv c" and free: "bp_free (bm_pool (cc_manager c)) \<noteq> []"
    and bs: "ag_block_size cfg = px_block_size (cc_index c)"
    and size: "length (bc_tokens cand) = Suc idx * index_bs (cc_index c)"
    and anc: "\<forall>k < idx. block_at (cc_index c) ctx (take (Suc k * index_bs (cc_index c)) (bc_tokens cand)) =
      Some (existing ! k)"
    and len: "length existing = idx" and dist: "distinct existing"
    and new: "block_at (cc_index c) ctx (bc_tokens cand) = None"
    and room: "node_count (cc_index c) + 2 * Suc idx < invalid_node"
  shows "\<exists>i g m d. manager_create_block (bc_hash cand) (bc_block_index cand) (ucast (ag_block_size cfg)) t
        (cc_manager c) = (Inr (Some (i, g)), m) \<and>
    admit_new_block now cfg ctx cand stamp t existing i (c\<lparr>cc_manager := m\<rparr>) =
      (Inr \<lparr>as_status = Admitted, as_handle = Some (Some (store_slot i))\<rparr>, d) \<and>
    cached_as i ctx cand (block_at (cc_index c)) d \<and> index_bs (cc_index d) = index_bs (cc_index c) \<and>
    node_count (cc_index d) \<le> node_count (cc_index c) + 2 * Suc idx + 1 \<and> pins_kept c d \<and>
    admitted_frame cfg stamp t i [] ctx cand c d"
proof -
  obtain i g m where m: "manager_create_block (bc_hash cand) (bc_block_index cand) (ucast (ag_block_size cfg)) t
      (cc_manager c) = (Inr (Some (i, g)), m)" "cache_inv (c\<lparr>cc_manager := m\<rparr>)" "has_block i m"
    "block_of i m = new_record i g (bc_hash cand) (bc_block_index cand) (ucast (ag_block_size cfg)) t"
    "\<forall>ctx p. block_at (cc_index c) ctx p \<noteq> Some i" "pins_kept c (c\<lparr>cc_manager := m\<rparr>)"
    "bp_free (bm_pool m) = butlast (bp_free (bm_pool (cc_manager c)))"
    "\<forall>j. has_block j m = has_block j (cc_manager c)" "\<forall>j. j \<noteq> i \<longrightarrow> block_of j m = block_of j (cc_manager c)"
    using create_block_ok [OF inv free] by blast
  let ?c = "c\<lparr>cc_manager := m\<rparr>"
  have rec: "br_state (block_of i m) = Admitting" "br_refcount (block_of i m) = 0"
    "br_token_count (block_of i m) = ucast (px_block_size (cc_index c))"
    using bs by (simp_all add: m(4) new_record_def)
  obtain d where d: "admit_new_block now cfg ctx cand stamp t existing i ?c =
      (Inr \<lparr>as_status = Admitted, as_handle = Some (Some (store_slot i))\<rparr>, d)" "cache_inv d"
    "block_at (cc_index d) = (block_at (cc_index c))(ctx := (block_at (cc_index c) ctx)(bc_tokens cand \<mapsto> i))"
    "index_bs (cc_index d) = index_bs (cc_index c)"
    "node_count (cc_index d) \<le> node_count (cc_index c) + 2 * Suc idx + 1"
    "cc_events d = record_event (Block_admitted i ctx t (bc_origin cand) stamp) (cc_events c)"
    "bm_pool (cc_manager d) = bm_pool m" "\<forall>j. has_block j (cc_manager d) = has_block j m"
    "\<forall>j. block_of j (cc_manager d) = (if j = i then pinned now ((block_of i m)\<lparr>br_state := Ready\<rparr>) else block_of j m)"
    using admit_placed_ok [OF m(2) _ _ _ _ _ _ _ len dist, of i cand ctx now cfg stamp t] m(3,5) rec size anc new room
    by (simp del: mult_Suc cong del: if_weak_cong) blast
  have "cached_as i ctx cand (block_at (cc_index c)) d"
    using d(2,3,8,9) m(3,4) by (simp add: cached_as_def new_record_def)
  moreover have "admitted_frame cfg stamp t i [] ctx cand c d"
    using d(6-9) m(3,4,7-9) free by (simp add: admitted_frame_def new_record_def)
  moreover have "pins_kept c d" unfolding pins_kept_def
  proof (intro allI impI)
    fix j assume j: "has_block j (cc_manager c) \<and> br_refcount (block_of j (cc_manager c)) \<noteq> 0"
    with m(6) have jm: "has_block j m" "block_of j m = block_of j (cc_manager c)" by (auto simp: pins_kept_def)
    with j rec(2) have "j \<noteq> i" by auto
    with jm d(8,9) show "has_block j (cc_manager d) \<and> block_of j (cc_manager d) = block_of j (cc_manager c)" by simp
  qed
  ultimately show ?thesis using m(1) d(1,4,5) by blast
qed

section \<open>The whole admission\<close>

text \<open>The space an admission makes: none while a slot is free, one block otherwise.\<close>

lemma room_for_one:
  assumes inv: "cache_inv c" and pol: "candidate_eviction (ep_choose_victim pol)"
  shows "\<exists>ok vs d. and_then (make_space pol \<lparr>ms_blocks_needed = 1, ms_timestamp_ns = stamp, ms_tier = t\<rparr> c)
      (\<lambda>r c1. return_with (es_status r = Space_made) c1) = (Inr ok, d) \<and> evicted vs c d \<and>
    set vs \<subseteq> takeable t (cc_manager c) \<and> (ok \<longleftrightarrow> vs \<noteq> []) \<and> length vs \<le> 1 \<and>
    cc_events d = fold (\<lambda>v. record_event (Block_evicted v (ep_name pol) stamp)) vs (cc_events c) \<and>
    (\<not> ok \<longrightarrow> takeable t (cc_manager c) = {} \<or> (\<exists>ctx fs. fs \<noteq> [] \<and> ep_choose_victim pol ctx fs = None))"
proof -
  obtain vs r d where r: "make_space_loop pol t stamp 1 0 c = (Inr r, d)" "evicted vs c d" "distinct vs"
    "set vs \<subseteq> takeable t (cc_manager c)" "length vs \<le> 1" "es_status r = Space_made \<longleftrightarrow> length vs = 1"
    "cc_events d = fold (\<lambda>v. record_event (Block_evicted v (ep_name pol) stamp)) vs (cc_events c)"
    "length vs < 1 \<longrightarrow> takeable t (cc_manager d) = {} \<or> (\<exists>ctx fs. fs \<noteq> [] \<and> ep_choose_victim pol ctx fs = None)"
    using make_space_loop_ok [OF inv pol, of t stamp 1 0] by blast
  then have "make_space pol \<lparr>ms_blocks_needed = 1, ms_timestamp_ns = stamp, ms_tier = t\<rparr> c = (Inr r, d)"
    by (simp add: make_space_def)
  moreover have "es_status r = Space_made \<longleftrightarrow> vs \<noteq> []" using r(5,6) by (cases vs) auto
  moreover have "vs = [] \<longrightarrow> takeable t (cc_manager d) = takeable t (cc_manager c)"
    using takeable_evicted [OF r(2), of t] by simp
  ultimately show ?thesis using r(2,4,5,7,8) by (auto simp: return_with_def)
qed

lemma fold_drop_block:
  "fold drop_block vs m ctx p = (case m ctx p of Some b \<Rightarrow> if b \<in> set vs then None else Some b | None \<Rightarrow> None)"
  by (induction vs arbitrary: m) (auto simp: drop_block_def split: option.splits)

text \<open>No ancestor of the candidate can be evicted: a slot is free, or handles pin all of them.\<close>

definition ancestors_safe :: "block_id list \<Rightarrow> cache_core \<Rightarrow> bool" where
  "ancestors_safe existing c \<longleftrightarrow> bp_free (bm_pool (cc_manager c)) \<noteq> [] \<or>
     list_all (\<lambda>b. br_refcount (block_of b (cc_manager c)) \<noteq> 0) existing"

lemma admit_with_space_ok:
  assumes inv: "cache_inv c" and pol: "candidate_eviction (ep_choose_victim (ag_eviction cfg))"
    and bs: "ag_block_size cfg = px_block_size (cc_index c)"
    and size: "length (bc_tokens cand) = Suc idx * index_bs (cc_index c)"
    and anc: "\<forall>k < idx. block_at (cc_index c) ctx (take (Suc k * index_bs (cc_index c)) (bc_tokens cand)) =
      Some (existing ! k)"
    and len: "length existing = idx" and dist: "distinct existing"
    and new: "block_at (cc_index c) ctx (bc_tokens cand) = None"
    and room: "node_count (cc_index c) + 2 * Suc idx < invalid_node"
    and safe: "ancestors_safe existing c"
  shows "\<exists>r d. admit_with_space now cfg ctx cand stamp t existing c = (Inr r, d) \<and>
    pins_kept c d \<and> node_count (cc_index d) \<le> node_count (cc_index c) + 2 * Suc idx + 1 \<and>
    ((as_status r = CapacityExceeded \<and> as_handle r = None \<and> evicted [] c d \<and>
        bp_free (bm_pool (cc_manager c)) = [] \<and> (takeable t (cc_manager c) = {} \<or>
          (\<exists>ctx fs. fs \<noteq> [] \<and> ep_choose_victim (ag_eviction cfg) ctx fs = None))) \<or>
     (\<exists>i vs. as_status r = Admitted \<and> as_handle r = Some (Some (store_slot i)) \<and>
        set vs \<subseteq> takeable t (cc_manager c) \<and> (\<forall>k < idx. existing ! k \<notin> set vs) \<and>
        cached_as i ctx cand (fold drop_block vs (block_at (cc_index c))) d \<and>
        index_bs (cc_index d) = index_bs (cc_index c) \<and>
        length vs = (if bp_free (bm_pool (cc_manager c)) = [] then 1 else 0) \<and>
        admitted_frame cfg stamp t i vs ctx cand c d))"
proof -
  let ?req = "\<lparr>ms_blocks_needed = 1, ms_timestamp_ns = stamp, ms_tier = t\<rparr>"
  let ?free = "bp_free (bm_pool (cc_manager c))"
  note ci = cache_invD [OF inv]
  obtain ok vs c1 where made: "(if manager_available (cc_manager c) = 0
      then and_then (make_space (ag_eviction cfg) ?req c) (\<lambda>r c1. return_with (es_status r = Space_made) c1)
      else return_with True c) = (Inr ok, c1)"
    and c1: "evicted vs c c1" "set vs \<subseteq> takeable t (cc_manager c)"
      "?free \<noteq> [] \<Longrightarrow> vs = []" "ok \<longleftrightarrow> ?free \<noteq> [] \<or> vs \<noteq> []" "length vs \<le> 1"
      "cc_events c1 = fold (\<lambda>v. record_event (Block_evicted v (ep_name (ag_eviction cfg)) stamp)) vs (cc_events c)"
      "\<not> ok \<longrightarrow> takeable t (cc_manager c) = {} \<or>
        (\<exists>ctx fs. fs \<noteq> [] \<and> ep_choose_victim (ag_eviction cfg) ctx fs = None)"
  proof (cases "?free = []")
    case True
    then have z: "manager_available (cc_manager c) = 0" using available_zero [OF ci(1)] by simp
    from room_for_one [OF inv pol, of stamp t] obtain ok vs d where
      "and_then (make_space (ag_eviction cfg) ?req c) (\<lambda>r c1. return_with (es_status r = Space_made) c1) = (Inr ok, d)"
      "evicted vs c d" "set vs \<subseteq> takeable t (cc_manager c)" "ok \<longleftrightarrow> vs \<noteq> []" "length vs \<le> 1"
      "cc_events d = fold (\<lambda>v. record_event (Block_evicted v (ep_name (ag_eviction cfg)) stamp)) vs (cc_events c)"
      "\<not> ok \<longrightarrow> takeable t (cc_manager c) = {} \<or>
        (\<exists>ctx fs. fs \<noteq> [] \<and> ep_choose_victim (ag_eviction cfg) ctx fs = None)" by blast
    with that [of ok d vs] True z show thesis by simp
  next
    case False
    then have "manager_available (cc_manager c) \<noteq> 0" using available_zero [OF ci(1)] by simp
    with that [of True c "[]"] False show thesis by (simp add: evicted_none [OF inv] return_with_def)
  qed
  note unfolded = admit_with_space_def [of now cfg ctx cand stamp t existing c] ci(4) Let_def
  show ?thesis
  proof (cases ok)
    case False
    then have none: "?free = []" "vs = []" using c1(4) by auto
    have "admit_with_space now cfg ctx cand stamp t existing c = (Inr (admit_failed CapacityExceeded), c1)"
      using made False by (simp add: unfolded return_with_def)
    moreover have "pins_kept c c1" by (rule pins_kept_evicted [OF c1(1,2)])
    ultimately show ?thesis using none c1(1,7) False evictedD(4) [OF c1(1)] by (auto simp: admit_failed_def)
  next
    case True
    have free1: "bp_free (bm_pool (cc_manager c1)) \<noteq> []" using evictedD(7) [OF c1(1)] c1(4) True by auto
    have kept: "existing ! k \<notin> set vs" if "k < idx" for k
    proof
      assume v: "existing ! k \<in> set vs"
      then have "?free = []" using c1(3) by (cases "?free = []") auto
      then have "br_refcount (block_of (existing ! k) (cc_manager c)) \<noteq> 0"
        using safe that len by (simp add: ancestors_safe_def list_all_iff)
      with c1(2) v show False by (auto simp: takeable_def evictable_def)
    qed
    note e = evictedD [OF c1(1)]
    obtain i g m d where m: "manager_create_block (bc_hash cand) (bc_block_index cand) (ucast (ag_block_size cfg)) t
        (cc_manager c1) = (Inr (Some (i, g)), m)"
      "admit_new_block now cfg ctx cand stamp t existing i (c1\<lparr>cc_manager := m\<rparr>) =
        (Inr \<lparr>as_status = Admitted, as_handle = Some (Some (store_slot i))\<rparr>, d)"
      "cached_as i ctx cand (block_at (cc_index c1)) d" "index_bs (cc_index d) = index_bs (cc_index c1)"
      "node_count (cc_index d) \<le> node_count (cc_index c1) + 2 * Suc idx + 1" "pins_kept c1 d"
      "admitted_frame cfg stamp t i [] ctx cand c1 d"
    proof -
      have "\<exists>i g m d. manager_create_block (bc_hash cand) (bc_block_index cand) (ucast (ag_block_size cfg)) t
          (cc_manager c1) = (Inr (Some (i, g)), m) \<and>
        admit_new_block now cfg ctx cand stamp t existing i (c1\<lparr>cc_manager := m\<rparr>) =
          (Inr \<lparr>as_status = Admitted, as_handle = Some (Some (store_slot i))\<rparr>, d) \<and>
        cached_as i ctx cand (block_at (cc_index c1)) d \<and> index_bs (cc_index d) = index_bs (cc_index c1) \<and>
        node_count (cc_index d) \<le> node_count (cc_index c1) + 2 * Suc idx + 1 \<and> pins_kept c1 d \<and>
        admitted_frame cfg stamp t i [] ctx cand c1 d"
        by (rule admit_new_block_ok [where idx = idx])
          (use e(1-4) free1 bs size anc len dist new room kept block_size_eq [OF e(3)]
            in \<open>simp_all add: fold_drop_block del: mult_Suc\<close>)
      with that show thesis by blast
    qed
    have "admit_with_space now cfg ctx cand stamp t existing c =
        (Inr \<lparr>as_status = Admitted, as_handle = Some (Some (store_slot i))\<rparr>, d)"
      using made True m(1,2) by (simp add: unfolded on_manager_def on_member_def)
    moreover have "pins_kept c d"
      by (rule pins_kept_trans [OF pins_kept_evicted [OF c1(1,2)] m(6)])
    moreover have "admitted_frame cfg stamp t i vs ctx cand c d"
      using m(7) e(5-7) by (auto simp: admitted_frame_def c1(6))
    moreover have "length vs = (if ?free = [] then 1 else 0)"
      using c1(3,4,5) True by (cases vs) auto
    ultimately show ?thesis using m(3-5) c1(2) kept e(2-4) by auto
  qed
qed

lemma prefix_blocks_full:
  assumes "0 < bs" "length toks = length blocks * bs"
    and "\<forall>k < length blocks. m ctx (take (Suc k * bs) toks) = Some (blocks ! k)"
  shows "prefix_blocks bs m ctx toks 0 = blocks"
proof -
  have n: "length toks div bs = length blocks" using assms(1,2) by simp
  have "map (\<lambda>i. m ctx (take (Suc i * bs) toks)) [0..<length blocks] = map Some blocks"
    by (rule nth_equalityI) (use assms(3) in \<open>simp_all del: mult_Suc\<close>)
  moreover have "takeWhile (\<lambda>b. b \<noteq> None) (map Some blocks) = map Some blocks"
    by (simp add: takeWhile_eq_all_conv)
  ultimately show ?thesis unfolding prefix_blocks_def n by (simp only:) (simp add: o_def)
qed

text \<open>The candidate's ancestors as the first lookups of \<open>admit\<close> find them.\<close>

definition ancestors :: "context_hash \<Rightarrow> block_candidate \<Rightarrow> cache_core \<Rightarrow> block_id list" where
  "ancestors ctx cand c = found_blocks c ctx
     (take (unat (bc_block_index cand) * index_bs (cc_index c)) (bc_tokens cand))"

lemma ancestors_nth:
  assumes "cache_inv c" "k < length (ancestors ctx cand c)"
    "length (ancestors ctx cand c) = unat (bc_block_index cand)"
  shows "block_at (cc_index c) ctx (take (Suc k * index_bs (cc_index c)) (bc_tokens cand)) =
    Some (ancestors ctx cand c ! k)"
proof -
  have "Suc k * index_bs (cc_index c) \<le> unat (bc_block_index cand) * index_bs (cc_index c)"
    using assms(2,3) by (intro mult_le_mono1) simp
  with found_nth [OF cache_invD(3) [OF assms(1)] assms(2) [unfolded ancestors_def]]
  show ?thesis by (simp add: ancestors_def min_absorb1 del: mult_Suc)
qed

lemma index_bs_of_config:
  assumes "index_wf x" "bs = px_block_size x"
  shows "unat bs = index_bs x" "0 < index_bs x"
  using px.block_size [OF assms(1)] assms(2) by (simp_all add: index_bs_def)

text \<open>A candidate that is malformed, cached already or without its ancestors changes nothing.\<close>

definition admissible :: "context_hash \<Rightarrow> block_candidate \<Rightarrow> cache_core \<Rightarrow> bool" where
  "admissible ch cand c \<longleftrightarrow>
     length (bc_tokens cand) = Suc (unat (bc_block_index cand)) * index_bs (cc_index c) \<and>
     length (found_blocks c ch (bc_tokens cand)) \<noteq> Suc (unat (bc_block_index cand)) \<and>
     length (ancestors ch cand c) = unat (bc_block_index cand)"

lemma admit_eq:
  assumes wf: "index_wf (cc_index c)" and bs: "ag_block_size cfg = px_block_size (cc_index c)"
    and ch: "ch = compute_context_hash xxh64 (bc_context cand)"
  shows "admit xxh64 now cfg cand ctx c =
    (if admissible ch cand c
     then let features = candidate_features_of (ag_block_size cfg) cand;
            decision = ap_decide (ag_admission cfg) ctx features;
            c1 = emit_decision (Admission_record \<lparr>ar_admitted = (decision = Admit),
              ar_policy_name = ap_name (ag_admission cfg), ar_candidate_hash = bc_hash cand,
              ar_timestamp_ns = ac_timestamp_ns ctx\<rparr>) c
       in if decision = Reject then return_with (admit_failed Rejected) c1
          else admit_with_space now cfg ch cand (ac_timestamp_ns ctx)
            (choose_target_tier (ag_placement cfg) features (ac_timestamp_ns ctx) (cc_tiers c1))
            (ancestors ch cand c) c1
     else return_with (admit_failed
       (if length (bc_tokens cand) = Suc (unat (bc_block_index cand)) * index_bs (cc_index c) \<and>
           length (found_blocks c ch (bc_tokens cand)) = Suc (unat (bc_block_index cand))
        then AlreadyPresent else InvalidBlock)) c)"
proof -
  note B = index_bs_of_config [OF wf bs]
  note raw = raw_lookup_ok [OF wf]
  have anc_eq: "raw_lookup_blocks ch (take (unat (bc_block_index cand) * index_bs (cc_index c)) (bc_tokens cand))
      (cc_index c) = Inr (ancestors ch cand c)"
    by (simp add: raw ancestors_def)
  show ?thesis
    by (simp add: admit_def [of xxh64 now cfg cand ctx c] Let_def B(1) ch [symmetric] raw [of ch "bc_tokens cand"]
        anc_eq admissible_def)
qed

lemma admissible_new:
  assumes inv: "cache_inv c" and ok: "admissible ch cand c"
  shows "block_at (cc_index c) ch (bc_tokens cand) = None"
proof (rule ccontr)
  let ?anc = "ancestors ch cand c"
  note ok' = ok [unfolded admissible_def]
  assume "block_at (cc_index c) ch (bc_tokens cand) \<noteq> None"
  then obtain b where b: "block_at (cc_index c) ch (bc_tokens cand) = Some b" by blast
  have "found_blocks c ch (bc_tokens cand) = ?anc @ [b]"
    by (rule prefix_blocks_full [OF px.block_size [OF cache_invD(3) [OF inv]]])
      (use ok' ancestors_nth [OF inv] b in \<open>auto simp: nth_append less_Suc_eq simp del: mult_Suc\<close>)
  with ok' show False by simp
qed

text \<open>An admissible candidate: all that may happen.\<close>

lemma admit_ok:
  assumes inv: "cache_inv c" and pol: "candidate_eviction (ep_choose_victim (ag_eviction cfg))"
    and bs: "ag_block_size cfg = px_block_size (cc_index c)"
    and room: "node_count (cc_index c) + 2 * Suc (unat (bc_block_index cand)) < invalid_node"
    and ch: "ch = compute_context_hash xxh64 (bc_context cand)"
    and safe: "ancestors_safe (ancestors ch cand c) c"
    and ok: "admissible ch cand c"
  shows "\<exists>r d. admit xxh64 now cfg cand ctx c = (Inr r, d) \<and> cache_inv d \<and> pins_kept c d \<and>
    index_bs (cc_index d) = index_bs (cc_index c) \<and>
    node_count (cc_index d) \<le> node_count (cc_index c) + 2 * Suc (unat (bc_block_index cand)) + 1 \<and>
    ((as_status r = Rejected \<and> as_handle r = None \<and> cc_manager d = cc_manager c \<and> cc_index d = cc_index c \<and>
        ap_decide (ag_admission cfg) ctx (candidate_features_of (ag_block_size cfg) cand) = Reject) \<or>
     (as_status r = CapacityExceeded \<and> as_handle r = None \<and> evicted [] c d \<and> bp_free (bm_pool (cc_manager c)) = [] \<and>
        (takeable GpuSim (cc_manager c) = {} \<or>
          (\<exists>ctx fs. fs \<noteq> [] \<and> ep_choose_victim (ag_eviction cfg) ctx fs = None))) \<or>
     (\<exists>i vs. as_status r = Admitted \<and> as_handle r = Some (Some (store_slot i)) \<and>
        (\<forall>b \<in> set vs. br_refcount (block_of b (cc_manager c)) = 0) \<and> set vs \<subseteq> takeable GpuSim (cc_manager c) \<and>
        (\<forall>b \<in> set (ancestors ch cand c). b \<notin> set vs) \<and>
        cached_as i ch cand (fold drop_block vs (block_at (cc_index c))) d \<and>
        length vs = (if bp_free (bm_pool (cc_manager c)) = [] then 1 else 0) \<and>
        admitted_frame cfg (ac_timestamp_ns ctx) GpuSim i vs ch cand c d))"
proof -
  let ?idx = "unat (bc_block_index cand)" and ?B = "index_bs (cc_index c)" and ?toks = "bc_tokens cand"
  let ?anc = "ancestors ch cand c" and ?feat = "candidate_features_of (ag_block_size cfg) cand"
  note ci = cache_invD [OF inv] and ok' = ok [unfolded admissible_def]
  define c1 where "c1 = emit_decision (Admission_record
     \<lparr>ar_admitted = (ap_decide (ag_admission cfg) ctx ?feat = Admit),
      ar_policy_name = ap_name (ag_admission cfg), ar_candidate_hash = bc_hash cand,
      ar_timestamp_ns = ac_timestamp_ns ctx\<rparr>) c"
  define t where "t = choose_target_tier (ag_placement cfg) ?feat (ac_timestamp_ns ctx) (cc_tiers c1)"
  have same: "cc_manager c1 = cc_manager c" "cc_index c1 = cc_index c" "cc_tiers c1 = cc_tiers c"
    by (simp_all add: c1_def emit_decision_def)
  then have inv1: "cache_inv c1" by (rule cache_inv_same [OF inv])
  have run: "admit xxh64 now cfg cand ctx c =
      (if ap_decide (ag_admission cfg) ctx ?feat = Reject then return_with (admit_failed Rejected) c1
       else admit_with_space now cfg ch cand (ac_timestamp_ns ctx) t ?anc c1)"
    using ok by (simp add: admit_eq [OF cache_invD(3) [OF inv] bs ch] Let_def c1_def t_def)
  show ?thesis
  proof (cases "ap_decide (ag_admission cfg) ctx ?feat = Reject")
    case True
    with run same inv1 show ?thesis by (simp add: admit_failed_def return_with_def pins_kept_same)
  next
    case False
    have tier: "t = GpuSim"
      using same(3) ci(4) by (cases "ag_placement cfg") (simp_all add: t_def choose_target_tier_def)
    define none where "none \<longleftrightarrow> (\<exists>ctx fs. fs \<noteq> [] \<and> ep_choose_victim (ag_eviction cfg) ctx fs = None)"
    have "\<exists>r d. admit_with_space now cfg ch cand (ac_timestamp_ns ctx) t ?anc c1 = (Inr r, d) \<and>
     pins_kept c1 d \<and> node_count (cc_index d) \<le> node_count (cc_index c1) + 2 * Suc ?idx + 1 \<and>
     ((as_status r = CapacityExceeded \<and> as_handle r = None \<and> evicted [] c1 d \<and>
        bp_free (bm_pool (cc_manager c1)) = [] \<and> (takeable t (cc_manager c1) = {} \<or> none)) \<or>
     (\<exists>i vs. as_status r = Admitted \<and> as_handle r = Some (Some (store_slot i)) \<and>
        set vs \<subseteq> takeable t (cc_manager c1) \<and> (\<forall>k < ?idx. ?anc ! k \<notin> set vs) \<and>
        cached_as i ch cand (fold drop_block vs (block_at (cc_index c1))) d \<and>
        index_bs (cc_index d) = index_bs (cc_index c1) \<and>
        length vs = (if bp_free (bm_pool (cc_manager c1)) = [] then 1 else 0) \<and>
        admitted_frame cfg (ac_timestamp_ns ctx) t i vs ch cand c1 d))"
      unfolding none_def by (rule admit_with_space_ok [OF inv1 pol, where idx = ?idx])
        (use same bs ok' ancestors_nth [OF inv] admissible_new [OF inv ok] room safe found_distinct [OF ci(3)]
          in \<open>simp_all add: ancestors_safe_def del: mult_Suc\<close>, simp add: ancestors_def)
    then obtain r d where rd: "admit_with_space now cfg ch cand (ac_timestamp_ns ctx) t ?anc c1 = (Inr r, d)"
      "pins_kept c1 d" "node_count (cc_index d) \<le> node_count (cc_index c1) + 2 * Suc ?idx + 1"
      "(as_status r = CapacityExceeded \<and> as_handle r = None \<and> evicted [] c1 d \<and>
          bp_free (bm_pool (cc_manager c1)) = [] \<and> (takeable t (cc_manager c1) = {} \<or> none)) \<or>
       (\<exists>i vs. as_status r = Admitted \<and> as_handle r = Some (Some (store_slot i)) \<and>
          set vs \<subseteq> takeable t (cc_manager c1) \<and> (\<forall>k < ?idx. ?anc ! k \<notin> set vs) \<and>
          cached_as i ch cand (fold drop_block vs (block_at (cc_index c1))) d \<and>
          index_bs (cc_index d) = index_bs (cc_index c1) \<and>
          length vs = (if bp_free (bm_pool (cc_manager c1)) = [] then 1 else 0) \<and>
          admitted_frame cfg (ac_timestamp_ns ctx) t i vs ch cand c1 d)" by blast
    have kept: "pins_kept c d" using rd(2) same by (simp add: pins_kept_def)
    from rd(4) consider (cap) "as_status r = CapacityExceeded" "as_handle r = None" "evicted [] c1 d"
        "bp_free (bm_pool (cc_manager c1)) = []" "takeable t (cc_manager c1) = {} \<or> none"
      | (adm) i vs where "as_status r = Admitted" "as_handle r = Some (Some (store_slot i))"
        "set vs \<subseteq> takeable t (cc_manager c1)" "\<forall>k < ?idx. ?anc ! k \<notin> set vs"
        "cached_as i ch cand (fold drop_block vs (block_at (cc_index c1))) d"
        "index_bs (cc_index d) = index_bs (cc_index c1)"
        "length vs = (if bp_free (bm_pool (cc_manager c1)) = [] then 1 else 0)"
        "admitted_frame cfg (ac_timestamp_ns ctx) t i vs ch cand c1 d" by (elim disjE exE conjE) blast+
    then show ?thesis
    proof cases
      case cap
      have "evicted [] c d" using cap(3) same unfolding evicted_def by simp
      with cap same kept rd(3) evictedD(1,3) [OF cap(3)] show ?thesis
        by (intro exI [of _ r] exI [of _ d]) (simp add: run False tier rd(1) [unfolded tier] none_def)
    next
      case i: (adm i vs)
      have "\<forall>b \<in> set vs. br_refcount (block_of b (cc_manager c)) = 0"
        using i(3) same by (auto simp: takeable_def evictable_def)
      moreover have "set vs \<subseteq> takeable GpuSim (cc_manager c)" using i(3) same(1) tier by simp
      moreover have "\<forall>b \<in> set ?anc. b \<notin> set vs" using i(4) ok' by (metis in_set_conv_nth)
      moreover have "cache_inv d" using i(5) by (simp add: cached_as_def)
      moreover have "admitted_frame cfg (ac_timestamp_ns ctx) GpuSim i vs ch cand c d"
        using i(8) same(1) tier by (simp add: admitted_frame_def c1_def emit_decision_def)
      ultimately show ?thesis using i same kept rd(3)
        by (intro exI [of _ r] exI [of _ d]) (auto simp: run False rd(1))
    qed
  qed
qed

text \<open>The admitted block extends its ancestors.\<close>

lemma found_after_admission:
  assumes inv: "cache_inv c" and ok: "admissible ch cand c"
    and kept: "\<forall>b \<in> set (ancestors ch cand c). b \<notin> set vs"
    and d: "cached_as i ch cand (fold drop_block vs (block_at (cc_index c))) d"
      "index_bs (cc_index d) = index_bs (cc_index c)"
  shows "found_blocks d ch (bc_tokens cand) = ancestors ch cand c @ [i]"
proof (rule prefix_blocks_full)
  let ?idx = "unat (bc_block_index cand)" and ?B = "index_bs (cc_index c)" and ?toks = "bc_tokens cand"
  let ?anc = "ancestors ch cand c"
  note ok' = ok [unfolded admissible_def]
  have B: "0 < ?B" by (rule px.block_size [OF cache_invD(3) [OF inv]])
  show "0 < index_bs (cc_index d)" "length ?toks = length (?anc @ [i]) * index_bs (cc_index d)"
    using d(2) B ok' by simp_all
  have at: "block_at (cc_index d) = (fold drop_block vs (block_at (cc_index c)))
      (ch := ((fold drop_block vs (block_at (cc_index c))) ch)(?toks \<mapsto> i))"
    using d(1) by (simp add: cached_as_def)
  show "\<forall>k < length (?anc @ [i]). block_at (cc_index d) ch (take (Suc k * index_bs (cc_index d)) ?toks) =
      Some ((?anc @ [i]) ! k)"
  proof (intro allI impI)
    fix k assume k: "k < length (?anc @ [i])"
    show "block_at (cc_index d) ch (take (Suc k * index_bs (cc_index d)) ?toks) = Some ((?anc @ [i]) ! k)"
    proof (cases "k = ?idx")
      case True
      then show ?thesis using ok' d(2) by (simp add: at nth_append)
    next
      case False
      then have k': "k < ?idx" using k ok' by simp
      then have "Suc k * ?B < Suc ?idx * ?B" using B by (intro mult_less_mono1) simp_all
      then have "length (take (Suc k * ?B) ?toks) < length ?toks" using ok' by (simp del: mult_Suc)
      then have "take (Suc k * ?B) ?toks \<noteq> ?toks" by (metis less_irrefl)
      moreover have "?anc ! k \<in> set ?anc" using k' ok' by (intro nth_mem) simp
      ultimately show ?thesis using ancestors_nth [OF inv, of k ch cand] kept k' ok' d(2)
        by (auto simp: at fold_drop_block nth_append simp del: mult_Suc)
    qed
  qed
qed

text \<open>C1: admission, with every outcome and exactly when it comes. On a consistent cache without tiers, with an
  eviction policy that picks a candidate, room in the index and no ancestor exposed to eviction,
  \<open>admit\<close> never throws and leaves the cache consistent. Each status comes with the condition under
  which it is reported, and the conditions of the first three exclude all others:
  \<open>InvalidBlock\<close> for tokens that do not end with the candidate's block, or a block not cached whose
  ancestors are not all cached, and \<open>AlreadyPresent\<close> for a well-sized block that is cached with its
  ancestors, both without any change; \<open>Rejected\<close> when the candidate is admissible but the policy rejects it,
  with the decision's log record as the only change. An admissible block the policy accepts is either
  \<open>CapacityExceeded\<close>, when no slot is free and no block can be evicted or the eviction policy is one that
  may name none, with nothing evicted, or \<open>Admitted\<close>, when a slot is free or a block can be evicted: then the
  returned handle pins the new record once, the record carries the candidate's hash and index, and the
  next lookup of the candidate's tokens returns its ancestors followed by the new block.\<close>

theorem admit_outcomes:
  assumes inv: "cache_inv c" and pol: "candidate_eviction (ep_choose_victim (ag_eviction cfg))"
    and bs: "ag_block_size cfg = px_block_size (cc_index c)"
    and room: "node_count (cc_index c) + 2 * Suc (unat (bc_block_index cand)) < invalid_node"
    and ch: "ch = compute_context_hash xxh64 (bc_context cand)"
    and safe: "ancestors_safe (ancestors ch cand c) c"
  shows "\<exists>r d. admit xxh64 now cfg cand ctx c = (Inr r, d) \<and> cache_inv d \<and>
    (case as_status r of
       InvalidBlock \<Rightarrow> d = c \<and> as_handle r = None \<and>
         (length (bc_tokens cand) \<noteq> Suc (unat (bc_block_index cand)) * index_bs (cc_index c) \<or>
          length (found_blocks c ch (bc_tokens cand)) \<noteq> Suc (unat (bc_block_index cand)) \<and>
          length (ancestors ch cand c) \<noteq> unat (bc_block_index cand))
     | AlreadyPresent \<Rightarrow> d = c \<and> as_handle r = None \<and>
         length (bc_tokens cand) = Suc (unat (bc_block_index cand)) * index_bs (cc_index c) \<and>
         length (found_blocks c ch (bc_tokens cand)) = Suc (unat (bc_block_index cand))
     | Rejected \<Rightarrow> as_handle r = None \<and> admissible ch cand c \<and>
         ap_decide (ag_admission cfg) ctx (candidate_features_of (ag_block_size cfg) cand) = Reject \<and>
         d = emit_decision (Admission_record \<lparr>ar_admitted = False, ar_policy_name = ap_name (ag_admission cfg),
           ar_candidate_hash = bc_hash cand, ar_timestamp_ns = ac_timestamp_ns ctx\<rparr>) c
     | CapacityExceeded \<Rightarrow> as_handle r = None \<and> admissible ch cand c \<and>
         ap_decide (ag_admission cfg) ctx (candidate_features_of (ag_block_size cfg) cand) = Admit \<and>
         evicted [] c d \<and> bp_free (bm_pool (cc_manager c)) = [] \<and>
         (takeable GpuSim (cc_manager c) = {} \<or>
          (\<exists>ctx fs. fs \<noteq> [] \<and> ep_choose_victim (ag_eviction cfg) ctx fs = None))
     | Admitted \<Rightarrow> \<exists>i. as_handle r = Some (Some (store_slot i)) \<and> admissible ch cand c \<and>
         ap_decide (ag_admission cfg) ctx (candidate_features_of (ag_block_size cfg) cand) = Admit \<and>
         (bp_free (bm_pool (cc_manager c)) \<noteq> [] \<or> takeable GpuSim (cc_manager c) \<noteq> {}) \<and>
         br_state (block_of i (cc_manager d)) = Ready \<and> br_refcount (block_of i (cc_manager d)) = 1 \<and>
         br_hash (block_of i (cc_manager d)) = bc_hash cand \<and>
         br_block_index (block_of i (cc_manager d)) = bc_block_index cand \<and>
         found_blocks d ch (bc_tokens cand) = ancestors ch cand c @ [i])"
proof (cases "admissible ch cand c")
  case False
  then show ?thesis using inv unfolding admissible_def
    by (auto simp: admissible_def admit_eq [OF cache_invD(3) [OF inv] bs ch] return_with_def admit_failed_def)
next
  case ok: True
  let ?feat = "candidate_features_of (ag_block_size cfg) cand"
  note eq = admit_eq [OF cache_invD(3) [OF inv] bs ch, of now ctx, unfolded Let_def, simplified ok if_True]
  show ?thesis
  proof (cases "ap_decide (ag_admission cfg) ctx ?feat = Reject")
    case True
    let ?d = "emit_decision (Admission_record \<lparr>ar_admitted = False, ar_policy_name = ap_name (ag_admission cfg),
      ar_candidate_hash = bc_hash cand, ar_timestamp_ns = ac_timestamp_ns ctx\<rparr>) c"
    have "cache_inv ?d" by (rule cache_inv_same [OF inv]) (simp_all add: emit_decision_def)
    with True ok show ?thesis
      by (intro exI [of _ "admit_failed Rejected"] exI [of _ ?d]) (simp add: eq admit_failed_def return_with_def)
  next
    case False
    then have adm: "ap_decide (ag_admission cfg) ctx ?feat = Admit" by (cases "ap_decide (ag_admission cfg) ctx ?feat") simp_all
    from admit_ok [OF inv pol bs room ch safe ok, of now ctx] adm found_after_admission [OF inv ok] ok
    show ?thesis by (elim exE conjE disjE) (auto simp: cached_as_def split: if_splits)
  qed
qed

section \<open>Examples\<close>

text \<open>One or two slots, blocks of two tokens, least recently used eviction; the hash function is a
  constant, since a single context is used.\<close>

definition demo_context :: cache_key_context where
  "demo_context = \<lparr>ck_model_id = 1, ck_tokenizer_id = 1, ck_block_size = 2, ck_dtype = FP16,
     ck_num_layers = 1, ck_num_kv_heads = 1, ck_head_dim = 1, ck_rope_config_hash = 0, ck_kv_layout_hash = 0\<rparr>"

definition demo_candidate :: "u64 \<Rightarrow> u32 \<Rightarrow> token_id list \<Rightarrow> block_candidate" where
  "demo_candidate h idx toks = \<lparr>bc_context = demo_context, bc_block_index = idx, bc_tokens = toks,
     bc_hash = \<lparr>hash_lo = h, hash_hi = 0\<rparr>, bc_payload = [], bc_origin = LocallyComputed, bc_source_ref = None\<rparr>"

definition lru_config :: admission_config where
  "lru_config = \<lparr>ag_admission = always_admit, ag_placement = None, ag_eviction = lru_eviction, ag_block_size = 2\<rparr>"

definition demo_admission :: "u64 \<Rightarrow> admission_context" where
  "demo_admission now = \<lparr>ac_request_id = 0, ac_context_hash = 7, ac_missing_blocks = 0, ac_timestamp_ns = now\<rparr>"

definition demo_admit :: "u64 \<Rightarrow> u32 \<Rightarrow> token_id list \<Rightarrow> cache_core \<Rightarrow> admit_result outcome \<times> cache_core" where
  "demo_admit h idx toks = admit (\<lambda>_. 7) h lru_config (demo_candidate h idx toks) (demo_admission h)"

text \<open>The caller drops the handle of the first block before it admits the second.\<close>

definition demo_drop :: "cache_core \<Rightarrow> cache_core" where
  "demo_drop c = c\<lparr>cc_manager := (cc_manager c)\<lparr>bm_store := handle_destroy (Some 0) (bm_store (cc_manager c))\<rparr>\<rparr>"

text \<open>The indexes of the example, evaluated step by step.\<close>

definition leaf_at :: "token_id list \<Rightarrow> block_id option \<Rightarrow> (token_id \<times> nat) list \<Rightarrow> nat \<Rightarrow> index_node" where
  "leaf_at edge b cs parent = \<lparr>nd_edge = edge, nd_terminal = b, nd_children = cs, nd_parent = parent,
     nd_first = (case edge of [] \<Rightarrow> 0 | t # _ \<Rightarrow> t)\<rparr>"

definition first_index :: prefix_index where
  "first_index = \<lparr>px_block_size = 2,
     px_nodes = [leaf_at [] None [(1, 1)] invalid_node, leaf_at [1, 2] (Some 0) [] 0],
     px_roots = [(7, 0)], px_block_node = [(0, 1)]\<rparr>"

definition emptied_index :: prefix_index where
  "emptied_index = \<lparr>px_block_size = 2,
     px_nodes = [leaf_at [] None [] invalid_node, leaf_at [1, 2] None [] 0],
     px_roots = [(7, 0)], px_block_node = []\<rparr>"

definition stale_index :: prefix_index where
  "stale_index = \<lparr>px_block_size = 2,
     px_nodes = [leaf_at [] None [(1, 2)] invalid_node, leaf_at [1, 2] None [] 0,
       leaf_at [1, 2] (Some 0) [(3, 3)] 0, leaf_at [3, 4] (Some 0) [] 2],
     px_roots = [(7, 0)], px_block_node = [(0, 3)]\<rparr>"

lemma index_steps:
  "index_lookup 7 [1, 2] (make_index 2) = Some \<lparr>il_blocks = [], il_matched_tokens = 0\<rparr>"
  "index_lookup 7 [] (make_index 2) = Some \<lparr>il_blocks = [], il_matched_tokens = 0\<rparr>"
  "index_insert 7 [1, 2] [0] (make_index 2) = Some first_index"
  "index_lookup 7 [1, 2] first_index = Some \<lparr>il_blocks = [0], il_matched_tokens = 2\<rparr>"
  "index_lookup 7 [1, 2, 3, 4] first_index = Some \<lparr>il_blocks = [0], il_matched_tokens = 2\<rparr>"
  "block_child_count 0 first_index = Some 0" "block_descendant_count 0 first_index = Some 0"
  "index_remove 0 first_index = Some emptied_index"
  "index_insert 7 [1, 2, 3, 4] [0, 0] emptied_index = Some stale_index"
  "index_lookup 7 [1, 2] stale_index = Some \<lparr>il_blocks = [0], il_matched_tokens = 2\<rparr>"
  by code_simp+

lemmas admit_steps = demo_admit_def admit_def demo_candidate_def lru_config_def demo_admission_def
  compute_context_hash_def make_core_def raw_lookup_blocks_def defined_or_def index_steps Let_def
  always_admit_def emit_decision_def admit_with_space_def manager_available_def make_manager_def
  make_pool_def pool_available_def choose_target_tier_def manager_create_block_def pool_allocate_def
  slot_of_def store_initialize_def store_write_def make_store_def store_slot_def fresh_record_def
  admit_new_block_def on_manager_def on_member_def on_store_def on_index_def insert_full_blocks_def
  manager_transition_def store_get_def store_set_state_def emit_event_def manager_acquire_def
  pool_capacity_def store_mark_accessed_def store_create_handle_def handle_construct_def
  bump_refcount_def return_with_def

definition demo_empty :: cache_core where
  "demo_empty = make_core 1 2 None Null_event_sink Null_decision_logger"

definition demo_record :: "u64 \<Rightarrow> u64 \<Rightarrow> u32 \<Rightarrow> block_record" where
  "demo_record g h idx = \<lparr>br_id = 0, br_generation = g, br_hash = \<lparr>hash_lo = h, hash_hi = 0\<rparr>,
     br_block_index = idx, br_token_count = 2, br_tier = GpuSim, br_refcount = 1, br_last_access_ns = h,
     br_access_count = 1, br_payload = payload_invalid, br_state = Ready\<rparr>"

definition demo_full :: "u64 \<Rightarrow> block_record \<Rightarrow> prefix_index \<Rightarrow> cache_core" where
  "demo_full g r x = \<lparr>cc_manager = \<lparr>bm_pool = \<lparr>bp_capacity = 1, bp_generations = [g], bp_in_use = [True], bp_free = []\<rparr>,
       bm_store = \<lparr>bs_capacity = 1, bs_records = [r]\<rparr>\<rparr>,
     cc_index = x, cc_tiers = None, cc_events = Null_event_sink, cc_decisions = Null_decision_logger\<rparr>"

lemma demo_admit_first:
  "demo_admit 1 0 [1, 2] demo_empty =
     (Inr \<lparr>as_status = Admitted, as_handle = Some (Some 0)\<rparr>, demo_full 1 (demo_record 1 1 0) first_index)"
  by (simp add: demo_empty_def demo_full_def demo_record_def admit_steps)

lemma demo_admit_second:
  "demo_admit 2 1 [1, 2, 3, 4] (demo_drop (demo_full 1 (demo_record 1 1 0) first_index)) =
     (Inr \<lparr>as_status = Admitted, as_handle = Some (Some 0)\<rparr>, demo_full 2 (demo_record 2 2 1) stale_index)"
  by (simp add: demo_full_def demo_record_def demo_drop_def handle_destroy_def make_space_def safe_candidates_def
      evictable_def evict_one_def build_features_def lru_eviction_def lru_choose_victim_def evict_victim_def
      engine_remove_block_def manager_free_block_def pool_free_def admit_steps)

theorem admit_outcomes_witness:
  "\<exists>r d i. demo_admit 1 0 [1, 2] demo_empty = (Inr r, d) \<and> cache_inv d \<and> as_status r = Admitted \<and>
     found_blocks d 7 [1, 2] = [i] \<and> br_refcount (block_of i (cc_manager d)) = 1"
proof -
  let ?cand = "demo_candidate 1 0 [1, 2]"
  have inv: "cache_inv demo_empty" by (simp add: demo_empty_def cache_inv_make_core)
  have pol: "candidate_eviction (ep_choose_victim (ag_eviction lru_config))"
    by (simp add: lru_config_def lru_eviction_def lru.candidate_eviction_axioms)
  have x: "cc_index demo_empty = make_index 2" by (simp add: demo_empty_def make_core_def)
  have bs: "ag_block_size lru_config = px_block_size (cc_index demo_empty)"
    by (simp add: x lru_config_def make_index_def)
  have room: "node_count (cc_index demo_empty) + 2 * Suc (unat (bc_block_index ?cand)) < invalid_node"
    by (simp add: x make_index_def demo_candidate_def invalid_node_def)
  have ch: "7 = compute_context_hash (\<lambda>_. 7) (bc_context ?cand)" by (simp add: compute_context_hash_def)
  have anc: "ancestors 7 ?cand demo_empty = []"
    by (simp add: ancestors_def x block_at_make_index prefix_blocks_def demo_candidate_def)
  have "ancestors_safe (ancestors 7 ?cand demo_empty) demo_empty" by (simp add: anc ancestors_safe_def)
  from admit_outcomes [OF inv pol bs room ch this, of 1 "demo_admission 1", folded demo_admit_def] anc
  show ?thesis by (auto simp: demo_admit_first demo_candidate_def)
qed

text \<open>C15: admission can corrupt the cache when it evicts an ancestor. \<open>admit\<close> reads the ancestors' ids before
  it makes space; the eviction may free an unpinned ancestor, whose slot the new block then reuses,
  and the stale id is indexed again at the ancestor's path. Run from an empty one-slot cache: after
  admitting the block of tokens 1 2, dropping its handle and admitting the next block 1 2 3 4, both
  calls report \<open>Admitted\<close>, but a lookup of 1 2 now returns the slot that holds the second block, and
  the cache is no longer consistent.\<close>

theorem admit_may_index_stale_ancestor:
  "\<exists>c r d. demo_admit 1 0 [1, 2] demo_empty = (Inr \<lparr>as_status = Admitted, as_handle = Some (Some 0)\<rparr>, c) \<and>
     demo_admit 2 1 [1, 2, 3, 4] (demo_drop c) = (Inr r, d) \<and> as_status r = Admitted \<and>
     raw_lookup_blocks 7 [1, 2] (cc_index d) = Inr [0] \<and>
     br_hash (block_of 0 (cc_manager d)) = bc_hash (demo_candidate 2 1 [1, 2, 3, 4]) \<and>
     br_block_index (block_of 0 (cc_manager d)) = 1 \<and> \<not> cache_inv d"
proof -
  let ?d = "demo_full 2 (demo_record 2 2 1) stale_index"
  have "block_at stale_index 7 [1, 2] = Some 0" "block_at stale_index 7 [1, 2, 3, 4] = Some 0"
    by code_simp+
  then have "\<not> index_wf stale_index" using block_at_inject(2) by blast
  then have "\<not> cache_inv ?d" by (auto simp: demo_full_def dest: cache_invD(3))
  moreover have "block_of 0 (cc_manager ?d) = demo_record 2 2 1"
    by (simp add: demo_full_def record_of_def store_slot_def)
  moreover have "raw_lookup_blocks 7 [1, 2] (cc_index ?d) = Inr [0]"
    by (simp add: demo_full_def raw_lookup_blocks_def index_steps defined_or_def)
  ultimately show ?thesis
    by (simp add: demo_admit_first demo_admit_second) (simp add: demo_record_def demo_candidate_def)
qed

end
