(* ===== verification/Cache_Props.thy ===== *)
theory Cache_Props
  imports Admission
begin

text \<open>
  Properties of a worker's cache as a whole: the manager's well-formedness, the snapshot, the lookup
  and the serving of blocks to other workers.
\<close>

section \<open>The block manager\<close>

text \<open>A manager between two calls: pool and records agree, and only blocks that may be pinned are.\<close>

definition manager_ok :: "block_manager \<Rightarrow> bool" where
  "manager_ok m \<longleftrightarrow> manager_inv m \<and> unready_unpinned m"

text \<open>A handle on the block that goes.\<close>

definition unpin_block :: "block_id \<Rightarrow> block_manager \<Rightarrow> block_manager" where
  "unpin_block i m = put_block i ((block_of i m)\<lparr>br_refcount := br_refcount (block_of i m) - 1\<rparr>) m"

lemma unpin_block_simps:
  assumes "manager_inv m" "has_block i m"
  shows "has_block j (unpin_block i m) = has_block j m" "bm_pool (unpin_block i m) = bm_pool m"
    "block_of j (unpin_block i m) =
       (if j = i then (block_of i m)\<lparr>br_refcount := br_refcount (block_of i m) - 1\<rparr> else block_of j m)"
  using assms by (simp_all add: unpin_block_def record_of_put_record manager_invD)

lemma handle_destroy_unpins:
  "has_block i m \<Longrightarrow> m\<lparr>bm_store := handle_destroy (Some (store_slot i)) (bm_store m)\<rparr> = unpin_block i m"
  by (simp add: unpin_block_def handle_destroy_def bump_as_put_record put_block_def)

lemma manager_ok_unpin:
  assumes ok: "manager_ok m" and i: "has_block i m" "br_refcount (block_of i m) \<noteq> 0"
  shows "manager_ok (unpin_block i m)"
proof -
  let ?r = "(block_of i m)\<lparr>br_refcount := br_refcount (block_of i m) - 1\<rparr>"
  have m: "manager_inv m" "unready_unpinned m" using ok by (simp_all add: manager_ok_def)
  have "slot_agrees (bm_pool m) i ?r"
    using manager_invD(4) [OF m(1) i(1)] m(2) i by (auto simp: slot_agrees_def unready_unpinned_def)
  then have "manager_inv (unpin_block i m)" unfolding unpin_block_def by (rule manager_inv_put_block [OF m(1) i(1)])
  moreover have "unready_unpinned (unpin_block i m)"
    using m(2) i by (auto simp: unready_unpinned_def unpin_block_simps [OF m(1) i(1)])
  ultimately show ?thesis by (simp add: manager_ok_def)
qed

lemma manager_ok_pin:
  "manager_ok m \<Longrightarrow> has_block i m \<Longrightarrow> br_state (block_of i m) = Ready \<Longrightarrow> manager_ok (put_block i (pinned now (block_of i m)) m)"
  using unready_unpinned_pin [of m i now] by (simp add: manager_ok_def manager_inv_pinned pin_block_def)

lemma manager_ok_create:
  assumes "manager_ok m"
  shows "\<exists>v m'. manager_create_block h idx count t m = (Inr v, m') \<and> manager_ok m'"
proof -
  have m: "manager_inv m" "unready_unpinned m" using assms by (simp_all add: manager_ok_def)
  from m(1) show ?thesis
  proof (cases rule: manager_create_block_cases [of m h idx count t])
    case (created i g p)
    let ?m' = "put_block i (new_record i g h idx count t) (m\<lparr>bm_pool := p\<rparr>)"
    have "block_of j ?m' = (if j = i then new_record i g h idx count t else block_of j m)" for j
      using record_of_put_record [OF manager_invD(2) [OF m(1)] created(3)] by simp
    then have "unready_unpinned ?m'" using m(2) by (simp add: unready_unpinned_def new_record_def)
    with created(10) manager_inv_create_block [OF m(1) created(10)] show ?thesis by (simp add: manager_ok_def)
  qed (use assms in auto)
qed

lemma manager_ok_touch:
  assumes "manager_ok m"
  shows "\<exists>v m'. manager_mark_accessed now i m = (v, m') \<and> manager_ok m' \<and> (isl v \<longleftrightarrow> \<not> has_block i m)"
proof (cases "has_block i m")
  case False
  then show ?thesis using assms
    by (auto simp: manager_mark_accessed_def store_mark_accessed_def store_write_out throw_def on_store_def on_member_def)
next
  case True
  let ?r = "touched now (block_of i m)"
  have m: "manager_inv m" "unready_unpinned m" using assms by (simp_all add: manager_ok_def)
  have "slot_agrees (bm_pool m) i ?r" using manager_invD(4) [OF m(1) True] by (auto simp: slot_agrees_def)
  then have "manager_inv (put_block i ?r m)" by (rule manager_inv_put_block [OF m(1) True])
  moreover have "unready_unpinned (put_block i ?r m)"
    using m(2) True by (auto simp: unready_unpinned_def block_of_put_block [OF m(1) True] simp del: put_block_simps) (simp_all)
  moreover have "manager_mark_accessed now i m = (Inr (), put_block i ?r m)"
    using True by (simp add: manager_mark_accessed_def store_mark_accessed_def store_write_in put_block_def touched_def)
  ultimately show ?thesis using True by (simp add: manager_ok_def)
qed

text \<open>C34: the manager keeps its type invariant \<open>manager_ok\<close>: a slot is live exactly when its record is not
  free, the generations match, the record names its slot, and only ready and migrating blocks are
  pinned. Creating, acquiring and fetching never throw and keep it; \<open>markAccessed\<close> keeps it and
  throws exactly for an id beyond the capacity; \<open>freeBlock\<close>, and a transition that expects any
  state but \<open>Free\<close>, keep it whether they throw or not; and so does the destruction of a handle on a pinned
  block. A transition that expects \<open>Free\<close> is left out because it breaks the invariant (C35).\<close>

theorem manager_stays_well_formed:
  assumes ok: "manager_ok m" and from_st: "f \<noteq> Free"
  shows "(\<exists>v m'. manager_create_block h idx count t m = (Inr v, m') \<and> manager_ok m') \<and>
    (\<exists>v m'. manager_acquire now i m = (Inr v, m') \<and> manager_ok m') \<and>
    (\<exists>v m'. manager_fetch_local now i g m = (Inr v, m') \<and> manager_ok m') \<and>
    (\<exists>v m'. manager_mark_accessed now i m = (v, m') \<and> manager_ok m' \<and> (isl v \<longleftrightarrow> \<not> has_block i m)) \<and>
    (\<exists>v m'. manager_free_block i m = (v, m') \<and> manager_ok m') \<and>
    (\<exists>v m'. manager_transition i f st m = (v, m') \<and> manager_ok m') \<and>
    (has_block i m \<and> br_refcount (block_of i m) \<noteq> 0 \<longrightarrow>
       manager_ok (m\<lparr>bm_store := handle_destroy (Some (store_slot i)) (bm_store m)\<rparr>))"
proof (intro conjI)
  have m: "manager_inv m" "unready_unpinned m" using ok by (simp_all add: manager_ok_def)
  show "\<exists>v m'. manager_acquire now i m = (Inr v, m') \<and> manager_ok m'"
    "\<exists>v m'. manager_fetch_local now i g m = (Inr v, m') \<and> manager_ok m'"
    using ok manager_ok_pin [OF ok]
    by (simp_all add: manager_acquire_eq [OF m(1)] manager_fetch_local_eq [OF m(1)] return_with_def)
  have trans: "\<exists>v m'. manager_transition i a b m = (v, m') \<and> manager_ok m'" if "a \<noteq> Free" for a b
    using manager_inv_transition [OF m that prod.collapse [symmetric], of i b] by (auto simp: manager_ok_def prod_eq_iff)
  show "\<exists>v m'. manager_transition i f st m = (v, m') \<and> manager_ok m'" by (rule trans [OF from_st])
  show "\<exists>v m'. manager_free_block i m = (v, m') \<and> manager_ok m'"
    unfolding manager_free_block_def by (rule trans) simp
  show "has_block i m \<and> br_refcount (block_of i m) \<noteq> 0 \<longrightarrow>
      manager_ok (m\<lparr>bm_store := handle_destroy (Some (store_slot i)) (bm_store m)\<rparr>)"
    using manager_ok_unpin [OF ok] handle_destroy_unpins by auto
qed (rule manager_ok_create [OF ok] manager_ok_touch [OF ok])+

theorem manager_stays_well_formed_witness:
  "\<exists>v m'. manager_transition 0 Ready Evicting demo_manager = (v, m') \<and> manager_ok m'"
  using manager_stays_well_formed [of demo_manager Ready] demo_manager_inv by (simp add: manager_ok_def)

text \<open>C35: the state graph lets a transition leave \<open>Free\<close> without the pool. On a new manager,
  \<open>transitionState(0, Free, Admitting)\<close> succeeds although slot 0 stays on the free list: pool and
  record disagree, and the next \<open>createBlock\<close> hands the same slot out again.\<close>

theorem free_transition_bypasses_pool:
  "\<exists>m. manager_transition 0 Free Admitting (make_manager 1) = (Inr (), m) \<and> \<not> manager_inv m \<and>
     fst (manager_create_block demo_hash 0 4 GpuSim m) = Inr (Some (0, 1))"
proof -
  let ?m = "snd (manager_transition 0 Free Admitting (make_manager 1))"
  have ok: "fst (manager_transition 0 Free Admitting (make_manager 1)) = Inr ()"
    "fst (manager_create_block demo_hash 0 4 GpuSim ?m) = Inr (Some (0, 1))"
    "has_block 0 ?m" "br_state (block_of 0 ?m) = Admitting" "bp_in_use (bm_pool ?m) = [False]"
    by code_simp+
  then have "\<not> manager_inv ?m"
    using ready_live [of ?m 0] by (auto simp: pool_live_def slot_of_def)
  with ok(1,2) show ?thesis by (metis prod.collapse)
qed

section \<open>The snapshot\<close>

lemma used_records:
  assumes inv: "manager_inv m"
  shows "length (filter (\<lambda>r. br_generation r > 0 \<and> br_state r \<noteq> Free) (bs_records (bm_store m))) =
    used_slots (bm_pool m)"
proof -
  let ?recs = "bs_records (bm_store m)" and ?use = "bp_in_use (bm_pool m)"
  let ?n = "unat (bs_capacity (bm_store m))"
  have len: "length ?recs = ?n" "length ?use = ?n"
    using manager_invD(1-3) [OF inv] by (simp_all add: store_inv_def pool_inv_def)
  have "(br_generation (?recs ! k) > 0 \<and> br_state (?recs ! k) \<noteq> Free) = ?use ! k" if k: "k < ?n" for k
  proof -
    let ?i = "of_nat k :: block_id"
    have slot: "store_slot ?i = k" "slot_of ?i = k"
      using k unat_u32_lt [of "bs_capacity (bm_store m)"] by (simp_all add: store_slot_def slot_of_def)
    have has: "has_block ?i m" using k slot by (simp add: in_store_def)
    have live: "pool_live (bm_pool m) ?i = ?use ! k"
      using k slot manager_invD(3) [OF inv] by (simp add: pool_live_def)
    have "block_of ?i m = ?recs ! k" by (simp add: record_of_def slot)
    with manager_invD(4) [OF inv has] pool_live_gen [OF manager_invD(1) [OF inv], of ?i] live
    show ?thesis by (auto simp: slot_agrees_def word_neq_0_conv)
  qed
  then have "{k. k < length ?recs \<and> br_generation (?recs ! k) > 0 \<and> br_state (?recs ! k) \<noteq> Free} =
      {k. k < length ?use \<and> ?use ! k}"
    unfolding len by auto
  then show ?thesis by (simp add: used_slots_def length_filter_conv_card)
qed

text \<open>the snapshot of a cache adds up: the used blocks and the slots still available make the
  capacity, and the ready blocks are among the used ones; no count wraps.\<close>

theorem snapshot_adds_up:
  assumes "manager_inv (cc_manager (lc_core lc))"
  shows "unat (sn_used_blocks (snapshot lc)) + unat (manager_available (cc_manager (lc_core lc))) =
      unat (sn_total_capacity_blocks (snapshot lc)) \<and>
    sn_total_capacity_blocks (snapshot lc) = pool_capacity (bm_pool (cc_manager (lc_core lc))) \<and>
    sn_ready_blocks (snapshot lc) \<le> sn_used_blocks (snapshot lc)"
proof -
  let ?m = "cc_manager (lc_core lc)"
  let ?recs = "bs_records (bm_store ?m)"
  let ?used = "filter (\<lambda>r. br_generation r > 0 \<and> br_state r \<noteq> Free) ?recs"
  let ?ready = "filter (\<lambda>r. br_state r = Ready) ?recs"
  note mi = manager_invD [OF assms]
  have cap: "length ?recs = unat (bs_capacity (bm_store ?m))" using mi(2) by (simp add: store_inv_def)
  have sum: "length ?used + length (bp_free (bm_pool ?m)) = unat (bs_capacity (bm_store ?m))"
    using used_plus_free [OF mi(1)] used_records [OF assms] mi(3) by simp
  have small: "length ?recs < 2 ^ 32" "length ?used < 2 ^ 32" "length (bp_free (bm_pool ?m)) < 2 ^ 32"
    using sum cap unat_u32_lt [of "bs_capacity (bm_store ?m)"] by simp_all
  have sub: "r \<in> set ?recs \<Longrightarrow> br_state r = Ready \<Longrightarrow> br_generation r > 0" for r
  proof -
    assume r: "r \<in> set ?recs" "br_state r = Ready"
    then obtain i where i: "has_block i ?m" "block_of i ?m = r" using record_in_store [OF mi(2)] by blast
    have live: "pool_live (bm_pool ?m) i" using ready_live [OF assms i(1)] i(2) r(2) by simp
    from mi(4) [OF i(1)] live pool_live_gen [OF mi(1) live] i(2)
    show "br_generation r > 0" by (auto simp: slot_agrees_def word_neq_0_conv)
  qed
  have eq: "?ready = filter (\<lambda>r. br_state r = Ready) ?used"
    unfolding filter_filter by (rule filter_cong) (use sub in auto)
  have le: "length ?ready \<le> length ?used" by (subst eq) (rule length_filter_le)
  then have r32: "length ?ready < 2 ^ 32" using small(2) by simp
  have "unat (sn_used_blocks (snapshot lc)) = length ?used"
    unfolding snapshot_def Let_def cache_snapshot.simps by (rule unat_of_nat_u32 [OF small(2)])
  moreover have "unat (sn_ready_blocks (snapshot lc)) = length ?ready"
    unfolding snapshot_def Let_def cache_snapshot.simps by (rule unat_of_nat_u32 [OF r32])
  moreover have "sn_total_capacity_blocks (snapshot lc) = bs_capacity (bm_store ?m)"
    using cap by (simp add: snapshot_def Let_def)
  moreover have "unat (manager_available ?m) = length (bp_free (bm_pool ?m))"
    unfolding manager_available_def pool_available_def by (rule unat_of_nat_u32 [OF small(3)])
  ultimately show ?thesis using sum le mi(3) by (simp only: word_le_nat_alt pool_capacity_def)
qed

theorem snapshot_adds_up_witness:
  "let lc = (make_simple_cache 2 4)\<lparr>lc_core := demo_lookup_core\<rparr> in
   unat (sn_used_blocks (snapshot lc)) + unat (manager_available demo_manager) =
     unat (sn_total_capacity_blocks (snapshot lc)) \<and> sn_ready_blocks (snapshot lc) \<le> sn_used_blocks (snapshot lc)"
  using snapshot_adds_up [of "(make_simple_cache 2 4)\<lparr>lc_core := demo_lookup_core\<rparr>"] demo_manager_inv
  by (simp add: demo_lookup_core_def Let_def)

section \<open>Lookup\<close>

text \<open>a prefix lookup of a consistent cache never throws and stays within the request: it returns
  no more handles than the request has full blocks, the matched tokens are the handles' blocks and at
  most the request's tokens, the miss offset is where they end, and none of the 32-bit counts
  wraps.\<close>

theorem lookup_prefix_within_request:
  assumes "cache_inv (lc_core lc)" "lc_block_size lc = px_block_size (cc_index (lc_core lc))"
    and "length toks < 2 ^ 32"
  shows "\<exists>r lc'. lookup_prefix xxh64 now ctx toks lc = (Inr r, lc') \<and> cache_inv (lc_core lc') \<and>
    unat (lo_total_full_blocks r) = length toks div unat (lc_block_size lc) \<and>
    length (lo_matched_blocks r) \<le> unat (lo_total_full_blocks r) \<and>
    unat (lo_matched_tokens r) = length (lo_matched_blocks r) * unat (lc_block_size lc) \<and>
    unat (lo_matched_tokens r) \<le> length toks \<and> lo_miss_token_offset r = lo_matched_tokens r"
proof -
  let ?c = "lc_core lc" and ?bs = "lc_block_size lc" and ?ch = "compute_context_hash xxh64 ctx"
  let ?found = "found_blocks ?c ?ch toks"
  note ci = cache_invD [OF assms(1)]
  have bs: "index_bs (cc_index ?c) = unat ?bs" using assms(2) by (simp add: index_bs_def)
  have B: "0 < unat ?bs" using px.block_size [OF ci(3)] bs by simp
  have ne: "?bs \<noteq> 0" using B by auto
  have n: "length ?found \<le> length toks div unat ?bs"
    unfolding prefix_blocks_def bs length_map by (rule le_trans [OF length_takeWhile_le]) simp
  then have le: "length ?found * unat ?bs \<le> length toks"
    by (meson div_times_less_eq_dividend le_trans mult_le_mono1)
  have total: "unat (of_nat (length toks div unat ?bs) :: u32) = length toks div unat ?bs"
    using assms(3) by (intro unat_of_nat_u32 le_less_trans [OF div_le_dividend])
  have tok: "unat (of_nat (length ?found) * ?bs) = length ?found * unat ?bs"
  proof -
    have "of_nat (length ?found) * ?bs = of_nat (length ?found * unat ?bs)" by simp
    then show ?thesis using le_less_trans [OF le assms(3)] by (simp only: unat_of_nat_u32)
  qed
  have "lookup_prefix xxh64 now ctx toks lc = (Inr
      \<lparr>lo_matched_blocks = map (\<lambda>i. Some (store_slot i)) ?found, lo_matched_tokens = of_nat (length ?found) * ?bs,
       lo_miss_token_offset = of_nat (length ?found) * ?bs, lo_context_hash = ?ch,
       lo_total_full_blocks = of_nat (length toks div unat ?bs)\<rparr>,
      lc\<lparr>lc_core := ?c\<lparr>cc_manager := fold (pin_block now) ?found (cc_manager ?c)\<rparr>\<rparr>)"
    using engine_lookup_ok(1) [OF assms(1,2), of now ?ch toks] ne
    by (simp add: lookup_prefix_def Let_def on_core_def on_manager_def on_member_def return_with_def)
  with engine_lookup_ok(2) [OF assms(1,2), of now ?ch toks] n le total tok show ?thesis by simp
qed

theorem lookup_prefix_within_request_witness:
  "\<exists>r lc'. lookup_prefix (\<lambda>_. 7) 5 demo_context [1, 2, 3, 4, 5]
     ((make_simple_cache 2 4)\<lparr>lc_core := demo_lookup_core\<rparr>) = (Inr r, lc') \<and>
   unat (lo_matched_tokens r) \<le> 5 \<and> unat (lo_total_full_blocks r) = 1"
proof -
  let ?lc = "(make_simple_cache 2 4)\<lparr>lc_core := demo_lookup_core\<rparr>"
  have "lc_block_size ?lc = px_block_size (cc_index (lc_core ?lc))"
    using demo_lookup_core(2) by (simp add: make_simple_cache_def index_bs_def word_unat_eq_iff)
  with lookup_prefix_within_request [of ?lc "[1, 2, 3, 4, 5]" "\<lambda>_. 7" 5 demo_context] demo_lookup_core(1)
  show ?thesis by (auto simp: make_simple_cache_def)
qed

section \<open>Serving a block to another worker\<close>

lemma touched_refcount: "(touched now r)\<lparr>br_refcount := br_refcount r\<rparr> = touched now r"
  by (cases r) (simp add: touched_def)

lemma unpin_pinned:
  assumes "manager_inv m" "has_block i m"
  shows "handle_destroy (Some (store_slot i)) (bm_store (pin_block now i m)) =
    put_record i (touched now (block_of i m)) (bm_store m)"
  using assms
  by (simp add: handle_destroy_def pin_block_def bump_as_put_record record_of_put_record manager_invD pinned_def
      touched_refcount)

text \<open>The block of an id and generation that a fetch finds, and the only change a fetch makes.\<close>

definition fetchable :: "block_id \<Rightarrow> u64 \<Rightarrow> block_manager \<Rightarrow> bool" where
  "fetchable i g m \<longleftrightarrow> has_block i m \<and> br_generation (block_of i m) = g \<and> g \<noteq> 0 \<and> br_state (block_of i m) = Ready"

definition touch_block :: "u64 \<Rightarrow> block_id \<Rightarrow> local_cache \<Rightarrow> local_cache" where
  "touch_block now i lc = lc\<lparr>lc_core := (lc_core lc)\<lparr>cc_manager := put_block i
     (touched now (block_of i (cc_manager (lc_core lc)))) (cc_manager (lc_core lc))\<rparr>\<rparr>"

lemma fetchable_live:
  assumes "manager_inv m"
  shows "fetchable i g m \<longleftrightarrow> pool_live (bm_pool m) i \<and> br_state (block_of i m) = Ready \<and> pool_gen (bm_pool m) i = g"
proof -
  have "br_state (block_of i m) = Ready \<Longrightarrow> has_block i m \<Longrightarrow> pool_live (bm_pool m) i"
    using ready_live [OF assms(1), of i] by simp
  moreover have "pool_live (bm_pool m) i \<Longrightarrow> has_block i m" by (rule live_has_block [OF assms(1)])
  moreover have "pool_live (bm_pool m) i \<Longrightarrow> has_block i m \<Longrightarrow>
      br_generation (block_of i m) = pool_gen (bm_pool m) i"
    using manager_invD(4) [OF assms(1), of i] by (simp add: slot_agrees_def)
  moreover have "pool_live (bm_pool m) i \<Longrightarrow> pool_gen (bm_pool m) i \<noteq> 0"
    by (rule pool_live_gen [OF manager_invD(1) [OF assms(1)]])
  ultimately show ?thesis unfolding fetchable_def by metis
qed

lemma serve_block_fetch_ok:
  assumes "manager_inv (cc_manager (lc_core lc))" "cc_tiers (lc_core lc) = None"
  shows "if fetchable i g (cc_manager (lc_core lc))
    then serve_block_fetch now i g lc = (Inr \<lparr>sv_status = Serve_ok, sv_payload = [],
      sv_hash = br_hash (block_of i (cc_manager (lc_core lc))), sv_generation = g\<rparr>, touch_block now i lc)
    else \<exists>r. serve_block_fetch now i g lc = (Inr r, lc) \<and> sv_status r \<noteq> Serve_ok"
proof -
  let ?m = "cc_manager (lc_core lc)"
  note eq = manager_fetch_local_eq [OF assms(1), of now i g]
  note unf = serve_block_fetch_def get_block_def on_core_def on_manager_def on_member_def eq return_with_def
  have "fetchable i g ?m \<Longrightarrow> ?thesis"
    using assms unpin_pinned [OF assms(1), of i now] pin_block_simps(2) [OF assms(1), of i i now]
    by (simp add: unf fetchable_def touch_block_def handle_metadata_def drop_handle_def Let_def pin_block_def record_of_def)
  moreover have "\<not> fetchable i g ?m \<Longrightarrow> ?thesis" by (auto simp: unf fetchable_def)
  ultimately show ?thesis by blast
qed

lemma touch_block_simps:
  assumes "manager_inv (cc_manager (lc_core lc))" "fetchable i g (cc_manager (lc_core lc))"
  shows "block_of j (cc_manager (lc_core (touch_block now i lc))) = (if j = i
      then touched now (block_of i (cc_manager (lc_core lc))) else block_of j (cc_manager (lc_core lc)))"
    "has_block j (cc_manager (lc_core (touch_block now i lc))) = has_block j (cc_manager (lc_core lc))"
  using assms by (simp_all add: touch_block_def fetchable_def record_of_put_record manager_invD(2))

text \<open>C36: serving a block leaves no trace but the access. On a cache without tiers, a fetch by another
  worker never throws; it succeeds exactly when the asked generation is live and ready, and then
  returns the record's hash and generation with an empty payload. The reference taken while the
  block is read is given back: every record keeps its state, generation and reference count.\<close>

theorem serve_block_fetch_balanced:
  assumes "manager_inv (cc_manager (lc_core lc))" "cc_tiers (lc_core lc) = None"
  shows "\<exists>r lc'. serve_block_fetch now i g lc = (Inr r, lc') \<and>
    (sv_status r = Serve_ok \<longleftrightarrow> pool_live (bm_pool (cc_manager (lc_core lc))) i \<and>
       br_state (block_of i (cc_manager (lc_core lc))) = Ready \<and>
       pool_gen (bm_pool (cc_manager (lc_core lc))) i = g) \<and>
    (sv_status r = Serve_ok \<longrightarrow> sv_payload r = [] \<and> sv_generation r = g \<and>
       sv_hash r = br_hash (block_of i (cc_manager (lc_core lc)))) \<and>
    (\<forall>j. br_state (block_of j (cc_manager (lc_core lc'))) = br_state (block_of j (cc_manager (lc_core lc))) \<and>
       br_generation (block_of j (cc_manager (lc_core lc'))) = br_generation (block_of j (cc_manager (lc_core lc))) \<and>
       br_refcount (block_of j (cc_manager (lc_core lc'))) = br_refcount (block_of j (cc_manager (lc_core lc))))"
proof (cases "fetchable i g (cc_manager (lc_core lc))")
  case True
  with serve_block_fetch_ok [OF assms, of i g now] touch_block_simps(1) [OF assms(1) True]
    fetchable_live [OF assms(1), of i g]
  show ?thesis by simp
next
  case False
  with serve_block_fetch_ok [OF assms, of i g now] fetchable_live [OF assms(1), of i g]
  show ?thesis by auto
qed

theorem serve_block_fetch_balanced_witness:
  "\<exists>r lc'. serve_block_fetch 5 0 1 ((make_simple_cache 2 4)\<lparr>lc_core := demo_lookup_core\<rparr>) = (Inr r, lc') \<and>
     sv_status r = Serve_ok \<and> br_refcount (block_of 0 (cc_manager (lc_core lc'))) = 0"
proof -
  let ?lc = "(make_simple_cache 2 4)\<lparr>lc_core := demo_lookup_core\<rparr>"
  have m: "cc_manager (lc_core ?lc) = demo_manager" by (simp add: demo_lookup_core_def)
  have "pool_live (bm_pool demo_manager) 0 \<and> br_state (block_of 0 demo_manager) = Ready \<and>
      pool_gen (bm_pool demo_manager) 0 = 1 \<and> br_refcount (block_of 0 demo_manager) = 0" by code_simp
  with serve_block_fetch_balanced [of ?lc 5 0 1] cache_invD(1,4) [OF demo_lookup_core(1)] m
  show ?thesis by auto
qed

end
