(* ===== verification/Request_Plan.thy ===== *)
theory Request_Plan
  imports Pipeline Cache_Props
begin

text \<open>
  The remote part of a request: which blocks are asked for, and what the resolution stage brings back
  from a world of consistent caches without tiers.
\<close>

section \<open>Planning\<close>

definition planned ::
  "(u8 list \<Rightarrow> u64) \<Rightarrow> (u8 list \<Rightarrow> u64 \<times> u64) \<Rightarrow> route_request \<Rightarrow> nat \<Rightarrow> missing_block" where
  "planned xxh64 xxh128 req k =
     (let bs = ck_block_size (rq_context req) in
      \<lparr>mb_block_index = of_nat k,
       mb_hash = compute_content_hash xxh128 (compute_context_hash xxh64 (rq_context req)) (of_nat k) (ucast bs)
         (take (unat bs) (drop (k * unat bs) (rq_tokens req)))\<rparr>)"

lemma unat_of_nat_mult:
  assumes "k * unat (b :: u32) < 2 ^ 32"
  shows "unat (of_nat k * b) = k * unat b"
proof -
  have "of_nat k * b = of_nat (k * unat b)" by simp
  then show ?thesis using unat_of_nat_u32 [OF assms] by (simp only:)
qed

lemma block_in_tokens: "j < n div b \<Longrightarrow> Suc j * b \<le> (n :: nat)"
  by (metis Suc_leI div_times_less_eq_dividend le_trans mult_le_mono1)

lemma plan_missing_eq:
  assumes bs: "ck_block_size (rq_context req) \<noteq> 0" and toks: "length (rq_tokens req) < 2 ^ 32"
    and matched: "length (lo_matched_blocks local) < 2 ^ 32"
  shows "plan_missing xxh64 xxh128 req local = Inr (map (planned xxh64 xxh128 req)
    [length (lo_matched_blocks local)..<length (rq_tokens req) div unat (ck_block_size (rq_context req))])"
proof -
  let ?b = "ck_block_size (rq_context req)" and ?n = "length (rq_tokens req)"
  have total: "unat ((of_nat ?n :: u32) div ?b) = ?n div unat ?b"
    using toks by (simp add: unat_div)
  have first: "unat (of_nat (length (lo_matched_blocks local)) :: u32) = length (lo_matched_blocks local)"
    using matched by simp
  have pos: "unat (of_nat k * ?b) = k * unat ?b" if "k < ?n div unat ?b" for k
    using block_in_tokens [OF that] toks by (intro unat_of_nat_mult) simp
  show ?thesis
    using bs by (auto simp: plan_missing_def Let_def planned_def word_le_nat_alt total first pos)
qed

text \<open>C37: the planner asks for exactly the blocks the local lookup did not return. For a request below
  2^32 tokens the planned indices run from the number of matched blocks to the number of full
  blocks, every block lies within the tokens, its hash covers exactly its own tokens, and no 32-bit
  product wraps.\<close>

theorem plan_covers_missing_blocks:
  assumes "ck_block_size (rq_context req) \<noteq> 0" "length (rq_tokens req) < 2 ^ 32"
    and "length (lo_matched_blocks local) < 2 ^ 32"
  shows "\<exists>ms. plan_missing xxh64 xxh128 req local = Inr ms \<and>
    map (\<lambda>mb. unat (mb_block_index mb)) ms =
      [length (lo_matched_blocks local)..<length (rq_tokens req) div unat (ck_block_size (rq_context req))] \<and>
    (\<forall>mb \<in> set ms.
       (unat (mb_block_index mb) + 1) * unat (ck_block_size (rq_context req)) \<le> length (rq_tokens req) \<and>
       mb_hash mb = compute_content_hash xxh128 (compute_context_hash xxh64 (rq_context req)) (mb_block_index mb)
         (ucast (ck_block_size (rq_context req)))
         (map ((!) (rq_tokens req)) [unat (mb_block_index mb) * unat (ck_block_size (rq_context req))..<
            (unat (mb_block_index mb) + 1) * unat (ck_block_size (rq_context req))]))"
proof -
  let ?b = "unat (ck_block_size (rq_context req))" and ?n = "length (rq_tokens req)"
  let ?ks = "[length (lo_matched_blocks local)..<?n div ?b]"
  have idx: "unat (of_nat k :: u32) = k" if "k < ?n div ?b" for k
    using that assms(2) by (intro unat_of_nat_u32) (meson div_le_dividend le_less_trans less_trans)
  have seg: "take ?b (drop (k * ?b) (rq_tokens req)) = map ((!) (rq_tokens req)) [k * ?b..<(k + 1) * ?b]"
    if "k < ?n div ?b" for k
    using block_in_tokens [OF that] by (intro nth_equalityI) (auto simp: algebra_simps)
  have "map (\<lambda>mb. unat (mb_block_index mb)) (map (planned xxh64 xxh128 req) ?ks) = ?ks"
    unfolding map_map by (rule map_idI) (simp add: planned_def Let_def idx)
  then show ?thesis
    using plan_missing_eq [OF assms, of xxh64 xxh128] block_in_tokens [of _ ?n ?b]
    by (auto simp: planned_def Let_def idx seg)
qed

theorem plan_covers_missing_blocks_witness:
  "\<exists>ms. plan_missing (\<lambda>_. 7) (\<lambda>_. (1, 2)) \<lparr>rq_request_id = 0, rq_context = demo_context, rq_tokens = [1, 2, 3, 4, 5]\<rparr>
     \<lparr>lo_matched_blocks = [Some 0], lo_matched_tokens = 2, lo_miss_token_offset = 2, lo_context_hash = 0,
      lo_total_full_blocks = 2\<rparr> = Inr ms \<and> map (\<lambda>mb. unat (mb_block_index mb)) ms = [1]"
proof -
  let ?req = "\<lparr>rq_request_id = 0, rq_context = demo_context, rq_tokens = [1, 2, 3, 4, 5]\<rparr> :: route_request"
  let ?local = "\<lparr>lo_matched_blocks = [Some 0], lo_matched_tokens = 2, lo_miss_token_offset = 2, lo_context_hash = 0,
    lo_total_full_blocks = 2\<rparr> :: lookup_outcome"
  have "[length (lo_matched_blocks ?local)..<length (rq_tokens ?req) div unat (ck_block_size (rq_context ?req))] = [1]"
    by (simp add: demo_context_def)
  with plan_covers_missing_blocks [of ?req ?local "\<lambda>_. 7" "\<lambda>_. (1, 2)"] show ?thesis
    by (auto simp: demo_context_def)
qed

text \<open>C40: the plan does not depend on the matched prefix. Two requests of one context and one length that
  agree from the miss on are planned alike, whatever tokens come before it: the hash of a block
  identifies its own tokens and its position, not the tokens it was computed after. A block another
  worker cached under a different prefix is therefore a hit for the request.\<close>

theorem plan_ignores_prefix:
  assumes "ck_block_size (rq_context req) \<noteq> 0" "length (rq_tokens req) < 2 ^ 32"
    and "length (lo_matched_blocks local) < 2 ^ 32"
    and "rq_context req' = rq_context req" "length (rq_tokens req') = length (rq_tokens req)"
    and "drop (length (lo_matched_blocks local) * unat (ck_block_size (rq_context req))) (rq_tokens req') =
      drop (length (lo_matched_blocks local) * unat (ck_block_size (rq_context req))) (rq_tokens req)"
  shows "plan_missing xxh64 xxh128 req' local = plan_missing xxh64 xxh128 req local"
proof -
  let ?k = "length (lo_matched_blocks local)" and ?b = "unat (ck_block_size (rq_context req))"
  have "drop (j * ?b) (rq_tokens req') = drop (j * ?b) (rq_tokens req)" if "?k \<le> j" for j
  proof -
    from that obtain d where "j * ?b = d + ?k * ?b" by (metis add.commute add_mult_distrib le_Suc_ex)
    then show ?thesis using assms(6) by (metis drop_drop)
  qed
  then have "planned xxh64 xxh128 req' j = planned xxh64 xxh128 req j" if "?k \<le> j" for j
    using that assms(4) by (simp add: planned_def Let_def)
  then show ?thesis using plan_missing_eq [of req local] plan_missing_eq [of req' local] assms(1-5) by simp
qed

theorem plan_ignores_prefix_witness:
  "plan_missing (\<lambda>_. 7) (\<lambda>_. (1, 2)) \<lparr>rq_request_id = 0, rq_context = demo_context, rq_tokens = [9, 9, 3, 4]\<rparr>
     \<lparr>lo_matched_blocks = [Some 0], lo_matched_tokens = 2, lo_miss_token_offset = 2, lo_context_hash = 0,
      lo_total_full_blocks = 2\<rparr> =
   plan_missing (\<lambda>_. 7) (\<lambda>_. (1, 2)) \<lparr>rq_request_id = 0, rq_context = demo_context, rq_tokens = [1, 2, 3, 4]\<rparr>
     \<lparr>lo_matched_blocks = [Some 0], lo_matched_tokens = 2, lo_miss_token_offset = 2, lo_context_hash = 0,
      lo_total_full_blocks = 2\<rparr>"
  by (rule plan_ignores_prefix) (simp_all add: demo_context_def)

section \<open>Worlds\<close>

text \<open>What serving a block changes: access times and counts.\<close>

definition same_but_access :: "cache_core \<Rightarrow> cache_core \<Rightarrow> bool" where
  "same_but_access c d \<longleftrightarrow> cc_index d = cc_index c \<and> cc_tiers d = cc_tiers c \<and>
     (\<forall>j. has_block j (cc_manager d) = has_block j (cc_manager c)) \<and>
     (\<forall>j. \<exists>t n. block_of j (cc_manager d) =
        (block_of j (cc_manager c))\<lparr>br_last_access_ns := t, br_access_count := n\<rparr>)"

lemma same_but_access_refl: "same_but_access c c"
proof -
  have "r = r\<lparr>br_last_access_ns := br_last_access_ns r, br_access_count := br_access_count r\<rparr>" for r :: block_record
    by simp
  then show ?thesis unfolding same_but_access_def by blast
qed

lemma same_but_access_fields:
  assumes "same_but_access c d"
  shows "br_state (block_of j (cc_manager d)) = br_state (block_of j (cc_manager c))"
    "br_refcount (block_of j (cc_manager d)) = br_refcount (block_of j (cc_manager c))"
    "br_generation (block_of j (cc_manager d)) = br_generation (block_of j (cc_manager c))"
    "br_hash (block_of j (cc_manager d)) = br_hash (block_of j (cc_manager c))"
    "br_token_count (block_of j (cc_manager d)) = br_token_count (block_of j (cc_manager c))"
proof -
  obtain t n where "block_of j (cc_manager d) =
      (block_of j (cc_manager c))\<lparr>br_last_access_ns := t, br_access_count := n\<rparr>"
    using assms unfolding same_but_access_def by blast
  then show "br_state (block_of j (cc_manager d)) = br_state (block_of j (cc_manager c))"
    "br_refcount (block_of j (cc_manager d)) = br_refcount (block_of j (cc_manager c))"
    "br_generation (block_of j (cc_manager d)) = br_generation (block_of j (cc_manager c))"
    "br_hash (block_of j (cc_manager d)) = br_hash (block_of j (cc_manager c))"
    "br_token_count (block_of j (cc_manager d)) = br_token_count (block_of j (cc_manager c))"
    by simp_all
qed

lemma same_but_access_trans:
  assumes "same_but_access c d" "same_but_access d e"
  shows "same_but_access c e"
proof -
  have "\<exists>t n. block_of j (cc_manager e) =
      (block_of j (cc_manager c))\<lparr>br_last_access_ns := t, br_access_count := n\<rparr>" for j
  proof -
    obtain t n t' n' where "block_of j (cc_manager d) =
        (block_of j (cc_manager c))\<lparr>br_last_access_ns := t, br_access_count := n\<rparr>"
      "block_of j (cc_manager e) =
        (block_of j (cc_manager d))\<lparr>br_last_access_ns := t', br_access_count := n'\<rparr>"
      using assms unfolding same_but_access_def by meson
    then have "block_of j (cc_manager e) =
        (block_of j (cc_manager c))\<lparr>br_last_access_ns := t', br_access_count := n'\<rparr>" by simp
    then show ?thesis by blast
  qed
  with assms show ?thesis by (simp add: same_but_access_def)
qed

lemma fetchable_same: "same_but_access c d \<Longrightarrow> fetchable i g (cc_manager d) = fetchable i g (cc_manager c)"
  using same_but_access_fields [of c d i] by (simp add: fetchable_def same_but_access_def)

lemma touch_block_ok:
  assumes inv: "cache_inv (lc_core lc)" and f: "fetchable i g (cc_manager (lc_core lc))"
  shows "cache_inv (lc_core (touch_block now i lc))" "same_but_access (lc_core lc) (lc_core (touch_block now i lc))"
proof -
  let ?d = "lc_core (touch_block now i lc)" and ?m = "cc_manager (lc_core lc)"
  note ci = cache_invD [OF inv]
  note tb = touch_block_simps [OF ci(1) f, where now = now]
  have idx: "cc_index ?d = cc_index (lc_core lc)" "cc_tiers ?d = cc_tiers (lc_core lc)"
    by (simp_all add: touch_block_def)
  have fb: "has_block i ?m" "br_state (block_of i ?m) = Ready" using f by (simp_all add: fetchable_def)
  have "slot_agrees (bm_pool ?m) i (touched now (block_of i ?m))"
    using manager_invD(4) [OF ci(1) fb(1)] by (simp add: slot_agrees_def)
  with manager_inv_put_block [OF ci(1) fb(1)] have "manager_inv (cc_manager ?d)"
    by (simp add: touch_block_def)
  moreover have "unready_unpinned (cc_manager ?d)"
    unfolding unready_unpinned_def
  proof (intro allI impI)
    fix j assume "has_block j (cc_manager ?d)" "br_state (block_of j (cc_manager ?d)) \<notin> {Ready, Migrating}"
    with ci(2) show "br_refcount (block_of j (cc_manager ?d)) = 0"
      by (cases "j = i") (simp_all add: tb unready_unpinned_def)
  qed
  moreover have same: "same_but_access (lc_core lc) ?d"
  proof -
    have "\<exists>t n. block_of j (cc_manager ?d) = (block_of j ?m)\<lparr>br_last_access_ns := t, br_access_count := n\<rparr>" for j
      using same_but_access_refl [of "lc_core lc"] tb(1)
      by (cases "j = i") (auto simp: touched_def same_but_access_def)
    then show ?thesis using tb(2) idx by (simp add: same_but_access_def)
  qed
  ultimately show "cache_inv ?d" "same_but_access (lc_core lc) ?d"
    using inv tb(2) idx same_but_access_fields [OF same] by (simp_all add: cache_inv_def)
qed

text \<open>A world of consistent caches, and what a remote fetch may change in it.\<close>

abbreviation core_at :: "nat \<Rightarrow> world \<Rightarrow> cache_core" where
  "core_at k w \<equiv> lc_core (wo_caches w ! k)"

definition world_ok :: "world \<Rightarrow> bool" where
  "world_ok w \<longleftrightarrow> list_all (\<lambda>(n, k). k < length (wo_caches w)) (wo_workers w) \<and>
     list_all (\<lambda>lc. cache_inv (lc_core lc)) (wo_caches w)"

definition accessed :: "world \<Rightarrow> world \<Rightarrow> bool" where
  "accessed w w' \<longleftrightarrow> wo_workers w' = wo_workers w \<and> length (wo_caches w') = length (wo_caches w) \<and>
     (\<forall>k < length (wo_caches w). same_but_access (core_at k w) (core_at k w') \<and>
        lc_config (wo_caches w' ! k) = lc_config (wo_caches w ! k) \<and>
        lc_block_size (wo_caches w' ! k) = lc_block_size (wo_caches w ! k))"

lemma world_okD:
  assumes "world_ok w"
  shows "map_of (wo_workers w) n = Some k \<Longrightarrow> k < length (wo_caches w)"
    "k < length (wo_caches w) \<Longrightarrow> cache_inv (core_at k w)"
  using assms by (auto simp: world_ok_def list_all_iff dest!: map_of_SomeD)

lemma accessed_refl: "accessed w w"
  by (simp add: accessed_def same_but_access_refl)

lemma accessed_trans: "accessed w w' \<Longrightarrow> accessed w' w'' \<Longrightarrow> accessed w w''"
  by (auto simp: accessed_def intro: same_but_access_trans)

lemma world_parts [simp]:
  "wo_caches (world_event e w) = wo_caches w" "wo_workers (world_event e w) = wo_workers w"
  "wo_client (world_event e w) = wo_client w"
  by (simp_all add: world_event_def)

lemma world_same:
  "wo_caches w' = wo_caches w \<Longrightarrow> wo_workers w' = wo_workers w \<Longrightarrow> world_ok w' = world_ok w"
  "wo_caches w' = wo_caches w \<Longrightarrow> wo_workers w' = wo_workers w \<Longrightarrow> accessed v w' = accessed v w"
  "wo_caches w' = wo_caches w \<Longrightarrow> wo_workers w' = wo_workers w \<Longrightarrow> accessed w' v = accessed w v"
  by (simp_all add: world_ok_def accessed_def)

section \<open>Fetching\<close>

text \<open>The reference names a live block of that hash on a registered worker.\<close>

definition held_remotely :: "world \<Rightarrow> global_block_ref \<Rightarrow> content_hash \<Rightarrow> bool" where
  "held_remotely w ref h \<longleftrightarrow> (case map_of (wo_workers w) (ref_node ref) of None \<Rightarrow> False
     | Some k \<Rightarrow> fetchable (ref_block ref) (ref_generation ref) (cc_manager (core_at k w)) \<and>
         br_hash (block_of (ref_block ref) (cc_manager (core_at k w))) = h)"

lemma held_remotely_accessed:
  assumes "world_ok w" "accessed w w'"
  shows "held_remotely w' ref h = held_remotely w ref h"
proof (cases "map_of (wo_workers w) (ref_node ref)")
  case None
  with assms(2) show ?thesis by (simp add: held_remotely_def accessed_def)
next
  case (Some k)
  have "same_but_access (core_at k w) (core_at k w')" "wo_workers w' = wo_workers w"
    using assms(2) world_okD(1) [OF assms(1) Some] by (simp_all add: accessed_def)
  with Some fetchable_same [OF this(1)] same_but_access_fields(4) [OF this(1)] show ?thesis
    by (simp add: held_remotely_def)
qed

lemma fetch_block_ok:
  assumes ok: "world_ok w"
  shows "\<exists>r w'. fetch_block now n i g w = (Inr r, w') \<and> world_ok w' \<and> accessed w w' \<and> wo_client w' = wo_client w \<and>
    (fr_status r = Response_ok \<longrightarrow> held_remotely w \<lparr>ref_node = n, ref_block = i, ref_generation = g\<rparr> (fr_hash r))"
proof (cases "map_of (wo_workers w) n")
  case None
  then show ?thesis using ok by (simp add: fetch_block_def empty_response_def accessed_refl return_with_def)
next
  case (Some k)
  let ?lc = "wo_caches w ! k"
  have k: "k < length (wo_caches w)" by (rule world_okD(1) [OF ok Some])
  note inv = world_okD(2) [OF ok k]
  note ci = cache_invD [OF inv]
  show ?thesis
  proof (cases "fetchable i g (cc_manager (lc_core ?lc))")
    case True
    let ?w = "w\<lparr>wo_caches := (wo_caches w)[k := touch_block now i ?lc]\<rparr>"
    have "fetch_block now n i g w = (Inr \<lparr>fr_status = Response_ok, fr_payload = [],
        fr_hash = br_hash (block_of i (cc_manager (lc_core ?lc))), fr_generation = g\<rparr>, ?w)"
      using serve_block_fetch_ok [OF ci(1,4), of i g now] True k
      by (simp add: fetch_block_def Some worker_serve_block_fetch_def on_cache_def return_with_def)
    moreover have "world_ok ?w"
      using ok touch_block_ok(1) [OF inv True] by (auto simp: world_ok_def list_all_iff dest!: set_update_subset_insert [THEN subsetD])
    moreover have "accessed w ?w"
      using touch_block_ok(2) [OF inv True] k unfolding accessed_def
      by (simp add: nth_list_update same_but_access_refl) (simp add: touch_block_def)
    ultimately show ?thesis using Some True by (simp add: held_remotely_def)
  next
    case False
    then obtain r where r: "serve_block_fetch now i g ?lc = (Inr r, ?lc)" "sv_status r \<noteq> Serve_ok"
      using serve_block_fetch_ok [OF ci(1,4), of i g now] by auto
    then show ?thesis using ok k
      by (cases "sv_status r")
        (simp_all add: fetch_block_def Some worker_serve_block_fetch_def on_cache_def return_with_def
          empty_response_def accessed_refl)
  qed
qed

lemma fetch_remote_ok:
  assumes ok: "world_ok w"
  shows "\<exists>r w'. fetch_remote now ref h w = (Inr r, w') \<and> world_ok w' \<and> accessed w w' \<and> wo_client w' = wo_client w \<and>
    fm_source_ref r = ref \<and> (fm_status r = Fetch_ok \<longrightarrow> fm_hash r = h \<and> held_remotely w ref h)"
proof -
  let ?w = "world_event (Remote_fetch_started h (ref_node ref) 0) w"
  have "world_ok ?w" using ok world_same(1) [of ?w w] by simp
  then obtain r w1 where r: "fetch_block now (ref_node ref) (ref_block ref) (ref_generation ref) ?w = (Inr r, w1)"
    "world_ok w1" "accessed ?w w1" "wo_client w1 = wo_client w"
    "fr_status r = Response_ok \<Longrightarrow> held_remotely ?w \<lparr>ref_node = ref_node ref, ref_block = ref_block ref,
        ref_generation = ref_generation ref\<rparr> (fr_hash r)"
    using fetch_block_ok [of ?w now "ref_node ref" "ref_block ref" "ref_generation ref"] by auto
  have acc: "accessed w w1" using r(3) world_same(3) [of ?w w] by simp
  have held: "held_remotely ?w ref' x = held_remotely w ref' x" for ref' x
    by (simp add: held_remotely_def split: option.split)
  have ok1: "world_ok (world_event e w1)" "accessed w (world_event e w1)" for e
    using r(2) acc world_same(1,2) [of "world_event e w1" w1] by simp_all
  have ref: "\<lparr>ref_node = ref_node ref, ref_block = ref_block ref, ref_generation = ref_generation ref\<rparr> = ref" by simp
  show ?thesis using r(1,4) r(5) [unfolded ref] ok1 unfolding held
    by (cases "fr_status r"; cases "fr_hash r = h") (simp_all add: fetch_remote_def Let_def return_with_def)
qed

section \<open>Resolution\<close>

text \<open>A candidate fetched for a missing block.\<close>

definition fetched_for :: "world \<Rightarrow> route_request \<Rightarrow> missing_block \<Rightarrow> block_candidate \<Rightarrow> bool" where
  "fetched_for w req mb cand \<longleftrightarrow> bc_context cand = rq_context req \<and> bc_block_index cand = mb_block_index mb \<and>
     bc_tokens cand = take (unat ((mb_block_index mb + 1) * ck_block_size (rq_context req))) (rq_tokens req) \<and>
     bc_hash cand = mb_hash mb \<and> bc_origin cand = RemoteFetch \<and>
     (\<exists>ref. bc_source_ref cand = Some ref \<and> held_remotely w ref (mb_hash mb))"

lemma resolution_loop_ok:
  assumes "world_ok w"
  shows "\<exists>out' w' cands. resolution_loop now pol req mbs out w = (Inr out', w') \<and> world_ok w' \<and> accessed w w' \<and>
    ro_fetched_blocks out' = ro_fetched_blocks out @ cands \<and>
    ro_remote_hit_count out' = ro_remote_hit_count out + of_nat (length cands) \<and>
    ro_stale_ref_count out' \<in> {ro_stale_ref_count out, ro_stale_ref_count out + 1} \<and>
    length cands \<le> length mbs \<and> list_all2 (fetched_for w req) (take (length cands) mbs) cands"
  using assms
proof (induction mbs arbitrary: out w)
  case Nil
  then show ?case by (simp add: return_with_def accessed_refl)
next
  case (Cons mb mbs)
  let ?q = "client_query (mb_hash mb) (wo_client w)"
  let ?pick = "rp_choose_replica pol \<lparr>rc_target_hash = mb_hash mb, rc_requesting_node = 0, rc_timestamp_ns = 0\<rparr> (qr_refs ?q)"
  show ?case
  proof (cases "\<not> qr_available ?q \<or> qr_refs ?q = [] \<or> ?pick = None")
    case True
    then have "resolution_loop now pol req (mb # mbs) out w = (Inr out, w)"
      by (auto simp: Let_def return_with_def)
    then show ?thesis using Cons.prems by (simp add: accessed_refl)
  next
    case False
    then obtain ref where pick: "?pick = Some ref" by auto
    obtain r w1 where r: "fetch_remote now ref (mb_hash mb) w = (Inr r, w1)" "world_ok w1" "accessed w w1"
      "fm_source_ref r = ref" "fm_status r = Fetch_ok \<Longrightarrow> fm_hash r = mb_hash mb \<and> held_remotely w ref (mb_hash mb)"
      using fetch_remote_ok [OF Cons.prems, of now ref "mb_hash mb"] by auto
    show ?thesis
    proof (cases "fm_status r = Fetch_ok")
      case False
      let ?w2 = "world_event (Coordinator_stale_ref (ref_node ref) (ref_block ref) (ref_generation ref) 0)
        (w1\<lparr>wo_client := client_invalidate (ref_node ref) (ref_block ref) (ref_generation ref) (wo_client w1)\<rparr>)"
      have "world_ok ?w2" "accessed w ?w2" using r(2,3) world_same(1,2) [of ?w2 w1] by simp_all
      moreover have "resolution_loop now pol req (mb # mbs) out w =
          (if fm_status r = Fetch_stale
           then (Inr (out\<lparr>ro_stale_ref_count := ro_stale_ref_count out + 1\<rparr>), ?w2) else (Inr out, w1))"
        using \<open>\<not> (\<not> qr_available ?q \<or> _)\<close> pick r(1) False by (simp add: Let_def return_with_def)
      ultimately show ?thesis using r(2,3) by auto
    next
      case True
      let ?cand = "\<lparr>bc_context = rq_context req, bc_block_index = mb_block_index mb,
        bc_tokens = take (unat ((mb_block_index mb + 1) * ck_block_size (rq_context req))) (rq_tokens req),
        bc_hash = mb_hash mb, bc_payload = fm_payload r, bc_origin = RemoteFetch, bc_source_ref = Some ref\<rparr>"
      let ?out = "out\<lparr>ro_fetched_blocks := ro_fetched_blocks out @ [?cand],
        ro_remote_hit_count := ro_remote_hit_count out + 1\<rparr>"
      have "resolution_loop now pol req (mb # mbs) out w = resolution_loop now pol req mbs ?out w1"
        using \<open>\<not> (\<not> qr_available ?q \<or> _)\<close> pick r(1,4,5) True by (simp add: Let_def)
      moreover obtain out' w' cands where rest: "resolution_loop now pol req mbs ?out w1 = (Inr out', w')" "world_ok w'"
        "accessed w1 w'" "ro_fetched_blocks out' = ro_fetched_blocks ?out @ cands"
        "ro_remote_hit_count out' = ro_remote_hit_count ?out + of_nat (length cands)"
        "ro_stale_ref_count out' \<in> {ro_stale_ref_count ?out, ro_stale_ref_count ?out + 1}"
        "length cands \<le> length mbs" "list_all2 (fetched_for w1 req) (take (length cands) mbs) cands"
        using Cons.IH [OF r(2), of ?out] by blast
      moreover have "fetched_for w1 req = fetched_for w req"
        using held_remotely_accessed [OF Cons.prems r(3)] by (intro ext) (simp add: fetched_for_def)
      moreover have "fetched_for w req mb ?cand" using r(5) True by (simp add: fetched_for_def)
      ultimately show ?thesis using accessed_trans [OF r(3) rest(3)]
        by (intro exI [of _ out'] exI [of _ w'] exI [of _ "?cand # cands"]) (simp add: algebra_simps)
    qed
  qed
qed

text \<open>The candidates are the blocks after the first \<open>k\<close>, in order and without gap.\<close>

definition fetched_prefix ::
  "(u8 list \<Rightarrow> u64) \<Rightarrow> (u8 list \<Rightarrow> u64 \<times> u64) \<Rightarrow> world \<Rightarrow> route_request \<Rightarrow> nat \<Rightarrow> block_candidate list \<Rightarrow> bool" where
  "fetched_prefix xxh64 xxh128 w req k cands \<longleftrightarrow>
     (let B = unat (ck_block_size (rq_context req)) in
      k + length cands \<le> max k (length (rq_tokens req) div B) \<and>
      (\<forall>j < length cands. bc_context (cands ! j) = rq_context req \<and>
         unat (bc_block_index (cands ! j)) = k + j \<and>
         bc_tokens (cands ! j) = take (Suc (k + j) * B) (rq_tokens req) \<and>
         bc_hash (cands ! j) = mb_hash (planned xxh64 xxh128 req (k + j)) \<and> bc_origin (cands ! j) = RemoteFetch \<and>
         (\<exists>ref. bc_source_ref (cands ! j) = Some ref \<and> held_remotely w ref (bc_hash (cands ! j)))))"

lemma resolve_remote_ok:
  assumes ok: "world_ok w" and bs: "ck_block_size (rq_context req) \<noteq> 0"
    and toks: "length (rq_tokens req) < 2 ^ 32" and matched: "length (lo_matched_blocks local) < 2 ^ 32"
  shows "\<exists>out w'. resolve_remote xxh64 xxh128 now pol req local w = (Inr out, w') \<and> world_ok w' \<and> accessed w w' \<and>
    fetched_prefix xxh64 xxh128 w req (length (lo_matched_blocks local)) (ro_fetched_blocks out) \<and>
    unat (ro_remote_hit_count out) = length (ro_fetched_blocks out) \<and> ro_stale_ref_count out \<le> 1"
proof -
  let ?b = "ck_block_size (rq_context req)" and ?n = "length (rq_tokens req)"
  let ?k = "length (lo_matched_blocks local)" and ?N = "length (rq_tokens req) div unat (ck_block_size (rq_context req))"
  let ?ms = "map (planned xxh64 xxh128 req) [?k..<?N]"
  obtain out w' cands where run: "resolution_loop now pol req ?ms no_remote w = (Inr out, w')" "world_ok w'" "accessed w w'"
    "ro_fetched_blocks out = cands" "ro_remote_hit_count out = of_nat (length cands)"
    "ro_stale_ref_count out \<in> {0, 1}" "length cands \<le> length ?ms"
    "list_all2 (fetched_for w req) (take (length cands) ?ms) cands"
    using resolution_loop_ok [OF ok, of now pol req ?ms no_remote] by (auto simp: no_remote_def)
  have "resolve_remote xxh64 xxh128 now pol req local w = (Inr out, w')"
    using run(1) by (auto simp: resolve_remote_def plan_missing_eq [OF bs toks matched] return_with_def)
  moreover have n: "length cands \<le> ?N - ?k" using run(7) by simp
  moreover have "fetched_prefix xxh64 xxh128 w req ?k cands"
    unfolding fetched_prefix_def Let_def
  proof (intro conjI allI impI)
    show "?k + length cands \<le> max ?k ?N" using n by simp
    fix j assume j: "j < length cands"
    then have jN: "?k + j < ?N" using n by simp
    have in_toks: "Suc (?k + j) * unat ?b \<le> ?n" by (rule block_in_tokens [OF jN])
    have f: "fetched_for w req (planned xxh64 xxh128 req (?k + j)) (cands ! j)"
      using list_all2_nthD [OF run(8), of j] j n by simp
    have idx: "unat (of_nat (?k + j) :: u32) = ?k + j"
      using jN toks by (intro unat_of_nat_u32) (meson div_le_dividend le_less_trans less_trans)
    have "of_nat (?k + j) + 1 = (of_nat (Suc (?k + j)) :: u32)" by simp
    then have fin: "unat ((of_nat (?k + j) + 1) * ?b) = Suc (?k + j) * unat ?b"
      using unat_of_nat_mult [of "Suc (?k + j)" ?b] in_toks toks by (simp only:)
    show "bc_context (cands ! j) = rq_context req" "unat (bc_block_index (cands ! j)) = ?k + j"
      "bc_tokens (cands ! j) = take (Suc (?k + j) * unat ?b) (rq_tokens req)"
      "bc_hash (cands ! j) = mb_hash (planned xxh64 xxh128 req (?k + j))" "bc_origin (cands ! j) = RemoteFetch"
      "\<exists>ref. bc_source_ref (cands ! j) = Some ref \<and> held_remotely w ref (bc_hash (cands ! j))"
      using f idx fin by (auto simp: fetched_for_def planned_def Let_def simp del: mult_Suc of_nat_Suc of_nat_add)
  qed
  moreover have "unat (of_nat (length cands) :: u32) = length cands"
    using n toks by (intro unat_of_nat_u32) (meson diff_le_self div_le_dividend le_trans le_less_trans)
  moreover have "ro_stale_ref_count out \<le> 1" using run(6) by auto
  ultimately show ?thesis using run(2-5)
    by (intro exI [of _ out] exI [of _ w']) simp
qed

text \<open>C6: the resolution stage brings back a gap-free run of verified blocks. In a world of consistent
  caches it never throws, changes nothing in any cache but access times, and returns candidates for
  consecutive blocks starting at the local miss: each carries the tokens of its whole prefix, the hash
  the planner computed, and the reference of a live, ready block with exactly that hash on a
  registered worker. It stops at the first block it cannot get and reports at most one stale
  reference.\<close>

theorem resolution_fetches_planned_blocks:
  assumes "world_ok w" "ck_block_size (rq_context req) \<noteq> 0"
    and "length (rq_tokens req) < 2 ^ 32" "length (lo_matched_blocks local) < 2 ^ 32"
  shows "\<exists>out w'. resolve_remote xxh64 xxh128 now pol req local w = (Inr out, w') \<and> world_ok w' \<and> accessed w w' \<and>
    fetched_prefix xxh64 xxh128 w req (length (lo_matched_blocks local)) (ro_fetched_blocks out) \<and>
    unat (ro_remote_hit_count out) = length (ro_fetched_blocks out) \<and> ro_stale_ref_count out \<le> 1"
  by (rule resolve_remote_ok [OF assms])

text \<open>Two workers of block size 4: worker 0 is empty, worker 1 holds the block 1 2 3 4, announced to the
  coordinator under the constant hash of the example.\<close>

definition demo_world :: world where
  "demo_world = \<lparr>wo_caches = [make_simple_cache 2 4, (make_simple_cache 2 4)\<lparr>lc_core := demo_lookup_core\<rparr>],
     wo_workers = [(0, 0), (1, 1)],
     wo_client = Inproc_client (service_announce demo_hash \<lparr>ref_node = 1, ref_block = 0, ref_generation = 1\<rparr>
       make_coordinator),
     wo_events = Null_event_sink\<rparr>"

definition demo_route :: "token_id list \<Rightarrow> route_request" where
  "demo_route toks = \<lparr>rq_request_id = 0, rq_context = demo_context\<lparr>ck_block_size := 4\<rparr>, rq_tokens = toks\<rparr>"

definition no_local :: lookup_outcome where
  "no_local = \<lparr>lo_matched_blocks = [], lo_matched_tokens = 0, lo_miss_token_offset = 0, lo_context_hash = 7,
     lo_total_full_blocks = 0\<rparr>"

abbreviation demo_xxh128 :: "u8 list \<Rightarrow> u64 \<times> u64" where
  "demo_xxh128 \<equiv> \<lambda>_. (hash_lo demo_hash, hash_hi demo_hash)"

lemma demo_world_ok: "world_ok demo_world"
  using demo_lookup_core(1) cache_inv_make_core
  by (simp add: world_ok_def demo_world_def make_simple_cache_def)

theorem resolution_fetches_planned_blocks_witness:
  "\<exists>out w'. resolve_remote (\<lambda>_. 7) demo_xxh128 5 first_replica (demo_route [1, 2, 3, 4, 5]) no_local demo_world =
     (Inr out, w') \<and> length (ro_fetched_blocks out) = 1 \<and>
     fetched_prefix (\<lambda>_. 7) demo_xxh128 demo_world (demo_route [1, 2, 3, 4, 5]) 0 (ro_fetched_blocks out)"
proof -
  let ?req = "demo_route [1, 2, 3, 4, 5]"
  let ?run = "resolve_remote (\<lambda>_. 7) demo_xxh128 5 first_replica ?req no_local demo_world"
  have "ck_block_size (rq_context ?req) \<noteq> 0" "length (rq_tokens ?req) < 2 ^ 32" "length (lo_matched_blocks no_local) < 2 ^ 32"
    by (simp_all add: demo_route_def no_local_def)
  note fetched = resolution_fetches_planned_blocks [OF demo_world_ok this, where ?xxh64.0 = "\<lambda>_. 7" and
    ?xxh128.0 = demo_xxh128 and now = 5 and pol = first_replica]
  have "case ?run of (v, w) \<Rightarrow> (case v of Inr out \<Rightarrow> ro_remote_hit_count out = 1 | _ \<Rightarrow> False)" by code_simp
  with fetched show ?thesis by (auto simp: no_local_def)
qed

end
