(* ===== verification/Request_Path.thy ===== *)
theory Request_Path
  imports Request_Plan
begin

text \<open>
  The admission of fetched blocks behind a pinned prefix, and the whole pipeline: what a request
  returns is exactly the prefix its worker caches in the end.
\<close>

section \<open>A prefix without blocks behind it\<close>

text \<open>\<open>held\<close> are the blocks cached for the tokens, and none is cached after the first miss.\<close>

definition cached_run :: "cache_core \<Rightarrow> context_hash \<Rightarrow> token_id list \<Rightarrow> block_id list \<Rightarrow> bool" where
  "cached_run c ch toks held \<longleftrightarrow> length held \<le> length toks div index_bs (cc_index c) \<and>
     (\<forall>k < length toks div index_bs (cc_index c).
        block_at (cc_index c) ch (take (Suc k * index_bs (cc_index c)) toks) =
          (if k < length held then Some (held ! k) else None))"

lemma take_while_some:
  "takeWhile (\<lambda>b. b \<noteq> None) (map (\<lambda>k. if k < length xs then Some (xs ! k) else None) [0..<n]) = map Some (take n xs)"
proof -
  let ?ys = "map (\<lambda>k. if k < length xs then Some (xs ! k) else None) [0..<n]"
  have "takeWhile (\<lambda>b. b \<noteq> None) ?ys = take (length xs) ?ys"
    by (rule takeWhile_eq_take_P_nth) simp_all
  also have "\<dots> = map Some (take n xs)" by (rule nth_equalityI) simp_all
  finally show ?thesis .
qed

lemma cached_run_found:
  assumes B: "0 < index_bs (cc_index c)" and run: "cached_run c ch toks held"
    and a: "a \<le> length toks div index_bs (cc_index c)"
  shows "found_blocks c ch (take (a * index_bs (cc_index c)) toks) = take a held"
proof -
  let ?B = "index_bs (cc_index c)"
  have le: "a * ?B \<le> length toks" using a by (meson div_times_less_eq_dividend le_trans mult_le_mono1)
  have n: "length (take (a * ?B) toks) div ?B = a" using le B by (simp add: min_absorb2)
  have "map (\<lambda>k. block_at (cc_index c) ch (take (Suc k * ?B) (take (a * ?B) toks))) [0..<a] =
      map (\<lambda>k. if k < length held then Some (held ! k) else None) [0..<a]"
  proof (rule map_cong [OF refl])
    fix k assume "k \<in> set [0..<a]"
    then have k: "k < a" by simp
    then have "Suc k * ?B \<le> a * ?B" by (intro mult_le_mono1) simp
    with k a run show "block_at (cc_index c) ch (take (Suc k * ?B) (take (a * ?B) toks)) =
        (if k < length held then Some (held ! k) else None)"
      by (simp add: cached_run_def min_absorb1 del: mult_Suc)
  qed
  then show ?thesis unfolding prefix_blocks_def n by (simp only: take_while_some) (simp add: o_def)
qed

lemma cached_run_all:
  assumes "0 < index_bs (cc_index c)" "cached_run c ch toks held"
  shows "found_blocks c ch toks = held"
proof -
  let ?B = "index_bs (cc_index c)"
  have "map (\<lambda>k. block_at (cc_index c) ch (take (Suc k * ?B) toks)) [0..<length toks div ?B] =
      map (\<lambda>k. if k < length held then Some (held ! k) else None) [0..<length toks div ?B]"
    by (rule map_cong [OF refl]) (use assms(2) in \<open>simp add: cached_run_def del: mult_Suc\<close>)
  then have "prefix_blocks ?B (block_at (cc_index c)) ch toks 0 = take (length toks div ?B) held"
    unfolding prefix_blocks_def by (simp only: take_while_some) (simp add: o_def)
  with assms(2) show ?thesis by (simp add: cached_run_def)
qed

lemma cached_run_same:
  "block_at (cc_index d) = block_at (cc_index c) \<Longrightarrow> index_bs (cc_index d) = index_bs (cc_index c) \<Longrightarrow>
   cached_run c ch toks held \<Longrightarrow> cached_run d ch toks held"
  by (simp add: cached_run_def)

text \<open>The block after the run is admitted.\<close>

lemma cached_run_extend:
  assumes inv: "cache_inv c" and run: "cached_run c ch toks held"
    and next_block: "length held < length toks div index_bs (cc_index c)"
      "bc_tokens cand = take (Suc (length held) * index_bs (cc_index c)) toks"
    and kept: "\<forall>b \<in> set held. b \<notin> set vs"
    and d: "cached_as i ch cand (fold drop_block vs (block_at (cc_index c))) d"
      "index_bs (cc_index d) = index_bs (cc_index c)"
  shows "cached_run d ch toks (held @ [i])"
  unfolding cached_run_def d(2)
proof (intro conjI allI impI)
  let ?B = "index_bs (cc_index c)"
  show "length (held @ [i]) \<le> length toks div ?B" using next_block(1) by simp
  fix k assume k: "k < length toks div ?B"
  have at: "block_at (cc_index d) ch p = (if p = bc_tokens cand then Some i
      else fold drop_block vs (block_at (cc_index c)) ch p)" for p
    using d(1) by (simp add: cached_as_def)
  have len: "length (take (Suc j * ?B) toks) = Suc j * ?B" if "j < length toks div ?B" for j
    using block_in_tokens [OF that] by (simp add: min_absorb2 del: mult_Suc)
  have eq: "take (Suc k * ?B) toks = bc_tokens cand \<longleftrightarrow> k = length held"
  proof
    assume "take (Suc k * ?B) toks = bc_tokens cand"
    then have "Suc k * ?B = Suc (length held) * ?B" using len [OF k] len [OF next_block(1)] next_block(2) by metis
    then show "k = length held" using px.block_size [OF cache_invD(3) [OF inv]] by simp
  qed (simp add: next_block(2))
  have "held ! k \<notin> set vs" if "k < length held" using kept that nth_mem by blast
  with run k show "block_at (cc_index d) ch (take (Suc k * ?B) toks) =
      (if k < length (held @ [i]) then Some ((held @ [i]) ! k) else None)"
    unfolding at eq by (auto simp: cached_run_def fold_drop_block nth_append simp del: mult_Suc)
qed

section \<open>The admission stage\<close>

text \<open>The candidates are the blocks of the tokens from position \<open>a\<close> on.\<close>

definition candidates_from ::
  "(u8 list \<Rightarrow> u64) \<Rightarrow> context_hash \<Rightarrow> token_id list \<Rightarrow> nat \<Rightarrow> nat \<Rightarrow> block_candidate list \<Rightarrow> bool" where
  "candidates_from xxh64 ch toks B a cands \<longleftrightarrow> a + length cands \<le> max a (length toks div B) \<and>
     (\<forall>j < length cands. compute_context_hash xxh64 (bc_context (cands ! j)) = ch \<and>
        unat (bc_block_index (cands ! j)) = a + j \<and> bc_tokens (cands ! j) = take (Suc (a + j) * B) toks)"

lemma candidates_from_Cons:
  "candidates_from xxh64 ch toks B a (cand # cands) \<Longrightarrow>
   a < length toks div B \<and> compute_context_hash xxh64 (bc_context cand) = ch \<and> unat (bc_block_index cand) = a \<and>
   bc_tokens cand = take (Suc a * B) toks \<and> candidates_from xxh64 ch toks B (Suc a) cands"
  unfolding candidates_from_def by (auto simp: less_Suc_eq_0_disj simp del: mult_Suc)

text \<open>One candidate behind a pinned run.\<close>

lemma admit_behind_run:
  assumes inv: "cache_inv c" and pol: "candidate_eviction (ep_choose_victim (ag_eviction cfg))"
    and bs: "ag_block_size cfg = px_block_size (cc_index c)"
    and room: "node_count (cc_index c) + 2 * Suc (unat (bc_block_index cand)) < invalid_node"
    and ch: "ch = compute_context_hash xxh64 (bc_context cand)"
    and run: "cached_run c ch toks held" and pins: "\<forall>i \<in> set held. br_refcount (block_of i (cc_manager c)) \<noteq> 0"
    and pos: "length held \<le> unat (bc_block_index cand)" "unat (bc_block_index cand) < length toks div index_bs (cc_index c)"
    and toks: "bc_tokens cand = take (Suc (unat (bc_block_index cand)) * index_bs (cc_index c)) toks"
  shows "\<exists>r d new. admit xxh64 now cfg cand ctx c = (Inr r, d) \<and> cache_inv d \<and> pins_kept c d \<and>
    index_bs (cc_index d) = index_bs (cc_index c) \<and>
    node_count (cc_index d) \<le> node_count (cc_index c) + 2 * Suc (unat (bc_block_index cand)) + 1 \<and>
    cached_run d ch toks (held @ new) \<and> as_status r \<noteq> AlreadyPresent \<and>
    ((as_status r = Admitted \<and> length held = unat (bc_block_index cand) \<and>
        (\<exists>i. new = [i] \<and> as_handle r = Some (Some (store_slot i)) \<and> has_block i (cc_manager d) \<and>
           br_state (block_of i (cc_manager d)) = Ready \<and> br_refcount (block_of i (cc_manager d)) = 1)) \<or>
     (as_status r \<noteq> Admitted \<and> new = []))"
proof -
  let ?idx = "unat (bc_block_index cand)" and ?B = "index_bs (cc_index c)"
  note ci = cache_invD [OF inv]
  have B: "0 < ?B" by (rule px.block_size [OF ci(3)])
  have size: "length (bc_tokens cand) = Suc ?idx * ?B"
    using toks block_in_tokens [OF pos(2)] by (simp add: min_absorb2 del: mult_Suc)
  have "take (?idx * ?B) (bc_tokens cand) = take (?idx * ?B) toks"
    unfolding toks take_take by (simp add: min_absorb1)
  then have anc: "ancestors ch cand c = take ?idx held"
    unfolding ancestors_def using cached_run_found [OF B run, of ?idx] pos(2) by simp
  have found: "found_blocks c ch (bc_tokens cand) = take (Suc ?idx) held"
    unfolding toks using cached_run_found [OF B run, of "Suc ?idx"] pos(2) by (simp del: mult_Suc)
  show ?thesis
  proof (cases "length held = ?idx")
    case False
    then have "\<not> admissible ch cand c" "length (found_blocks c ch (bc_tokens cand)) \<noteq> Suc ?idx"
      using anc found pos(1) by (simp_all add: admissible_def)
    then have "admit xxh64 now cfg cand ctx c = (Inr (admit_failed InvalidBlock), c)"
      by (simp add: admit_eq [OF cache_invD(3) [OF inv] bs ch] return_with_def)
    then show ?thesis using inv run
      by (intro exI [of _ "admit_failed InvalidBlock"] exI [of _ c] exI [of _ "[]"])
        (simp add: admit_failed_def pins_kept_same)
  next
    case True
    then have ok: "admissible ch cand c" using size anc found by (simp add: admissible_def)
    have held: "ancestors ch cand c = held" using anc True by simp
    have safe: "ancestors_safe (ancestors ch cand c) c"
      using pins held by (simp add: ancestors_safe_def list_all_iff)
    from admit_ok [OF inv pol bs room ch safe ok, of now ctx] obtain r d where
      run_d: "admit xxh64 now cfg cand ctx c = (Inr r, d)" "cache_inv d" "pins_kept c d"
        "index_bs (cc_index d) = index_bs (cc_index c)"
        "node_count (cc_index d) \<le> node_count (cc_index c) + 2 * Suc ?idx + 1"
      and cases: "(as_status r = Rejected \<and> as_handle r = None \<and> cc_manager d = cc_manager c \<and>
          cc_index d = cc_index c \<and>
          ap_decide (ag_admission cfg) ctx (candidate_features_of (ag_block_size cfg) cand) = Reject) \<or>
       (as_status r = CapacityExceeded \<and> as_handle r = None \<and> evicted [] c d \<and> bp_free (bm_pool (cc_manager c)) = []) \<or>
       (\<exists>i vs. as_status r = Admitted \<and> as_handle r = Some (Some (store_slot i)) \<and>
          (\<forall>b \<in> set vs. br_refcount (block_of b (cc_manager c)) = 0) \<and>
          (\<forall>b \<in> set (ancestors ch cand c). b \<notin> set vs) \<and>
          cached_as i ch cand (fold drop_block vs (block_at (cc_index c))) d)" by blast
    show ?thesis
    proof (cases "as_status r = Admitted")
      case False
      with cases have "as_status r \<noteq> AlreadyPresent" "block_at (cc_index d) = block_at (cc_index c)"
        by (auto dest: evictedD(2))
      with False run_d cached_run_same [OF _ run_d(4) run] show ?thesis
        by (intro exI [of _ r] exI [of _ d] exI [of _ "[]"]) simp
    next
      case True
      with cases obtain i vs where i: "as_handle r = Some (Some (store_slot i))" "\<forall>b \<in> set held. b \<notin> set vs"
        "cached_as i ch cand (fold drop_block vs (block_at (cc_index c))) d"
        unfolding held by auto
      have "cached_run d ch toks (held @ [i])"
        by (rule cached_run_extend [OF inv run _ _ i(2,3) run_d(4)]) (use \<open>length held = ?idx\<close> pos(2) toks in simp_all)
      with True run_d i \<open>length held = ?idx\<close> show ?thesis
        by (intro exI [of _ r] exI [of _ d] exI [of _ "[i]"]) (simp add: cached_as_def)
    qed
  qed
qed

text \<open>Pins that hold before still hold afterwards.\<close>

lemma pins_kept_blocks:
  "pins_kept c d \<Longrightarrow> \<forall>i \<in> set is. has_block i (cc_manager c) \<and> br_refcount (block_of i (cc_manager c)) \<noteq> 0 \<Longrightarrow>
   \<forall>i \<in> set is. has_block i (cc_manager d) \<and> block_of i (cc_manager d) = block_of i (cc_manager c)"
  by (simp add: pins_kept_def)

text \<open>From one cache to another with \<open>new\<close> behind the run: consistent, pinned, old pins untouched.\<close>

definition extends_run ::
  "cache_core \<Rightarrow> cache_core \<Rightarrow> context_hash \<Rightarrow> token_id list \<Rightarrow> block_id list \<Rightarrow> block_id list \<Rightarrow> bool" where
  "extends_run c d ch toks held new \<longleftrightarrow> cache_inv d \<and> index_bs (cc_index d) = index_bs (cc_index c) \<and>
     pins_kept c d \<and> cached_run d ch toks (held @ new) \<and>
     (\<forall>i \<in> set new. has_block i (cc_manager d) \<and> br_state (block_of i (cc_manager d)) = Ready \<and>
        br_refcount (block_of i (cc_manager d)) = 1)"

lemma extends_run_trans:
  assumes "extends_run c d ch toks held new" "extends_run d e ch toks (held @ new) new2"
  shows "extends_run c e ch toks held (new @ new2)"
proof -
  have "\<forall>i \<in> set new. has_block i (cc_manager d) \<and> br_refcount (block_of i (cc_manager d)) \<noteq> 0"
    using assms(1) by (auto simp: extends_run_def)
  with assms pins_kept_blocks [of d e new] pins_kept_trans show ?thesis by (auto simp: extends_run_def)
qed

lemma admission_loop_ok:
  assumes "cache_inv (lc_core lc)" "candidate_eviction (ep_choose_victim (ag_eviction (lc_config lc)))"
    and "ag_block_size (lc_config lc) = px_block_size (cc_index (lc_core lc))"
    and "node_count (cc_index (lc_core lc)) + length cands * (2 * n + 3) < invalid_node"
    and "cached_run (lc_core lc) ch toks held" "n = length toks div index_bs (cc_index (lc_core lc))"
    and "\<forall>i \<in> set held. has_block i (cc_manager (lc_core lc)) \<and> br_refcount (block_of i (cc_manager (lc_core lc))) \<noteq> 0"
    and "candidates_from xxh64 ch toks (index_bs (cc_index (lc_core lc))) a cands" "length held \<le> a"
  shows "\<exists>out' lc' new. admission_loop xxh64 now cands out lc = (Inr out', lc') \<and>
    lc_config lc' = lc_config lc \<and> lc_block_size lc' = lc_block_size lc \<and>
    extends_run (lc_core lc) (lc_core lc') ch toks held new \<and>
    ao_admitted_handles out' = ao_admitted_handles out @ map (\<lambda>i. Some (store_slot i)) new \<and>
    ao_admitted_count out' = ao_admitted_count out + of_nat (length new) \<and>
    ao_rejected_count out' = ao_rejected_count out + of_nat (length cands - length new) \<and>
    length new \<le> length cands"
  using assms
proof (induction cands arbitrary: out lc held a)
  case Nil
  then show ?case
    by (intro exI [of _ out] exI [of _ lc] exI [of _ "[]"]) (simp add: return_with_def pins_kept_same extends_run_def)
next
  case (Cons cand cands)
  let ?c = "lc_core lc"
  note p = Cons.prems
  note cand = candidates_from_Cons [OF p(8)]
  have idx: "unat (bc_block_index cand) = a" "a < n" using cand p(6) by auto
  have room: "node_count (cc_index ?c) + 2 * Suc (unat (bc_block_index cand)) < invalid_node"
    using p(4) idx by simp
  let ?ctx = "\<lparr>ac_request_id = 0, ac_context_hash = compute_context_hash xxh64 (bc_context cand),
    ac_missing_blocks = 0, ac_timestamp_ns = now\<rparr>"
  have "\<exists>r d new. admit xxh64 now (lc_config lc) cand ?ctx ?c = (Inr r, d) \<and> cache_inv d \<and> pins_kept ?c d \<and>
    index_bs (cc_index d) = index_bs (cc_index ?c) \<and>
    node_count (cc_index d) \<le> node_count (cc_index ?c) + 2 * Suc (unat (bc_block_index cand)) + 1 \<and>
    cached_run d ch toks (held @ new) \<and> as_status r \<noteq> AlreadyPresent \<and>
    ((as_status r = Admitted \<and> length held = unat (bc_block_index cand) \<and>
        (\<exists>i. new = [i] \<and> as_handle r = Some (Some (store_slot i)) \<and> has_block i (cc_manager d) \<and>
           br_state (block_of i (cc_manager d)) = Ready \<and> br_refcount (block_of i (cc_manager d)) = 1)) \<or>
     (as_status r \<noteq> Admitted \<and> new = []))"
    by (rule admit_behind_run [OF p(1-3) room]) (use p(5-7,9) cand in auto)
  then obtain r d new where rd: "admit xxh64 now (lc_config lc) cand ?ctx ?c = (Inr r, d)" "cache_inv d" "pins_kept ?c d"
    "index_bs (cc_index d) = index_bs (cc_index ?c)"
    "node_count (cc_index d) \<le> node_count (cc_index ?c) + 2 * Suc (unat (bc_block_index cand)) + 1"
    "cached_run d ch toks (held @ new)" "as_status r \<noteq> AlreadyPresent"
    and st: "(as_status r = Admitted \<and> length held = unat (bc_block_index cand) \<and>
        (\<exists>i. new = [i] \<and> as_handle r = Some (Some (store_slot i)) \<and> has_block i (cc_manager d) \<and>
           br_state (block_of i (cc_manager d)) = Ready \<and> br_refcount (block_of i (cc_manager d)) = 1)) \<or>
     (as_status r \<noteq> Admitted \<and> new = [])" by blast
  let ?lc = "lc\<lparr>lc_core := d\<rparr>"
  define out1 where "out1 = (if as_status r = Admitted
    then out\<lparr>ao_admitted_handles := ao_admitted_handles out @ map (\<lambda>i. Some (store_slot i)) new,
             ao_admitted_count := ao_admitted_count out + 1\<rparr>
    else out\<lparr>ao_rejected_count := ao_rejected_count out + 1\<rparr>)"
  have ext: "extends_run ?c d ch toks held new" using rd(2-4,6) st by (auto simp: extends_run_def)
  have step: "admission_loop xxh64 now (cand # cands) out lc = admission_loop xxh64 now cands out1 ?lc"
    using rd(1,7) st by (auto simp: admit_block_def Let_def on_core_def on_member_def out1_def)
  have bs: "ag_block_size (lc_config ?lc) = px_block_size (cc_index (lc_core ?lc))"
    using p(3) block_size_eq [OF rd(4)] by simp
  have room': "node_count (cc_index (lc_core ?lc)) + length cands * (2 * n + 3) < invalid_node"
    using p(4) rd(5) idx by simp
  have n: "n = length toks div index_bs (cc_index (lc_core ?lc))" using p(6) rd(4) by simp
  have pins: "\<forall>i \<in> set (held @ new). has_block i (cc_manager (lc_core ?lc)) \<and>
      br_refcount (block_of i (cc_manager (lc_core ?lc))) \<noteq> 0"
    using pins_kept_blocks [OF rd(3) p(7)] p(7) st by auto
  have cands: "candidates_from xxh64 ch toks (index_bs (cc_index (lc_core ?lc))) (Suc a) cands"
    using cand rd(4) by simp
  have len: "length (held @ new) \<le> Suc a" using st p(9) idx by auto
  obtain out' lc' more where ih: "admission_loop xxh64 now cands out1 ?lc = (Inr out', lc')"
    "lc_config lc' = lc_config ?lc" "lc_block_size lc' = lc_block_size ?lc"
    "extends_run (lc_core ?lc) (lc_core lc') ch toks (held @ new) more"
    "ao_admitted_handles out' = ao_admitted_handles out1 @ map (\<lambda>i. Some (store_slot i)) more"
    "ao_admitted_count out' = ao_admitted_count out1 + of_nat (length more)"
    "ao_rejected_count out' = ao_rejected_count out1 + of_nat (length cands - length more)"
    "length more \<le> length cands"
    using Cons.IH [of ?lc "held @ new" "Suc a" out1, OF _ _ bs room' _ n pins cands len] rd(2,6) p(2) by auto
  have "extends_run ?c (lc_core lc') ch toks held (new @ more)"
    by (rule extends_run_trans [OF ext]) (use ih(4) in simp)
  with step ih st show ?case
    by (intro exI [of _ out'] exI [of _ lc'] exI [of _ "new @ more"]) (auto simp: out1_def Suc_diff_le of_nat_diff)
qed

section \<open>The pipeline\<close>

text \<open>A worker's cache as its constructor sets it up: one block size throughout, an eviction policy that
  picks candidates, and reference counts that can still grow.\<close>

definition cache_ready :: "local_cache \<Rightarrow> route_request \<Rightarrow> bool" where
  "cache_ready lc req \<longleftrightarrow> cache_inv (lc_core lc) \<and> lc_block_size lc = px_block_size (cc_index (lc_core lc)) \<and>
     ag_block_size (lc_config lc) = lc_block_size lc \<and> ck_block_size (rq_context req) = lc_block_size lc \<and>
     candidate_eviction (ep_choose_victim (ag_eviction (lc_config lc))) \<and>
     (\<forall>i. has_block i (cc_manager (lc_core lc)) \<longrightarrow> br_refcount (block_of i (cc_manager (lc_core lc))) + 1 \<noteq> 0)"

text \<open>The index nodes a request may add.\<close>

definition index_room :: "local_cache \<Rightarrow> route_request \<Rightarrow> bool" where
  "index_room lc req \<longleftrightarrow> (let n = length (rq_tokens req) div index_bs (cc_index (lc_core lc)) in
     node_count (cc_index (lc_core lc)) + n * (2 * n + 3) < invalid_node)"

lemma world_ok_update:
  "world_ok w \<Longrightarrow> cache_inv (lc_core lc) \<Longrightarrow> world_ok (w\<lparr>wo_caches := (wo_caches w)[k := lc]\<rparr>)"
  by (auto simp: world_ok_def list_all_iff dest!: set_update_subset_insert [THEN subsetD])

lemma lookup_stage_ok:
  assumes ready: "cache_ready lc req" and toks: "length (rq_tokens req) < 2 ^ 32"
    and run: "cached_run (lc_core lc) ch (rq_tokens req) held"
    and ch: "ch = compute_context_hash xxh64 (rq_context req)"
  shows "\<exists>local d. lookup_stage xxh64 now req lc = (Inr local, lc\<lparr>lc_core := d\<rparr>) \<and> cache_inv d \<and>
    cc_index d = cc_index (lc_core lc) \<and> lo_matched_blocks local = map (\<lambda>i. Some (store_slot i)) held \<and>
    length held < 2 ^ 32 \<and>
    (\<forall>i \<in> set held. has_block i (cc_manager d) \<and> br_state (block_of i (cc_manager d)) = Ready \<and>
       br_refcount (block_of i (cc_manager d)) \<noteq> 0)"
proof -
  let ?c = "lc_core lc" and ?bs = "lc_block_size lc"
  have r: "cache_inv ?c" "?bs = px_block_size (cc_index ?c)" "\<And>i. has_block i (cc_manager ?c) \<Longrightarrow> br_refcount (block_of i (cc_manager ?c)) + 1 \<noteq> 0"
    using ready by (simp_all add: cache_ready_def)
  note ci = cache_invD [OF r(1)]
  have B: "0 < index_bs (cc_index ?c)" by (rule px.block_size [OF ci(3)])
  then have ne: "?bs \<noteq> 0" using r(2) by (auto simp: index_bs_def)
  have held: "found_blocks ?c ch (rq_tokens req) = held" by (rule cached_run_all [OF B run])
  note look = engine_lookup_ok [OF r(1,2), where ctx = ch and toks = "rq_tokens req" and now = now, unfolded held]
  let ?d = "?c\<lparr>cc_manager := fold (pin_block now) held (cc_manager ?c)\<rparr>"
  have dist: "distinct held" using found_distinct [OF ci(3), of ch "rq_tokens req"] held by simp
  have "\<exists>local. lookup_stage xxh64 now req lc = (Inr local, lc\<lparr>lc_core := ?d\<rparr>) \<and>
      lo_matched_blocks local = map (\<lambda>i. Some (store_slot i)) held"
    using look(1) ne
    by (simp add: lookup_stage_def lookup_prefix_def Let_def on_core_def on_manager_def on_member_def
        return_with_def ch [symmetric])
  moreover have "length held < 2 ^ 32"
    using run toks unfolding cached_run_def by (meson div_le_dividend le_less_trans le_trans)
  moreover have "has_block i (cc_manager ?d) \<and> br_state (block_of i (cc_manager ?d)) = Ready \<and>
      br_refcount (block_of i (cc_manager ?d)) \<noteq> 0" if i: "i \<in> set held" for i
  proof -
    have "i \<in> set (found_blocks ?c ch (rq_tokens req))" using i held by simp
    then obtain p where "block_at (cc_index ?c) ch p = Some i" by (rule found_indexed [OF ci(3)])
    then have at: "block_at (cc_index ?d) ch p = Some i" "has_block i (cc_manager ?c)"
      using ci(5) by simp_all
    moreover have "br_refcount (block_of i (cc_manager ?d)) = br_refcount (block_of i (cc_manager ?c)) + 1"
      using look(4) [where j = i] dist i by (simp add: count_list_eq_length_filter distinct_length_filter inf.absorb1)
    ultimately show ?thesis using cache_invD(5,6) [OF look(2)] r(3) [OF at(2)] by simp
  qed
  moreover have "cc_index ?d = cc_index ?c" by simp
  ultimately show ?thesis using look(2) by blast
qed

lemma found_same_but_access:
  assumes "same_but_access c d"
  shows "cached_run d ch toks held = cached_run c ch toks held"
    "cc_index d = cc_index c" "has_block i (cc_manager d) = has_block i (cc_manager c)"
  using assms by (simp_all add: cached_run_def same_but_access_def)

lemma candidates_of_request:
  assumes "fetched_prefix xxh64 xxh128 w req k cands" "B = unat (ck_block_size (rq_context req))"
  shows "candidates_from xxh64 (compute_context_hash xxh64 (rq_context req)) (rq_tokens req) B k cands"
  using assms unfolding fetched_prefix_def candidates_from_def Let_def by auto

text \<open>The result assembled from a run and its extension.\<close>

lemma assemble_ok:
  assumes "lo_matched_blocks local = map (\<lambda>i. Some (store_slot i)) held"
    "ao_admitted_handles adm = map (\<lambda>i. Some (store_slot i)) new" "ao_admitted_count adm = of_nat (length new)"
    and toks: "length (held @ new) * unat (ck_block_size (rq_context req)) < 2 ^ 32"
      "length (held @ new) < 2 ^ 32"
  shows "rr_reusable_blocks (assemble req local adm) = map (\<lambda>i. Some (store_slot i)) (held @ new)"
    "rr_miss_token_offset (assemble req local adm) = rr_matched_tokens (assemble req local adm)"
    "unat (rr_local_hit_blocks (assemble req local adm)) = length held"
    "unat (rr_remote_hit_blocks (assemble req local adm)) = length new"
    "unat (rr_matched_tokens (assemble req local adm)) =
       length (held @ new) * unat (ck_block_size (rq_context req))"
  using assms unat_of_nat_mult [OF toks(1)] by (simp_all add: assemble_def Let_def)

text \<open>The local lookup and the resolution: the worker's own cache keeps its run, pinned now.\<close>

lemma lookup_and_resolve_ok:
  assumes ok: "world_ok w" and me: "me < length (wo_caches w)" and ready: "cache_ready (wo_caches w ! me) req"
    and toks: "length (rq_tokens req) < 2 ^ 32" and ch: "ch = compute_context_hash xxh64 (rq_context req)"
    and run: "cached_run (core_at me w) ch (rq_tokens req) held"
  shows "\<exists>local w1 out w2. on_cache me (lookup_stage xxh64 now req) w = (Inr local, w1) \<and>
    lo_matched_blocks local = map (\<lambda>i. Some (store_slot i)) held \<and>
    resolve_remote xxh64 xxh128 now pol req local w1 = (Inr out, w2) \<and> world_ok w2 \<and>
    length (wo_caches w2) = length (wo_caches w) \<and>
    lc_config (wo_caches w2 ! me) = lc_config (wo_caches w ! me) \<and> cc_index (core_at me w2) = cc_index (core_at me w) \<and>
    (\<forall>i \<in> set held. has_block i (cc_manager (core_at me w2)) \<and>
       br_state (block_of i (cc_manager (core_at me w2))) = Ready \<and>
       br_refcount (block_of i (cc_manager (core_at me w2))) \<noteq> 0) \<and>
    candidates_from xxh64 ch (rq_tokens req) (index_bs (cc_index (core_at me w))) (length held) (ro_fetched_blocks out)"
proof -
  let ?lc = "wo_caches w ! me" and ?bs = "ck_block_size (rq_context req)"
  have rd: "?bs = px_block_size (cc_index (core_at me w))" using ready by (simp add: cache_ready_def)
  have B: "unat ?bs = index_bs (cc_index (core_at me w))" "?bs \<noteq> 0"
    using px.block_size [OF cache_invD(3) [OF world_okD(2) [OF ok me]]] rd by (auto simp: index_bs_def)
  obtain local d where look: "lookup_stage xxh64 now req ?lc = (Inr local, ?lc\<lparr>lc_core := d\<rparr>)" "cache_inv d"
    "cc_index d = cc_index (core_at me w)" "lo_matched_blocks local = map (\<lambda>i. Some (store_slot i)) held"
    "length held < 2 ^ 32"
    "\<forall>i \<in> set held. has_block i (cc_manager d) \<and> br_state (block_of i (cc_manager d)) = Ready \<and>
       br_refcount (block_of i (cc_manager d)) \<noteq> 0"
    using lookup_stage_ok [OF ready toks run ch] by blast
  let ?w1 = "w\<lparr>wo_caches := (wo_caches w)[me := ?lc\<lparr>lc_core := d\<rparr>]\<rparr>"
  have w1: "world_ok ?w1" "core_at me ?w1 = d" "lc_config (wo_caches ?w1 ! me) = lc_config ?lc"
    using world_ok_update [OF ok, of "?lc\<lparr>lc_core := d\<rparr>" me] look(2) me by simp_all
  have matched: "length (lo_matched_blocks local) < 2 ^ 32" using look(4,5) by simp
  obtain out w2 where res: "resolve_remote xxh64 xxh128 now pol req local ?w1 = (Inr out, w2)" "world_ok w2"
    "accessed ?w1 w2" "fetched_prefix xxh64 xxh128 ?w1 req (length (lo_matched_blocks local)) (ro_fetched_blocks out)"
    using resolve_remote_ok [OF w1(1) B(2) toks matched] by blast
  have same: "same_but_access d (core_at me w2)" and cfg: "lc_config (wo_caches w2 ! me) = lc_config ?lc"
    and len: "length (wo_caches w2) = length (wo_caches w)"
    using res(3) me w1(2,3) by (auto simp: accessed_def)
  note sf = found_same_but_access [OF same] and fld = same_but_access_fields [OF same]
  have "candidates_from xxh64 ch (rq_tokens req) (index_bs (cc_index (core_at me w))) (length held) (ro_fetched_blocks out)"
    using candidates_of_request [OF res(4) B(1) [symmetric]] ch look(4) by simp
  moreover have "on_cache me (lookup_stage xxh64 now req) w = (Inr local, ?w1)"
    using me look(1) by (simp add: on_cache_def)
  ultimately show ?thesis using res(1,2) look(3,4,6) cfg len
    by (intro exI [of _ local] exI [of _ ?w1] exI [of _ out] exI [of _ w2]) (simp add: sf(2,3) fld)
qed

lemma run_pipeline_ok:
  assumes ok: "world_ok w" and me: "me < length (wo_caches w)"
    and ready: "cache_ready (wo_caches w ! me) req" and room: "index_room (wo_caches w ! me) req"
    and toks: "length (rq_tokens req) < 2 ^ 32"
    and ch: "ch = compute_context_hash xxh64 (rq_context req)"
    and run: "cached_run (core_at me w) ch (rq_tokens req) held"
  shows "\<exists>res w' new. run_pipeline xxh64 xxh128 now pol me req w = (Inr res, w') \<and> world_ok w' \<and>
    length (wo_caches w') = length (wo_caches w) \<and>
    cached_run (core_at me w') ch (rq_tokens req) (held @ new) \<and>
    (\<forall>i \<in> set (held @ new). br_state (block_of i (cc_manager (core_at me w'))) = Ready \<and>
       br_refcount (block_of i (cc_manager (core_at me w'))) \<noteq> 0) \<and>
    rr_reusable_blocks res = map (\<lambda>i. Some (store_slot i)) (held @ new) \<and>
    unat (rr_matched_tokens res) = length (held @ new) * unat (ck_block_size (rq_context req)) \<and>
    rr_miss_token_offset res = rr_matched_tokens res \<and>
    unat (rr_local_hit_blocks res) = length held \<and> unat (rr_remote_hit_blocks res) = length new"
proof -
  let ?toks = "rq_tokens req" and ?B = "index_bs (cc_index (core_at me w))"
  let ?N = "length (rq_tokens req) div index_bs (cc_index (core_at me w))"
  have rd: "ck_block_size (rq_context req) = px_block_size (cc_index (core_at me w))"
    "ag_block_size (lc_config (wo_caches w ! me)) = px_block_size (cc_index (core_at me w))"
    "candidate_eviction (ep_choose_victim (ag_eviction (lc_config (wo_caches w ! me))))"
    using ready by (simp_all add: cache_ready_def)
  obtain local w1 out w2 where pre: "on_cache me (lookup_stage xxh64 now req) w = (Inr local, w1)"
    "lo_matched_blocks local = map (\<lambda>i. Some (store_slot i)) held"
    "resolve_remote xxh64 xxh128 now pol req local w1 = (Inr out, w2)" "world_ok w2"
    "length (wo_caches w2) = length (wo_caches w)" "lc_config (wo_caches w2 ! me) = lc_config (wo_caches w ! me)"
    "cc_index (core_at me w2) = cc_index (core_at me w)"
    "\<forall>i \<in> set held. has_block i (cc_manager (core_at me w2)) \<and>
       br_state (block_of i (cc_manager (core_at me w2))) = Ready \<and>
       br_refcount (block_of i (cc_manager (core_at me w2))) \<noteq> 0"
    "candidates_from xxh64 ch ?toks ?B (length held) (ro_fetched_blocks out)"
    using lookup_and_resolve_ok [OF ok me ready toks ch run] by blast
  let ?cands = "ro_fetched_blocks out" and ?lc2 = "wo_caches w2 ! me"
  have me2: "me < length (wo_caches w2)" using pre(5) me by simp
  have held_run: "cached_run (lc_core ?lc2) ch ?toks held" using run pre(7) by (simp add: cached_run_def)
  have "length ?cands \<le> ?N" using pre(9) run by (auto simp: candidates_from_def cached_run_def)
  then have le: "length ?cands * (2 * ?N + 3) \<le> ?N * (2 * ?N + 3)" by (rule mult_le_mono1)
  have "node_count (cc_index (core_at me w)) + ?N * (2 * ?N + 3) < invalid_node"
    using room by (simp only: index_room_def Let_def)
  then have room2: "node_count (cc_index (lc_core ?lc2)) + length ?cands * (2 * ?N + 3) < invalid_node"
    unfolding pre(7) using le by linarith
  let ?none = "\<lparr>ao_admitted_handles = [], ao_admitted_count = 0, ao_rejected_count = 0\<rparr>"
  have "\<exists>out' lc' new. admission_loop xxh64 now ?cands ?none ?lc2 = (Inr out', lc') \<and>
    lc_config lc' = lc_config ?lc2 \<and> lc_block_size lc' = lc_block_size ?lc2 \<and>
    extends_run (lc_core ?lc2) (lc_core lc') ch ?toks held new \<and>
    ao_admitted_handles out' = ao_admitted_handles ?none @ map (\<lambda>i. Some (store_slot i)) new \<and>
    ao_admitted_count out' = ao_admitted_count ?none + of_nat (length new) \<and>
    ao_rejected_count out' = ao_rejected_count ?none + of_nat (length ?cands - length new) \<and>
    length new \<le> length ?cands"
    by (rule admission_loop_ok [where a = "length held" and n = ?N])
      (use world_okD(2) [OF pre(4) me2] rd(2,3) pre(6-9) room2 held_run in simp_all)
  then obtain adm lc3 new where adm: "admission_loop xxh64 now ?cands ?none ?lc2 = (Inr adm, lc3)"
    "extends_run (lc_core ?lc2) (lc_core lc3) ch ?toks held new"
    "ao_admitted_handles adm = map (\<lambda>i. Some (store_slot i)) new" "ao_admitted_count adm = of_nat (length new)" by auto
  note ext = adm(2) [unfolded extends_run_def]
  let ?w3 = "w2\<lparr>wo_caches := (wo_caches w2)[me := lc3]\<rparr>"
  have runs: "run_pipeline xxh64 xxh128 now pol me req w = (Inr (assemble req local adm), ?w3)"
    using me2 pre(1,3) adm(1)
    by (simp add: run_pipeline_def on_cache_def admit_remote_blocks_def admit_candidates_def return_with_def)
  have w3: "world_ok ?w3" "core_at me ?w3 = lc_core lc3" "length (wo_caches ?w3) = length (wo_caches w)"
    using world_ok_update [OF pre(4)] ext me2 pre(5) by simp_all
  have pinned: "\<forall>i \<in> set (held @ new). br_state (block_of i (cc_manager (lc_core lc3))) = Ready \<and>
      br_refcount (block_of i (cc_manager (lc_core lc3))) \<noteq> 0"
    using pins_kept_blocks [of "lc_core ?lc2" "lc_core lc3" held] ext pre(8) by auto
  have bs3: "index_bs (cc_index (lc_core lc3)) = ?B" using ext pre(7) by simp
  have n: "length (held @ new) \<le> ?N" using ext unfolding cached_run_def bs3 by blast
  then have "length (held @ new) * ?B \<le> length ?toks" by (meson div_times_less_eq_dividend le_trans mult_le_mono1)
  then have small: "length (held @ new) * unat (ck_block_size (rq_context req)) < 2 ^ 32" "length (held @ new) < 2 ^ 32"
    using toks rd(1) le_less_trans [OF le_trans [OF n div_le_dividend] toks] by (simp_all add: index_bs_def)
  show ?thesis
    using runs w3 pinned assemble_ok [OF pre(2) adm(3,4) small] ext
    by (intro exI [of _ "assemble req local adm"] exI [of _ ?w3] exI [of _ new]) simp
qed

text \<open>C2: a request returns exactly the prefix its worker caches at the end. In a world of consistent
  caches without tiers, for a worker whose index holds nothing behind the request's miss and has room,
  the pipeline never throws. The handles of the result are the cached prefix of the request's
  tokens after the run, in order; each of these blocks is ready and pinned, so nothing can evict it
  while the result lives. The matched tokens are those of the handles, the local hits the prefix
  cached before, and the remote hits the rest.\<close>

theorem request_returns_cached_prefix:
  assumes "world_ok w" "me < length (wo_caches w)" "cache_ready (wo_caches w ! me) req"
    and "index_room (wo_caches w ! me) req" "length (rq_tokens req) < 2 ^ 32"
    and ch: "ch = compute_context_hash xxh64 (rq_context req)"
    and behind: "cached_run (core_at me w) ch (rq_tokens req) (found_blocks (core_at me w) ch (rq_tokens req))"
  shows "\<exists>res w'. run_pipeline xxh64 xxh128 now pol me req w = (Inr res, w') \<and> world_ok w' \<and>
    rr_reusable_blocks res = map (\<lambda>i. Some (store_slot i)) (found_blocks (core_at me w') ch (rq_tokens req)) \<and>
    (\<forall>i \<in> set (found_blocks (core_at me w') ch (rq_tokens req)).
       br_state (block_of i (cc_manager (core_at me w'))) = Ready \<and>
       br_refcount (block_of i (cc_manager (core_at me w'))) \<noteq> 0) \<and>
    unat (rr_matched_tokens res) = length (rr_reusable_blocks res) * unat (ck_block_size (rq_context req)) \<and>
    rr_miss_token_offset res = rr_matched_tokens res \<and>
    unat (rr_local_hit_blocks res) = length (found_blocks (core_at me w) ch (rq_tokens req)) \<and>
    unat (rr_local_hit_blocks res) + unat (rr_remote_hit_blocks res) = length (rr_reusable_blocks res)"
proof -
  obtain res w' new where run: "run_pipeline xxh64 xxh128 now pol me req w = (Inr res, w')" "world_ok w'"
    "length (wo_caches w') = length (wo_caches w)"
    "cached_run (core_at me w') ch (rq_tokens req) (found_blocks (core_at me w) ch (rq_tokens req) @ new)"
    "\<forall>i \<in> set (found_blocks (core_at me w) ch (rq_tokens req) @ new).
       br_state (block_of i (cc_manager (core_at me w'))) = Ready \<and>
       br_refcount (block_of i (cc_manager (core_at me w'))) \<noteq> 0"
    "rr_reusable_blocks res = map (\<lambda>i. Some (store_slot i)) (found_blocks (core_at me w) ch (rq_tokens req) @ new)"
    "unat (rr_matched_tokens res) =
       length (found_blocks (core_at me w) ch (rq_tokens req) @ new) * unat (ck_block_size (rq_context req))"
    "rr_miss_token_offset res = rr_matched_tokens res"
    "unat (rr_local_hit_blocks res) = length (found_blocks (core_at me w) ch (rq_tokens req))"
    "unat (rr_remote_hit_blocks res) = length new"
    using run_pipeline_ok [OF assms, of xxh128 now pol] by blast
  have me: "me < length (wo_caches w')" using run(3) assms(2) by simp
  have "found_blocks (core_at me w') ch (rq_tokens req) = found_blocks (core_at me w) ch (rq_tokens req) @ new"
    by (rule cached_run_all [OF px.block_size [OF cache_invD(3) [OF world_okD(2) [OF run(2) me]]] run(4)])
  with run show ?thesis by (intro exI [of _ res] exI [of _ w']) simp
qed

theorem request_returns_cached_prefix_witness:
  "\<exists>res w'. run_pipeline (\<lambda>_. 7) demo_xxh128 5 first_replica 0 (demo_route [1, 2, 3, 4, 5]) demo_world = (Inr res, w') \<and>
     world_ok w' \<and> rr_reusable_blocks res =
       map (\<lambda>i. Some (store_slot i)) (found_blocks (core_at 0 w') 7 [1, 2, 3, 4, 5])"
proof -
  let ?req = "demo_route [1, 2, 3, 4, 5]" and ?lc = "wo_caches demo_world ! 0"
  have lc: "?lc = make_simple_cache 2 4" by (simp add: demo_world_def)
  have x: "cc_index (lc_core ?lc) = make_index 4" by (simp add: lc make_simple_cache_def make_core_def)
  have bs: "index_bs (make_index 4) = 4" by (simp add: index_bs_def make_index_def)
  have "\<forall>i. has_block i (cc_manager (lc_core ?lc)) \<longrightarrow> br_refcount (block_of i (cc_manager (lc_core ?lc))) + 1 \<noteq> 0"
    by (auto simp: lc make_simple_cache_def make_core_def make_manager_def make_store_def in_store_def
        record_of_def fresh_record_def)
  then have ready: "cache_ready ?lc ?req"
    using world_okD(2) [OF demo_world_ok, of 0] never.candidate_eviction_axioms
    by (simp add: cache_ready_def lc make_simple_cache_def admission_controller_def make_core_def make_index_def demo_route_def demo_world_def)
  have room: "index_room ?lc ?req"
    by (simp add: index_room_def Let_def x index_bs_def demo_route_def make_index_def invalid_node_def)
  have behind: "cached_run (core_at 0 demo_world) 7 (rq_tokens ?req) (found_blocks (core_at 0 demo_world) 7 (rq_tokens ?req))"
    by (simp add: cached_run_def x bs block_at_make_index prefix_blocks_def demo_route_def)
  have "7 = compute_context_hash (\<lambda>_. 7) (rq_context ?req)" by (simp add: compute_context_hash_def)
  from request_returns_cached_prefix [OF demo_world_ok _ ready room _ this behind, of demo_xxh128 5 first_replica]
  show ?thesis by (auto simp: demo_world_def demo_route_def)
qed

section \<open>A result with a gap\<close>

text \<open>A cache of three slots and blocks of two tokens. The block 1 2 3 4 is cached, its ancestor 1 2 was
  evicted.\<close>

definition both_index :: prefix_index where
  "both_index = \<lparr>px_block_size = 2,
     px_nodes = [leaf_at [] None [(1, 1)] invalid_node, leaf_at [1, 2] (Some 5) [(3, 2)] 0, leaf_at [3, 4] (Some 0) [] 1],
     px_roots = [(7, 0)], px_block_node = [(5, 1), (0, 2)]\<rparr>"

definition orphan_index :: prefix_index where
  "orphan_index = \<lparr>px_block_size = 2,
     px_nodes = [leaf_at [] None [(1, 1)] invalid_node, leaf_at [1, 2] None [(3, 2)] 0, leaf_at [3, 4] (Some 0) [] 1],
     px_roots = [(7, 0)], px_block_node = [(0, 2)]\<rparr>"

definition refilled_index :: prefix_index where
  "refilled_index = \<lparr>px_block_size = 2,
     px_nodes = [leaf_at [] None [(1, 1)] invalid_node, leaf_at [1, 2] (Some 1) [(3, 2)] 0, leaf_at [3, 4] (Some 0) [] 1],
     px_roots = [(7, 0)], px_block_node = [(0, 2), (1, 1)]\<rparr>"

definition extended_index :: prefix_index where
  "extended_index = \<lparr>px_block_size = 2,
     px_nodes = [leaf_at [] None [(1, 1)] invalid_node, leaf_at [1, 2] (Some 1) [(3, 2)] 0,
       leaf_at [3, 4] (Some 0) [(5, 3)] 1, leaf_at [5, 6] (Some 2) [] 2],
     px_roots = [(7, 0)], px_block_node = [(0, 2), (1, 1), (2, 3)]\<rparr>"

lemma orphan_steps:
  "index_insert 7 [1, 2, 3, 4] [5, 0] (make_index 2) = Some both_index" "index_remove 5 both_index = Some orphan_index"
  "index_lookup 7 [1, 2] orphan_index = Some \<lparr>il_blocks = [], il_matched_tokens = 0\<rparr>"
  "index_lookup 7 [] orphan_index = Some \<lparr>il_blocks = [], il_matched_tokens = 0\<rparr>"
  "index_insert 7 [1, 2] [1] orphan_index = Some refilled_index"
  "index_lookup 7 [1, 2, 3, 4] refilled_index = Some \<lparr>il_blocks = [1, 0], il_matched_tokens = 4\<rparr>"
  "index_lookup 7 [1, 2, 3, 4, 5, 6] refilled_index = Some \<lparr>il_blocks = [1, 0], il_matched_tokens = 4\<rparr>"
  "index_insert 7 [1, 2, 3, 4, 5, 6] [1, 0, 2] refilled_index = Some extended_index"
  by code_simp+

definition gap_manager :: block_manager where
  "gap_manager = snd (manager_transition 0 Admitting Ready
     (snd (manager_create_block demo_hash 1 2 GpuSim (make_manager 3))))"

definition gap_cache :: local_cache where
  "gap_cache = (make_simple_cache 3 2)\<lparr>lc_core := (make_core 3 2 None Null_event_sink Null_decision_logger)
     \<lparr>cc_manager := gap_manager, cc_index := orphan_index\<rparr>\<rparr>"

lemma gap_cache_inv: "cache_inv (lc_core gap_cache)"
proof -
  let ?c = "make_core 3 2 None Null_event_sink Null_decision_logger"
  have x: "cc_index ?c = make_index 2" "cc_manager ?c = make_manager 3" by (simp_all add: make_core_def)
  have bs: "index_bs (make_index 2) = 2" by (simp add: index_bs_def make_index_def)
  have "insertable (make_index 2) 7 [1, 2, 3, 4] [5, 0]" by code_simp
  from index_insert_refines [OF index_wf_make_index this] bs orphan_steps(1)
  have both: "index_wf both_index" "index_bs both_index = 2"
    "block_at both_index = put_blocks 2 7 [1, 2, 3, 4] 0 [5, 0] (block_at (make_index 2))" by auto
  have y: "index_wf orphan_index" "index_bs orphan_index = 2"
    "block_at orphan_index = drop_block 5 (block_at both_index)"
    using index_remove_refines [OF both(1), of 5] orphan_steps(2) both(2) by auto
  have at: "block_at orphan_index = (block_at (make_index 2))(7 := (block_at (make_index 2) 7)([1, 2, 3, 4] \<mapsto> 0))"
    by (intro ext) (simp add: y(3) both(3) drop_block_def block_at_make_index put_absent_def)
  let ?m = "snd (manager_create_block demo_hash 1 2 GpuSim (make_manager 3))"
  have "bp_free (bm_pool (cc_manager ?c)) \<noteq> []" by code_simp
  from create_block_ok [OF cache_inv_make_core this, of demo_hash 1 2 GpuSim]
  obtain i g m where m: "manager_create_block demo_hash 1 2 GpuSim (make_manager 3) = (Inr (Some (i, g)), m)"
    "cache_inv (?c\<lparr>cc_manager := m\<rparr>)" "has_block i m" "block_of i m = new_record i g demo_hash 1 2 GpuSim"
    by (auto simp: x(2))
  have "fst (manager_create_block demo_hash 1 2 GpuSim (make_manager 3)) = Inr (Some (0, 1))" by code_simp
  then have i: "i = 0" using m(1) by simp
  have "\<exists>n. manager_transition i Admitting Ready (cc_manager (?c\<lparr>cc_manager := m\<rparr>)) = (Inr (), n) \<and>
    cache_inv ((?c\<lparr>cc_manager := m\<rparr>)\<lparr>cc_manager := n, cc_index := orphan_index\<rparr>) \<and>
    usable (px_block_size (cc_index (?c\<lparr>cc_manager := m\<rparr>))) n i \<and>
    block_of i n = (block_of i (cc_manager (?c\<lparr>cc_manager := m\<rparr>)))\<lparr>br_state := Ready\<rparr> \<and>
    (\<forall>j. has_block j n = has_block j (cc_manager (?c\<lparr>cc_manager := m\<rparr>))) \<and>
    (\<forall>j. j \<noteq> i \<longrightarrow> block_of j n = block_of j (cc_manager (?c\<lparr>cc_manager := m\<rparr>)))"
    by (rule finish_block [OF m(2), where ctx = 7 and toks = "[1, 2, 3, 4]"])
      (use m(3,4) y at bs i in \<open>simp_all add: x(1) new_record_def make_index_def\<close>)
  then show ?thesis by (auto simp: gap_cache_def gap_manager_def m(1) i)
qed

definition slot_record :: "u64 \<Rightarrow> content_hash \<Rightarrow> u32 \<Rightarrow> block_record" where
  "slot_record g h idx = \<lparr>br_id = 0, br_generation = g, br_hash = h, br_block_index = idx,
     br_token_count = (if g = 0 then 0 else 2), br_tier = GpuSim, br_refcount = 0, br_last_access_ns = 0,
     br_access_count = 0, br_payload = payload_invalid, br_state = (if g = 0 then Free else Ready)\<rparr>"

lemma gap_manager_eq:
  "gap_manager = \<lparr>bm_pool = \<lparr>bp_capacity = 3, bp_generations = [1, 0, 0], bp_in_use = [True, False, False], bp_free = [2, 1]\<rparr>,
     bm_store = \<lparr>bs_capacity = 3, bs_records = [slot_record 1 demo_hash 1, slot_record 0 no_hash 0,
       slot_record 0 no_hash 0]\<rparr>\<rparr>"
  by code_simp

definition gap_remote :: remote_outcome where
  "gap_remote = \<lparr>ro_fetched_blocks = [demo_candidate 1 0 [1, 2], demo_candidate 2 1 [1, 2, 3, 4],
     demo_candidate 3 2 [1, 2, 3, 4, 5, 6]], ro_remote_hit_count = 3, ro_stale_ref_count = 0\<rparr>"

definition gap_request :: route_request where
  "gap_request = \<lparr>rq_request_id = 0, rq_context = demo_context, rq_tokens = [1, 2, 3, 4, 5, 6]\<rparr>"

lemma gap_admission:
  "\<exists>out lc'. admit_remote_blocks (\<lambda>_. 7) 1 gap_remote gap_cache = (Inr out, lc') \<and>
     ao_admitted_handles out = [Some 1, Some 2] \<and> ao_admitted_count out = 3 \<and>
     map br_block_index (bs_records (bm_store (cc_manager (lc_core lc')))) = [1, 0, 2]"
  by (simp add: gap_remote_def gap_cache_def make_simple_cache_def admission_controller_def gap_manager_eq admit_remote_blocks_def
      admit_candidates_def admit_block_def on_core_def orphan_steps admit_steps slot_record_def no_hash_def
      admit_failed_def)

text \<open>C16: when a block behind the miss is cached although its ancestor is not, the result of a request has a
  gap. In the consistent cache of the example, the remote blocks 0, 1 and 2 of the request are handed
  to the admission stage: 0 is admitted, 1 is already present and gives no handle, 2 is admitted. The
  assembled result counts three remote hits, holds handles on the blocks 0 and 2 only, and declares
  four matched tokens, as if these two were the first two blocks of the request.\<close>

theorem result_may_have_gap:
  "cache_inv (lc_core gap_cache) \<and>
   (\<exists>out lc'. admit_remote_blocks (\<lambda>_. 7) 1 gap_remote gap_cache = (Inr out, lc') \<and>
     rr_remote_hit_blocks (assemble gap_request no_local out) = 3 \<and>
     rr_reusable_blocks (assemble gap_request no_local out) = [Some 1, Some 2] \<and>
     rr_matched_tokens (assemble gap_request no_local out) = 4 \<and>
     map br_block_index (bs_records (bm_store (cc_manager (lc_core lc')))) = [1, 0, 2])"
proof -
  obtain out lc' where "admit_remote_blocks (\<lambda>_. 7) 1 gap_remote gap_cache = (Inr out, lc')"
    "ao_admitted_handles out = [Some 1, Some 2]" "ao_admitted_count out = 3"
    "map br_block_index (bs_records (bm_store (cc_manager (lc_core lc')))) = [1, 0, 2]"
    using gap_admission by (elim exE conjE)
  with gap_cache_inv show ?thesis
    by (auto simp: assemble_def Let_def no_local_def gap_request_def demo_context_def)
qed

end
