(* ===== verification/Bench_Props.thy ===== *)
theory Bench_Props
  imports Bench Request_Path
begin

text \<open>
  The benchmark admits the blocks the pipeline did not return. The candidates it builds by itself agree
  with the plan of the request for the missing blocks, which other workers look up by hash.
\<close>

lemma bench_block_size_unat [simp]: "unat bench_block_size = 16"
  by (simp add: bench_block_size_def)

lemma candidate_end:
  assumes "Suc k * 16 < 2 ^ 32"
  shows "unat ((of_nat k + 1) * bench_block_size) = Suc k * 16"
proof -
  have "unat (of_nat (Suc k) * bench_block_size) = Suc k * unat bench_block_size"
    by (rule unat_of_nat_mult) (use assms in simp)
  then show ?thesis by (simp add: add.commute)
qed

lemma candidate_is_planned:
  assumes ctx: "rq_context req = bench_context" and k: "Suc k * 16 \<le> length (rq_tokens req)"
    and toks: "length (rq_tokens req) < 2 ^ 32"
  shows "bc_hash (make_candidate xxh64 xxh128 bench_context (of_nat k) (rq_tokens req)) =
      mb_hash (planned xxh64 xxh128 req k)"
    "bc_tokens (make_candidate xxh64 xxh128 bench_context (of_nat k) (rq_tokens req)) =
      take (Suc k * 16) (rq_tokens req)"
proof -
  have "unat (of_nat k * bench_block_size) = k * 16"
    using unat_of_nat_mult [of k bench_block_size] k toks by simp
  then show "bc_hash (make_candidate xxh64 xxh128 bench_context (of_nat k) (rq_tokens req)) =
      mb_hash (planned xxh64 xxh128 req k)"
    by (simp add: make_candidate_def planned_def Let_def ctx) (simp add: bench_context_def)
  have "Suc k * 16 < 2 ^ 32" using k toks by simp
  then show "bc_tokens (make_candidate xxh64 xxh128 bench_context (of_nat k) (rq_tokens req)) =
      take (Suc k * 16) (rq_tokens req)"
    by (simp only: make_candidate_def block_candidate.simps candidate_end)
qed

text \<open>C38: the benchmark computes its blocks as the planner does. For a request in the benchmark's context
  of less than 2^32 tokens, of which a lookup matched some blocks, the planner's missing blocks are
  all full blocks after the matched ones, and for each of them \<open>makeCandidate\<close> gives the hash of the
  plan, so that a block announced after its admission is found by the next worker that misses it, and
  the tokens up to the end of the block, which is what \<open>admit\<close> requires.\<close>

theorem bench_candidates_are_planned:
  assumes ctx: "rq_context req = bench_context" and toks: "length (rq_tokens req) < 2 ^ 32"
    and matched: "length (lo_matched_blocks local) < 2 ^ 32"
  shows "\<exists>missing. plan_missing xxh64 xxh128 req local = Inr missing \<and>
    map (\<lambda>mb. unat (mb_block_index mb)) missing =
      [length (lo_matched_blocks local)..<length (rq_tokens req) div 16] \<and>
    (\<forall>mb \<in> set missing.
       let cand = make_candidate xxh64 xxh128 bench_context (mb_block_index mb) (rq_tokens req) in
       bc_hash cand = mb_hash mb \<and> bc_tokens cand = take ((unat (mb_block_index mb) + 1) * 16) (rq_tokens req) \<and>
       length (bc_tokens cand) = (unat (mb_block_index mb) + 1) * 16)"
proof -
  let ?ks = "[length (lo_matched_blocks local)..<length (rq_tokens req) div 16]"
  let ?ms = "map (planned xxh64 xxh128 req) ?ks"
  have bs: "ck_block_size (rq_context req) = bench_block_size" by (simp add: ctx bench_context_def)
  have plan: "plan_missing xxh64 xxh128 req local = Inr ?ms"
    using plan_missing_eq [OF _ toks matched, of xxh64 xxh128] by (simp add: bs) (simp add: bench_block_size_def)
  have k: "Suc k * 16 \<le> length (rq_tokens req)" "mb_block_index (planned xxh64 xxh128 req k) = of_nat k"
    "unat (of_nat k :: u32) = k" if "k \<in> set ?ks" for k
    using block_in_tokens [of k "length (rq_tokens req)" 16] that toks
    by (auto simp: planned_def Let_def intro: unat_of_nat_u32)
  have "map (\<lambda>mb. unat (mb_block_index mb)) ?ms = ?ks"
    unfolding map_map by (rule map_idI) (simp only: comp_def k)
  moreover have "\<forall>mb \<in> set ?ms.
       let cand = make_candidate xxh64 xxh128 bench_context (mb_block_index mb) (rq_tokens req) in
       bc_hash cand = mb_hash mb \<and> bc_tokens cand = take ((unat (mb_block_index mb) + 1) * 16) (rq_tokens req) \<and>
       length (bc_tokens cand) = (unat (mb_block_index mb) + 1) * 16"
  proof
    fix mb assume "mb \<in> set ?ms"
    then obtain j where j: "j \<in> set ?ks" "mb = planned xxh64 xxh128 req j" unfolding set_map by (rule imageE)
    note c = candidate_is_planned [OF ctx k(1) [OF j(1)] toks, of xxh64 xxh128]
    show "let cand = make_candidate xxh64 xxh128 bench_context (mb_block_index mb) (rq_tokens req) in
       bc_hash cand = mb_hash mb \<and> bc_tokens cand = take ((unat (mb_block_index mb) + 1) * 16) (rq_tokens req) \<and>
       length (bc_tokens cand) = (unat (mb_block_index mb) + 1) * 16"
      using c k(1) [OF j(1)] by (simp add: Let_def j(2) k(2,3) [OF j(1)])
  qed
  ultimately show ?thesis using plan by blast
qed

theorem bench_candidates_are_planned_witness:
  "\<exists>mb. plan_missing (\<lambda>_. 7) (\<lambda>b. (of_nat (length b), 2))
       \<lparr>rq_request_id = 0, rq_context = bench_context, rq_tokens = replicate 40 9\<rparr>
       \<lparr>lo_matched_blocks = [Some 0], lo_matched_tokens = 16, lo_miss_token_offset = 16, lo_context_hash = 7,
        lo_total_full_blocks = 2\<rparr> = Inr [mb] \<and>
     bc_hash (make_candidate (\<lambda>_. 7) (\<lambda>b. (of_nat (length b), 2)) bench_context (mb_block_index mb)
       (replicate 40 9)) = mb_hash mb"
proof -
  let ?req = "\<lparr>rq_request_id = 0, rq_context = bench_context, rq_tokens = replicate 40 9\<rparr> :: route_request"
  let ?local = "\<lparr>lo_matched_blocks = [Some 0], lo_matched_tokens = 16, lo_miss_token_offset = 16,
    lo_context_hash = 7, lo_total_full_blocks = 2\<rparr> :: lookup_outcome"
  have "[length (lo_matched_blocks ?local)..<length (rq_tokens ?req) div 16] = [1]" by (simp add: upt_rec)
  with bench_candidates_are_planned [of ?req ?local "\<lambda>_. 7" "\<lambda>b. (of_nat (length b), 2)"]
  show ?thesis by (auto simp: Let_def map_eq_Cons_conv)
qed

end
