(* ===== verification/Bench_Output.thy ===== *)
theory Bench_Output
  imports Bench
begin

text \<open>
  What \<open>apps/kvcache_bench.cc\<close> prints: the summary line of a run and the table of the policy
  comparison, as byte strings. A rate is printed with three digits after the point, rounded half to
  even from the exact value of the double, as \<open>std::fixed << std::setprecision(3)\<close> does.
\<close>

section \<open>Numbers and padding\<close>

definition digit_char :: "nat \<Rightarrow> char" where
  "digit_char d = char_of (48 + d)"

fun decimal :: "nat \<Rightarrow> string" where
  "decimal n = (if n < 10 then [digit_char n] else decimal (n div 10) @ [digit_char (n mod 10)])"

declare decimal.simps [simp del]

definition decimal_u32 :: "u32 \<Rightarrow> string" where
  "decimal_u32 n = decimal (unat n)"

text \<open>A rate is never negative.\<close>

definition fixed3 :: "rat \<Rightarrow> string" where
  "fixed3 x = (let n = nat (round_half_even (x * 1000)) in
     decimal (n div 1000) @ ''.'' @ [digit_char (n div 100 mod 10), digit_char (n div 10 mod 10), digit_char (n mod 10)])"

text \<open>\<open>std::left << std::setw(w)\<close>.\<close>

definition pad_right :: "nat \<Rightarrow> string \<Rightarrow> string" where
  "pad_right w s = s @ replicate (w - length s) (char_of (32 :: nat))"

section \<open>The summary of a run\<close>

definition newline :: string where
  "newline = [char_of (10 :: nat)]"

definition summary_line :: "bench_args \<Rightarrow> worker_rig list \<Rightarrow> u32 \<Rightarrow> string" where
  "summary_line args rigs possible =
     ''routing='' @ ba_routing args @ ''  eviction='' @ ba_eviction args @
     ''  workers='' @ decimal_u32 (ba_num_workers args) @ ''  requests='' @ decimal_u32 (ba_num_requests args) @
     ''  hit_rate='' @ fixed3 (hit_rate rigs possible) @
     ''  local='' @ decimal_u32 (total_of wr_local_hits rigs) @ ''  remote='' @ decimal_u32 (total_of wr_remote_hits rigs) @
     ''  remote_frac='' @ fixed3 (remote_fraction rigs) @ newline"

section \<open>The table of the comparison\<close>

text \<open>An em dash and the box drawing line are three bytes each in the source's encoding.\<close>

definition utf8 :: "nat list \<Rightarrow> string" where
  "utf8 bs = map char_of bs"

definition rule_of :: "nat \<Rightarrow> string" where
  "rule_of n = concat (replicate n (utf8 [226, 148, 128]))"

definition comparison_header :: string where
  "comparison_header =
     ''kvcache_bench '' @ utf8 [226, 128, 148] @ '' legacy demo (pass --routing / --eviction to configure)'' @
     newline @ newline @
     rule_of 2 @ '' Phase 2: single-node eviction policy comparison '' @ rule_of 18 @ newline @
     pad_right 20 ''policy'' @ ''  prefix_hit_rate  evictions  admissions'' @ newline @
     replicate 60 (CHR ''-'') @ newline"

definition comparison_line :: "phase2_result \<Rightarrow> string" where
  "comparison_line r =
     pad_right 20 (ph_policy_name r) @
     ''  hit_rate='' @ fixed3 (ddiv (double_of_u32 (ph_prefix_hits r)) (double_of_u32 (ph_prefix_possible r))) @
     ''  evictions='' @ decimal_u32 (ph_evictions r) @ ''  admissions='' @ decimal_u32 (ph_admissions r) @ newline"

text \<open>What the program writes to its two streams: the comparison to standard output, the summary of a
  run to standard error. A result that is an exception ends the output before its line.\<close>

definition comparison_text :: "phase2_result outcome list \<Rightarrow> string" where
  "comparison_text rs = comparison_header @ concat (map (comparison_line \<circ> projr) (takeWhile (\<lambda>r. \<not> isl r) rs))"

section \<open>Printed numbers are read back\<close>

lemma digit_char_value [simp]:
  "d < 10 \<Longrightarrow> of_char (digit_char d) = 48 + d" "d < 10 \<Longrightarrow> is_digit (digit_char d)"
  by (simp_all add: digit_char_def is_digit_def)

lemma decimal_digits: "decimal n \<noteq> [] \<and> (\<forall>c \<in> set (decimal n). is_digit c)"
  by (induction n rule: decimal.induct) (subst (1 2) decimal.simps, auto)

lemma digits_value_decimal: "digits_value (decimal n) = n"
proof (induction n rule: decimal.induct)
  case (1 n)
  then show ?case
    by (cases "n < 10"; subst decimal.simps) (simp_all add: digits_value_def)
qed

lemma digit_char_no_space: "is_digit c \<Longrightarrow> \<not> is_space c \<and> c \<noteq> CHR ''-'' \<and> c \<noteq> CHR ''+''"
  by (auto simp: is_digit_def is_space_def)

lemma stoul_decimal: "stoul (decimal_u32 n) = Inr (ucast n)"
proof -
  let ?s = "decimal_u32 n"
  have s: "?s \<noteq> []" "\<forall>c \<in> set ?s. is_digit c" using decimal_digits [of "unat n"] by (simp_all add: decimal_u32_def)
  then obtain c cs where cs: "?s = c # cs" "is_digit c" by (cases ?s) auto
  note first = digit_char_no_space [OF cs(2)]
  have "dropWhile is_space ?s = ?s" "split_sign ?s = (False, ?s)" using first by (simp_all add: cs(1) split_sign_def)
  moreover have "digits_value ?s = unat n" by (simp add: decimal_u32_def digits_value_decimal)
  moreover have "unat n < 2 ^ 64" using unat_u32_lt [of n] by simp
  moreover have "of_nat (unat n) = (ucast n :: u64)" by (rule word_unat_eq_iff [THEN iffD2]) simp
  ultimately show ?thesis using s(1)
    by (simp add: stoul_def Let_def takeWhile_eq_all_conv [THEN iffD2, OF s(2)])
qed

text \<open>The command line that gives a record of arguments.\<close>

definition command_line :: "bench_args \<Rightarrow> string list" where
  "command_line args =
     [''--routing'', ba_routing args, ''--eviction'', ba_eviction args, ''--workload'', ba_workload args,
      ''--workers'', decimal_u32 (ba_num_workers args), ''--capacity'', decimal_u32 (ba_capacity args),
      ''--requests'', decimal_u32 (ba_num_requests args), ''--seed'', decimal_u32 (ba_seed args),
      ''--output-json'', ba_output_json args] @ (if ba_stream_events args then [''--stream-events''] else [])"

text \<open>C39: every record of arguments can be given on the command line. \<open>parseArgs\<close> reads the flags with
  the strings and the decimal numbers of a record back to exactly this record: no number is cut or
  rejected, the strings may be anything, flags of other options included, and no flag is taken for
  another one's value.\<close>

theorem arguments_roundtrip: "parse_args (command_line args) = Inr args"
  by (cases args) (simp add: parse_args_def command_line_def stoul_decimal default_args_def)


section \<open>Rates\<close>

lemma round_half_even_int: "round_half_even (of_int k) = k"
  by (simp add: round_half_even_def)

text \<open>A 32-bit count is a double exactly.\<close>

lemma double_of_u32_exact: "double_of_u32 n = of_nat (unat n)"
proof (cases "unat n = 0")
  case True
  then show ?thesis by (simp add: double_of_u32_def round_double_def)
next
  case False
  let ?x = "of_nat (unat n) :: rat" and ?e = "binary_exponent (of_nat (unat n))"
  have "\<bar>?x\<bar> = of_int (int (unat n))" by (simp only: abs_of_nat of_int_of_nat_eq)
  then have q: "quotient_of \<bar>?x\<bar> = (int (unat n), 1)" by (simp only: quotient_of_int [unfolded Rat.of_int_def])
  have "bitlen (int (unat n)) \<le> 32" using uint_bounded [of n] by (subst bitlen_le_iff_power) simp_all
  moreover have "0 < bitlen (int (unat n))" using False bitlen_nonneg [of "int (unat n)"] bitlen_eq_zero_iff [of "int (unat n)"]
    by linarith
  moreover have "bitlen 1 = 1" by code_simp
  ultimately have e: "?e \<le> 52" "- 1 \<le> ?e" unfolding binary_exponent_def q Let_def by (simp_all split: if_splits)
  obtain k where k: "?e - 52 = - int k" using e(1) by (metis diff_le_0_iff_le neg_0_le_iff_le minus_minus zero_le_imp_eq_int)
  have ulp: "power_int 2 (max (?e - 52) (- 1074)) = (1 / 2 ^ k :: rat)"
    using e k by (simp add: max_def power_int_minus inverse_eq_divide)
  have "?x / (1 / 2 ^ k) = of_int (int (unat n) * 2 ^ k)" by simp
  then have "round_half_even (?x / (1 / 2 ^ k)) = int (unat n) * 2 ^ k" by (simp only: round_half_even_int)
  then show ?thesis using False unfolding double_of_u32_def round_double_def Let_def ulp by simp
qed

lemma compared_rate: "fixed3 (ddiv (double_of_u32 796) (double_of_u32 800)) = ''0.995''"
proof -
  have "quotient_of (199 / 200) = (199, 200)" "bitlen 199 = 8" "bitlen 200 = 8" by code_simp+
  then have "binary_exponent (199 / 200) = - 1" by (simp add: binary_exponent_def Let_def)
  moreover have "\<lfloor>224054081461682176 / 25 :: rat\<rfloor> = 8962163258467287" by (rule floor_unique) simp_all
  ultimately have rate: "ddiv (double_of_u32 796) (double_of_u32 800) = 8962163258467287 / 9007199254740992"
    by (simp add: double_of_u32_exact ddiv_def round_double_def Let_def round_half_even_def power_int_minus)
  have rounded: "round_half_even (8962163258467287 / 9007199254740992 * 1000) = 995"
  proof -
    have "\<lfloor>1120270407308410875 / 1125899906842624 :: rat\<rfloor> = 994" by (rule floor_unique) simp_all
    then show ?thesis by (simp add: round_half_even_def Let_def)
  qed
  have "decimal 0 = ''0''" "digit_char 9 = CHR ''9''" "digit_char 5 = CHR ''5''" by code_simp+
  then show ?thesis unfolding fixed3_def rate rounded by (simp add: Let_def)
qed

end
