(* ===== verification/Bench_Compare.thy ===== *)
theory Bench_Compare
  imports Bench_Props Bench_Output
begin

text \<open>
  The comparison of eviction policies on one worker, run to its end: what a request does to the cache,
  from the lookup over the admissions to the release of its handles, and the counts after all requests.
\<close>

section \<open>Handles that go\<close>

lemma drop_handle_unpins:
  assumes "has_block i (cc_manager (lc_core lc))"
  shows "drop_handle (Some (store_slot i)) lc =
    lc\<lparr>lc_core := (lc_core lc)\<lparr>cc_manager := unpin_block i (cc_manager (lc_core lc))\<rparr>\<rparr>"
  using assms by (simp add: drop_handle_def Let_def unpin_block_def handle_destroy_def bump_as_put_record put_block_def)

lemma cache_inv_unpin:
  assumes inv: "cache_inv c" and i: "has_block i (cc_manager c)" "br_refcount (block_of i (cc_manager c)) \<noteq> 0"
  shows "cache_inv (c\<lparr>cc_manager := unpin_block i (cc_manager c)\<rparr>)"
proof -
  note ci = cache_invD [OF inv]
  have "manager_ok (unpin_block i (cc_manager c))"
    by (rule manager_ok_unpin [OF _ i]) (simp add: manager_ok_def ci)
  then show ?thesis using ci(3-7) by (simp add: cache_inv_def manager_ok_def unpin_block_simps [OF ci(1) i(1)])
qed

text \<open>The handles of a lookup, dropped in order.\<close>

lemma drop_handles_unpin:
  assumes "cache_inv (lc_core lc)" "distinct is"
    and "\<forall>i \<in> set is. has_block i (cc_manager (lc_core lc)) \<and> br_refcount (block_of i (cc_manager (lc_core lc))) \<noteq> 0"
  shows "\<exists>m. fold drop_handle (map (\<lambda>i. Some (store_slot i)) is) lc = lc\<lparr>lc_core := (lc_core lc)\<lparr>cc_manager := m\<rparr>\<rparr> \<and>
    cache_inv ((lc_core lc)\<lparr>cc_manager := m\<rparr>) \<and> bm_pool m = bm_pool (cc_manager (lc_core lc)) \<and>
    (\<forall>j. has_block j m = has_block j (cc_manager (lc_core lc))) \<and>
    (\<forall>j. block_of j m = (if j \<in> set is
       then (block_of j (cc_manager (lc_core lc)))\<lparr>br_refcount := br_refcount (block_of j (cc_manager (lc_core lc))) - 1\<rparr>
       else block_of j (cc_manager (lc_core lc))))"
  using assms
proof (induction "is" arbitrary: lc)
  case Nil
  then show ?case by (intro exI [of _ "cc_manager (lc_core lc)"]) simp
next
  case (Cons i "is")
  let ?m = "cc_manager (lc_core lc)"
  have i: "has_block i ?m" "br_refcount (block_of i ?m) \<noteq> 0" using Cons.prems(3) by simp_all
  note s = unpin_block_simps [OF cache_invD(1) [OF Cons.prems(1)] i(1)]
  let ?lc = "lc\<lparr>lc_core := (lc_core lc)\<lparr>cc_manager := unpin_block i ?m\<rparr>\<rparr>"
  have "i \<notin> set is" using Cons.prems(2) by simp
  moreover have "\<exists>m. fold drop_handle (map (\<lambda>i. Some (store_slot i)) is) ?lc = ?lc\<lparr>lc_core := (lc_core ?lc)\<lparr>cc_manager := m\<rparr>\<rparr> \<and>
    cache_inv ((lc_core ?lc)\<lparr>cc_manager := m\<rparr>) \<and> bm_pool m = bm_pool (cc_manager (lc_core ?lc)) \<and>
    (\<forall>j. has_block j m = has_block j (cc_manager (lc_core ?lc))) \<and>
    (\<forall>j. block_of j m = (if j \<in> set is
       then (block_of j (cc_manager (lc_core ?lc)))\<lparr>br_refcount := br_refcount (block_of j (cc_manager (lc_core ?lc))) - 1\<rparr>
       else block_of j (cc_manager (lc_core ?lc))))"
    by (rule Cons.IH) (use Cons.prems cache_inv_unpin [OF Cons.prems(1) i] in \<open>auto simp: s\<close>)
  ultimately show ?case
    by (elim exE conjE) (rule exI, auto simp: drop_handle_unpins [OF i(1)] s)
qed

text \<open>The blocks a lookup does not return are as before it.\<close>

lemma pins_frame:
  assumes "manager_inv m" "unready_unpinned m" "\<forall>i \<in> set is. usable bs m i"
  shows "bm_pool (fold (pin_block now) is m) = bm_pool m \<and>
    (\<forall>j. has_block j (fold (pin_block now) is m) = has_block j m) \<and>
    (\<forall>j. j \<notin> set is \<longrightarrow> block_of j (fold (pin_block now) is m) = block_of j m)"
  using assms
proof (induction "is" arbitrary: m)
  case (Cons i "is")
  have u: "usable bs m i" "has_block i m" "br_state (block_of i m) = Ready"
    using Cons.prems(3) by (simp_all add: usable_def)
  note s = pin_block_simps [OF Cons.prems(1) u(2), where now = now]
  have "manager_inv (pin_block now i m)"
    using manager_inv_pinned [OF Cons.prems(1) u(2)] u(3) by (simp add: pin_block_def)
  moreover have "unready_unpinned (pin_block now i m)"
    by (rule unready_unpinned_pin [OF Cons.prems(1) u(2,3) Cons.prems(2)])
  moreover have "\<forall>j \<in> set is. usable bs (pin_block now i m) j"
    using Cons.prems(3) usable_pin [OF Cons.prems(1) u(1)] by simp
  ultimately show ?case using Cons.IH [of "pin_block now i m"] by (simp add: s)
qed simp

section \<open>One block admitted\<close>

text \<open>A policy that names one of the blocks it is shown whenever it is shown any.\<close>

definition always_evicts :: "eviction_policy \<Rightarrow> bool" where
  "always_evicts ep \<longleftrightarrow> candidate_eviction (ep_choose_victim ep) \<and>
     (\<forall>ctx fs. fs \<noteq> [] \<longrightarrow> ep_choose_victim ep ctx fs \<noteq> None)"

definition compare_config :: "eviction_policy \<Rightarrow> admission_config" where
  "compare_config ep = admission_controller always_admit ep bench_block_size"

definition evictions_logged :: "nat \<Rightarrow> cache_core \<Rightarrow> bool" where
  "evictions_logged n c \<longleftrightarrow> (\<exists>es. cc_events c = In_memory_event_sink es \<and>
     length (List.map_filter is_eviction es) = n)"

lemma evictions_logged_admitted:
  assumes "evictions_logged n c" "admitted_frame cfg stamp t i vs ch cand c d"
  shows "evictions_logged (n + length vs) d"
proof -
  have fold_ev: "fold (\<lambda>v. record_event (Block_evicted v name stamp)) vs (In_memory_event_sink es) =
      In_memory_event_sink (es @ map (\<lambda>v. Block_evicted v name stamp) vs)" for name es
    by (induction vs arbitrary: es) simp_all
  have "List.map_filter is_eviction (es @ map (\<lambda>v. Block_evicted v name stamp) vs @ [Block_admitted i ch t org stamp]) =
      List.map_filter is_eviction es @ map (\<lambda>_. ()) vs" for name es org
    by (induction es; induction vs) (auto simp: List.map_filter_def is_eviction_def)
  with assms show ?thesis by (auto simp: evictions_logged_def admitted_frame_def fold_ev)
qed

text \<open>The cached run of a request of five blocks, with room for the next one.\<close>

definition can_grow :: "block_id list \<Rightarrow> cache_core \<Rightarrow> bool" where
  "can_grow held c \<longleftrightarrow> bp_free (bm_pool (cc_manager c)) \<noteq> [] \<or>
     ((\<forall>i \<in> set held. br_refcount (block_of i (cc_manager c)) \<noteq> 0) \<and> takeable GpuSim (cc_manager c) \<noteq> {})"

lemma compare_admit_next:
  assumes inv: "cache_inv c" and ep: "always_evicts ep" and bs: "index_bs (cc_index c) = 16"
    and toks: "length toks = 80" and run: "cached_run c (compute_context_hash xxh64 bench_context) toks held"
    and more: "length held < 5" and room: "node_count (cc_index c) + 16 < invalid_node"
    and grow: "can_grow held c" and log: "evictions_logged n c"
  shows "\<exists>r d i. admit xxh64 now (compare_config ep)
      (make_candidate xxh64 xxh128 bench_context (of_nat (length held)) toks) ctx c = (Inr r, d) \<and>
    as_status r = Admitted \<and> as_handle r = Some (Some (store_slot i)) \<and> cache_inv d \<and>
    index_bs (cc_index d) = 16 \<and> node_count (cc_index d) \<le> node_count (cc_index c) + 11 \<and>
    cached_run d (compute_context_hash xxh64 bench_context) toks (held @ [i]) \<and>
    (\<forall>p. block_at (cc_index d) (compute_context_hash xxh64 bench_context) p \<noteq> None \<longrightarrow>
       p = take (Suc (length held) * 16) toks \<or> block_at (cc_index c) (compute_context_hash xxh64 bench_context) p \<noteq> None) \<and>
    length (bp_free (bm_pool (cc_manager d))) = length (bp_free (bm_pool (cc_manager c))) - 1 \<and>
    evictions_logged (n + (1 - length (bp_free (bm_pool (cc_manager c))))) d \<and>
    has_block i (cc_manager d) \<and> br_state (block_of i (cc_manager d)) = Ready \<and>
    br_refcount (block_of i (cc_manager d)) = 1 \<and> br_tier (block_of i (cc_manager d)) = GpuSim \<and>
    (\<forall>j. has_block j (cc_manager d) = has_block j (cc_manager c)) \<and>
    (\<forall>j \<in> set held. block_of j (cc_manager d) = block_of j (cc_manager c))"
proof -
  let ?ch = "compute_context_hash xxh64 bench_context" and ?k = "length held"
  let ?cand = "make_candidate xxh64 xxh128 bench_context (of_nat ?k) toks" and ?cfg = "compare_config ep"
  let ?free = "bp_free (bm_pool (cc_manager c))"
  have pol: "candidate_eviction (ep_choose_victim (ag_eviction ?cfg))"
    using ep by (simp add: compare_config_def admission_controller_def always_evicts_def)
  have picks: "\<not> (\<exists>ctx fs. fs \<noteq> [] \<and> ep_choose_victim (ag_eviction ?cfg) ctx fs = None)"
    using ep by (auto simp: compare_config_def admission_controller_def always_evicts_def)
  have cbs: "ag_block_size ?cfg = px_block_size (cc_index c)"
    using bs by (simp add: compare_config_def admission_controller_def index_bs_def word_unat_eq_iff)
  have idx: "unat (of_nat ?k :: u32) = ?k" using more by (intro unat_of_nat_u32) simp
  have end_tok: "unat ((of_nat ?k + 1) * bench_block_size) = Suc ?k * 16" by (rule candidate_end) (use more in simp)
  have cand: "bc_context ?cand = bench_context" "unat (bc_block_index ?cand) = ?k"
    "bc_tokens ?cand = take (Suc ?k * 16) toks"
    using idx by (simp_all only: make_candidate_def block_candidate.simps end_tok)
  have B: "0 < index_bs (cc_index c)" using bs by simp
  have anc: "ancestors ?ch ?cand c = held"
  proof -
    have "take (?k * 16) (take (Suc ?k * 16) toks) = take (?k * 16) toks" by (simp add: min_absorb1)
    then show ?thesis using cached_run_found [OF B run, of ?k] more toks by (simp add: ancestors_def cand bs)
  qed
  have found: "found_blocks c ?ch (bc_tokens ?cand) = held"
    using cached_run_found [OF B run, of "Suc ?k"] more toks by (simp add: cand bs del: mult_Suc)
  have size: "length (bc_tokens ?cand) = Suc ?k * 16" using toks more by (simp add: cand min_absorb2)
  have ok: "admissible ?ch ?cand c" unfolding admissible_def found anc cand(2) using size bs by simp
  have safe: "ancestors_safe (ancestors ?ch ?cand c) c"
    using grow by (auto simp: anc ancestors_safe_def can_grow_def list_all_iff)
  have room': "node_count (cc_index c) + 2 * Suc (unat (bc_block_index ?cand)) < invalid_node"
    using room more by (simp add: cand)
  have always: "ap_decide (ag_admission ?cfg) ctx f \<noteq> Reject" for f
    by (simp add: compare_config_def admission_controller_def always_admit_def)
  from admit_ok [OF inv pol cbs room' _ safe ok, of xxh64 now ctx] cand(1) grow picks always
  obtain r d i vs where rd: "admit xxh64 now ?cfg ?cand ctx c = (Inr r, d)" "cache_inv d"
      "index_bs (cc_index d) = index_bs (cc_index c)"
      "node_count (cc_index d) \<le> node_count (cc_index c) + 2 * Suc (unat (bc_block_index ?cand)) + 1"
    and i: "as_status r = Admitted" "as_handle r = Some (Some (store_slot i))"
      "\<forall>b \<in> set (ancestors ?ch ?cand c). b \<notin> set vs"
      "cached_as i ?ch ?cand (fold drop_block vs (block_at (cc_index c))) d"
      "length vs = (if ?free = [] then 1 else 0)"
      "admitted_frame ?cfg (ac_timestamp_ns ctx) GpuSim i vs ?ch ?cand c d"
    unfolding can_grow_def by auto
  have run': "cached_run d ?ch toks (held @ [i])"
    by (rule cached_run_extend [OF inv run _ _ _ i(4) rd(3)]) (use more toks bs cand(3) i(3) anc in simp_all)
  have "distinct (held @ [i])"
    using found_distinct [OF cache_invD(3) [OF rd(2)], of ?ch toks] cached_run_all [OF _ run'] rd(3) B by simp
  then have "i \<notin> set held" by simp
  moreover have "has_block j (cc_manager c)" if "j \<in> set held" for j
    using found_usable [OF inv, of j ?ch "bc_tokens ?cand"] that by (simp add: found usable_def)
  ultimately have held: "\<forall>j \<in> set held. block_of j (cc_manager d) = block_of j (cc_manager c)"
    using i(3,6) by (auto simp: anc admitted_frame_def)
  have at: "p = take (Suc ?k * 16) toks \<or> block_at (cc_index c) ?ch p \<noteq> None"
    if "block_at (cc_index d) ?ch p \<noteq> None" for p
    using i(4) that by (auto simp: cached_as_def fold_drop_block cand(3) split: if_splits option.splits)
  have logged: "evictions_logged (n + (1 - length ?free)) d"
    using evictions_logged_admitted [OF log i(6)] i(5) by (cases ?free) simp_all
  have free: "length (bp_free (bm_pool (cc_manager d))) = length ?free - 1"
    using i(5,6) by (cases ?free) (simp_all add: admitted_frame_def)
  have blk: "has_block i (cc_manager d)" "br_state (block_of i (cc_manager d)) = Ready"
    "br_refcount (block_of i (cc_manager d)) = 1" "br_tier (block_of i (cc_manager d)) = GpuSim"
    "\<forall>j. has_block j (cc_manager d) = has_block j (cc_manager c)"
    using i(4,6) by (simp_all add: cached_as_def admitted_frame_def)
  have nodes: "node_count (cc_index d) \<le> node_count (cc_index c) + 11" using rd(4) more by (simp add: cand)
  show ?thesis
    using rd(1-3) i(1,2) run' at free logged blk held nodes bs
    by (intro exI [of _ r] exI [of _ d] exI [of _ i] conjI) auto
qed

section \<open>One request\<close>

text \<open>From a request's cached blocks to all five of them: what the blocks after \<open>held\<close> leave.\<close>

definition completed ::
  "context_hash \<Rightarrow> token_id list \<Rightarrow> block_id list \<Rightarrow> block_id list \<Rightarrow> nat \<Rightarrow> cache_core \<Rightarrow> cache_core \<Rightarrow> bool" where
  "completed ch toks held new n c d \<longleftrightarrow> cache_inv d \<and> index_bs (cc_index d) = 16 \<and>
     node_count (cc_index d) \<le> node_count (cc_index c) + 11 * length new \<and>
     length held + length new = 5 \<and> cached_run d ch toks (held @ new) \<and>
     (\<forall>p. block_at (cc_index d) ch p \<noteq> None \<longrightarrow>
        block_at (cc_index c) ch p \<noteq> None \<or> (\<exists>k < 5. p = take (Suc k * 16) toks)) \<and>
     length (bp_free (bm_pool (cc_manager d))) = length (bp_free (bm_pool (cc_manager c))) - length new \<and>
     evictions_logged (n + (length new - length (bp_free (bm_pool (cc_manager c))))) d \<and>
     (\<forall>i \<in> set new. i \<in> takeable GpuSim (cc_manager d)) \<and>
     (\<forall>j. has_block j (cc_manager d) = has_block j (cc_manager c))"

lemma evictions_logged_cong [simp]: "evictions_logged n (c\<lparr>cc_manager := m\<rparr>) = evictions_logged n c"
  by (simp add: evictions_logged_def)

lemma compare_fill:
  assumes "always_evicts ep" "length toks = 80" "ch = compute_context_hash xxh64 bench_context"
    and "cache_inv (lc_core lc)" "lc_config lc = compare_config ep" "index_bs (cc_index (lc_core lc)) = 16"
    and "cached_run (lc_core lc) ch toks held" "length held \<le> 5"
    and "node_count (cc_index (lc_core lc)) + 11 * (5 - length held) + 16 < invalid_node"
    and "evictions_logged n (lc_core lc)"
    and "5 - length held \<le> length (bp_free (bm_pool (cc_manager (lc_core lc)))) \<or>
      (length held = 4 \<and> can_grow held (lc_core lc))"
  shows "\<exists>lc' new. phase2_fill xxh64 xxh128 clock toks [length held..<5] a lc = (Inr (a + of_nat (length new)), lc') \<and>
    lc_config lc' = lc_config lc \<and> lc_block_size lc' = lc_block_size lc \<and>
    completed ch toks held new n (lc_core lc) (lc_core lc') \<and>
    (\<forall>j \<in> set held. block_of j (cc_manager (lc_core lc')) = block_of j (cc_manager (lc_core lc)))"
  using assms
proof (induction "5 - length held" arbitrary: held lc n a)
  case 0
  then show ?case
    by (intro exI [of _ lc] exI [of _ "[]"]) (simp add: return_with_def completed_def)
next
  case (Suc x)
  note p = Suc.prems
  let ?c = "lc_core lc" and ?free = "bp_free (bm_pool (cc_manager (lc_core lc)))"
  let ?cand = "make_candidate xxh64 xxh128 bench_context (of_nat (length held)) toks"
  let ?ctx = "\<lparr>ac_request_id = 0, ac_context_hash = compute_context_hash xxh64 (bc_context ?cand),
                 ac_missing_blocks = 0, ac_timestamp_ns = fake_clock_now clock\<rparr>"
  have lt: "length held < 5" using Suc.hyps(2) by simp
  have grow: "can_grow held ?c" using p(11) lt by (auto simp: can_grow_def)
  obtain r d i where run: "admit xxh64 (fake_clock_now clock) (compare_config ep) ?cand ?ctx ?c = (Inr r, d)"
    and r: "as_status r = Admitted" "as_handle r = Some (Some (store_slot i))"
    and d: "cache_inv d" "index_bs (cc_index d) = 16" "node_count (cc_index d) \<le> node_count (cc_index ?c) + 11"
      "cached_run d ch toks (held @ [i])"
      "\<forall>p. block_at (cc_index d) ch p \<noteq> None \<longrightarrow>
         p = take (Suc (length held) * 16) toks \<or> block_at (cc_index ?c) ch p \<noteq> None"
      "length (bp_free (bm_pool (cc_manager d))) = length ?free - 1" "evictions_logged (n + (1 - length ?free)) d"
    and i: "has_block i (cc_manager d)" "br_state (block_of i (cc_manager d)) = Ready"
      "br_refcount (block_of i (cc_manager d)) = 1" "br_tier (block_of i (cc_manager d)) = GpuSim"
    and fr: "\<forall>j. has_block j (cc_manager d) = has_block j (cc_manager ?c)"
      "\<forall>j \<in> set held. block_of j (cc_manager d) = block_of j (cc_manager ?c)"
    using compare_admit_next [OF p(4,1,6,2) p(7) [unfolded p(3)] lt _ grow p(10), of "fake_clock_now clock" xxh128 ?ctx]
      p(9) lt unfolding p(3) [symmetric] by auto
  define e where "e = d\<lparr>cc_manager := unpin_block i (cc_manager d)\<rparr>"
  note u = unpin_block_simps [OF cache_invD(1) [OF d(1)] i(1)]
  have inv: "cache_inv e" unfolding e_def by (rule cache_inv_unpin [OF d(1) i(1)]) (simp add: i(3))
  have e: "cc_index e = cc_index d" "bm_pool (cc_manager e) = bm_pool (cc_manager d)"
    "\<forall>j. has_block j (cc_manager e) = has_block j (cc_manager ?c)" "evictions_logged (n + (1 - length ?free)) e"
    using u fr(1) d(7) by (simp_all add: e_def)
  have "distinct (held @ [i])"
    using found_distinct [OF cache_invD(3) [OF d(1)], of ch toks] cached_run_all [OF _ d(4)] d(2) by simp
  then have i_held: "i \<notin> set held" by simp
  then have keep: "\<forall>j \<in> set held. block_of j (cc_manager e) = block_of j (cc_manager ?c)"
    using u(3) fr(2) by (auto simp: e_def)
  have i_e: "has_block i (cc_manager e)" "br_state (block_of i (cc_manager e)) = Ready"
    "br_refcount (block_of i (cc_manager e)) = 0" "br_tier (block_of i (cc_manager e)) = GpuSim"
    using i u by (simp_all add: e_def)
  let ?lc = "lc\<lparr>lc_core := e\<rparr>"
  have list: "[length held..<5] = length held # [length (held @ [i])..<5]" using lt by (simp add: upt_conv_Cons)
  have step: "phase2_fill xxh64 xxh128 clock toks [length held..<5] a lc =
      phase2_fill xxh64 xxh128 clock toks [length (held @ [i])..<5] (a + 1) ?lc"
    using run r drop_handle_unpins [of i "lc\<lparr>lc_core := d\<rparr>"] i(1) p(5)
    by (simp add: list admit_block_def Let_def on_core_def on_member_def e_def del: length_append)
  have "\<exists>lc' new. phase2_fill xxh64 xxh128 clock toks [length (held @ [i])..<5] (a + 1) ?lc =
      (Inr (a + 1 + of_nat (length new)), lc') \<and>
    lc_config lc' = lc_config ?lc \<and> lc_block_size lc' = lc_block_size ?lc \<and>
    completed ch toks (held @ [i]) new (n + (1 - length ?free)) (lc_core ?lc) (lc_core lc') \<and>
    (\<forall>j \<in> set (held @ [i]). block_of j (cc_manager (lc_core lc')) = block_of j (cc_manager (lc_core ?lc)))"
    by (rule Suc.hyps(1)) (use Suc.hyps(2) p lt inv e d in \<open>auto simp: cached_run_def\<close>)
  then obtain lc' new where ih: "phase2_fill xxh64 xxh128 clock toks [length (held @ [i])..<5] (a + 1) ?lc =
      (Inr (a + 1 + of_nat (length new)), lc')"
    "lc_config lc' = lc_config lc" "lc_block_size lc' = lc_block_size lc"
    "completed ch toks (held @ [i]) new (n + (1 - length ?free)) e (lc_core lc')"
    "\<forall>j \<in> set (held @ [i]). block_of j (cc_manager (lc_core lc')) = block_of j (cc_manager e)" by auto
  have "i \<in> takeable GpuSim (cc_manager (lc_core lc'))"
    using i_e ih(4,5) by (simp add: takeable_def evictable_def completed_def e(3))
  moreover have "evictions_logged (n + (length (i # new) - length ?free)) (lc_core lc')"
  proof -
    have "n + (1 - length ?free) + (length new - length (bp_free (bm_pool (cc_manager e)))) =
        n + (length (i # new) - length ?free)" using d(6) by (simp add: e(2))
    then show ?thesis using ih(4) by (simp only: completed_def)
  qed
  moreover have "block_at (cc_index ?c) ch p \<noteq> None \<or> (\<exists>k < 5. p = take (Suc k * 16) toks)"
    if "block_at (cc_index (lc_core lc')) ch p \<noteq> None" for p
    using ih(4) that d(5) lt unfolding completed_def e(1) by blast
  ultimately have "completed ch toks held (i # new) n ?c (lc_core lc')"
    using ih(4) d(3,6) lt e(1-3) unfolding completed_def by simp
  with ih keep show ?case unfolding step
    by (intro exI [of _ lc'] exI [of _ "i # new"]) (simp add: algebra_simps)
qed

lemma compare_lookup:
  assumes inv: "cache_inv (lc_core lc)" and bs: "index_bs (cc_index (lc_core lc)) = 16" "lc_block_size lc = bench_block_size"
    and ch: "ch = compute_context_hash xxh64 bench_context" and run: "cached_run (lc_core lc) ch toks held"
    and unpinned: "\<forall>i \<in> set held. br_refcount (block_of i (cc_manager (lc_core lc))) = 0"
  shows "\<exists>out m. lookup_prefix xxh64 now bench_context toks lc = (Inr out, lc\<lparr>lc_core := (lc_core lc)\<lparr>cc_manager := m\<rparr>\<rparr>) \<and>
    lo_matched_blocks out = map (\<lambda>i. Some (store_slot i)) held \<and> cache_inv ((lc_core lc)\<lparr>cc_manager := m\<rparr>) \<and>
    bm_pool m = bm_pool (cc_manager (lc_core lc)) \<and> distinct held \<and>
    (\<forall>j. has_block j m = has_block j (cc_manager (lc_core lc))) \<and>
    (\<forall>j. j \<notin> set held \<longrightarrow> block_of j m = block_of j (cc_manager (lc_core lc))) \<and>
    (\<forall>i \<in> set held. has_block i m \<and> br_refcount (block_of i m) = 1)"
proof -
  let ?c = "lc_core lc"
  have px: "bench_block_size = px_block_size (cc_index ?c)"
    using bs(1) by (simp add: index_bs_def word_unat_eq_iff)
  have held: "found_blocks ?c ch toks = held" by (rule cached_run_all [OF _ run]) (simp add: bs(1))
  have dist: "distinct held" using found_distinct [OF cache_invD(3) [OF inv], of ch toks] held by simp
  have us: "\<forall>i \<in> set held. usable bench_block_size (cc_manager ?c) i"
    using found_usable [OF inv, of _ ch toks] unfolding held px by blast
  let ?m = "fold (pin_block now) held (cc_manager ?c)"
  note look = engine_lookup_ok [OF inv px, where ctx = ch and toks = toks and now = now, unfolded held]
  note frame = pins_frame [OF cache_invD(1,2) [OF inv] us, of now]
  have one: "count_list held i = 1" if "i \<in> set held" for i using dist that by (induction held) auto
  have ne: "lc_block_size lc \<noteq> 0" by (simp add: bs(2) bench_block_size_def)
  have "\<exists>out. lookup_prefix xxh64 now bench_context toks lc = (Inr out, lc\<lparr>lc_core := ?c\<lparr>cc_manager := ?m\<rparr>\<rparr>) \<and>
      lo_matched_blocks out = map (\<lambda>i. Some (store_slot i)) held"
    using ne by (simp add: lookup_prefix_def Let_def ch [symmetric] bs(2) look(1) on_core_def on_manager_def on_member_def
        return_with_def)
  then obtain out where out: "lookup_prefix xxh64 now bench_context toks lc = (Inr out, lc\<lparr>lc_core := ?c\<lparr>cc_manager := ?m\<rparr>\<rparr>)"
    "lo_matched_blocks out = map (\<lambda>i. Some (store_slot i)) held" by blast
  show ?thesis
    by (rule exI [of _ out], rule exI [of _ ?m])
      (use out look(2,4) frame dist us unpinned one in \<open>auto simp: usable_def\<close>)
qed

definition compare_prompt :: "nat \<Rightarrow> token_id list" where
  "compare_prompt req = map of_nat [1..<65] @
     map (\<lambda>t. 10000 + of_nat req * bench_block_size + of_nat t) [0..<unat bench_block_size]"

lemma phase2_loop_request:
  "phase2_loop xxh64 xxh128 (req # reqs) clock res lc =
    and_then (lookup_prefix xxh64 (fake_clock_now (fake_clock_advance 1000 clock)) bench_context (compare_prompt req) lc)
      (\<lambda>outcome lc1.
        and_then (phase2_fill xxh64 xxh128 (fake_clock_advance 1000 clock) (compare_prompt req)
            [unat (of_nat (length (lo_matched_blocks outcome)) :: u32)..<5] (ph_admissions res) lc1)
          (\<lambda>admissions lc2. phase2_loop xxh64 xxh128 reqs (fake_clock_advance 1000 clock)
            (res\<lparr>ph_prefix_hits := ph_prefix_hits res + min (of_nat (length (lo_matched_blocks outcome))) 4,
                 ph_prefix_possible := ph_prefix_possible res + 4, ph_admissions := admissions\<rparr>)
            (fold drop_handle (lo_matched_blocks outcome) lc2)))"
  unfolding phase2_loop.simps Let_def compare_prompt_def by (rule refl)

text \<open>The handles of the lookup live through the admissions and are dropped after them.\<close>

lemma compare_request:
  assumes ep: "always_evicts ep" and ch: "ch = compute_context_hash xxh64 bench_context"
    and lc: "cache_inv (lc_core lc)" "lc_config lc = compare_config ep" "lc_block_size lc = bench_block_size"
      "index_bs (cc_index (lc_core lc)) = 16"
    and run: "cached_run (lc_core lc) ch (compare_prompt req) held" "length held \<le> 4"
    and unpinned: "\<forall>i \<in> set held. br_refcount (block_of i (cc_manager (lc_core lc))) = 0"
    and room: "node_count (cc_index (lc_core lc)) + 100 < invalid_node" and log: "evictions_logged n (lc_core lc)"
    and grow: "5 \<le> length held + length (bp_free (bm_pool (cc_manager (lc_core lc)))) \<or>
      (length held = 4 \<and> \<not> takeable GpuSim (cc_manager (lc_core lc)) \<subseteq> set held)"
  shows "\<exists>lc' new. phase2_loop xxh64 xxh128 (req # reqs) clock res lc =
      phase2_loop xxh64 xxh128 reqs (fake_clock_advance 1000 clock)
        (res\<lparr>ph_prefix_hits := ph_prefix_hits res + of_nat (length held), ph_prefix_possible := ph_prefix_possible res + 4,
             ph_admissions := ph_admissions res + of_nat (length new)\<rparr>) lc' \<and>
    lc_config lc' = lc_config lc \<and> lc_block_size lc' = lc_block_size lc \<and>
    completed ch (compare_prompt req) held new n (lc_core lc) (lc_core lc') \<and>
    (\<forall>i \<in> set (held @ new). br_refcount (block_of i (cc_manager (lc_core lc'))) = 0)"
proof -
  let ?c = "lc_core lc" and ?toks = "compare_prompt req" and ?clock = "fake_clock_advance 1000 clock"
  obtain out m where out: "lookup_prefix xxh64 (fake_clock_now ?clock) bench_context ?toks lc =
      (Inr out, lc\<lparr>lc_core := ?c\<lparr>cc_manager := m\<rparr>\<rparr>)"
    "lo_matched_blocks out = map (\<lambda>i. Some (store_slot i)) held" and m: "cache_inv (?c\<lparr>cc_manager := m\<rparr>)"
    "bm_pool m = bm_pool (cc_manager ?c)" "distinct held" "\<forall>j. has_block j m = has_block j (cc_manager ?c)"
    "\<forall>j. j \<notin> set held \<longrightarrow> block_of j m = block_of j (cc_manager ?c)"
    "\<forall>i \<in> set held. has_block i m \<and> br_refcount (block_of i m) = 1"
    using compare_lookup [OF lc(1,4,3) ch run(1) unpinned, of "fake_clock_now ?clock"] by blast
  let ?lc1 = "lc\<lparr>lc_core := ?c\<lparr>cc_manager := m\<rparr>\<rparr>"
  have grow1: "5 - length held \<le> length (bp_free (bm_pool (cc_manager (lc_core ?lc1)))) \<or>
      (length held = 4 \<and> can_grow held (lc_core ?lc1))"
  proof (cases "5 \<le> length held + length (bp_free (bm_pool (cc_manager ?c)))")
    case False
    then obtain t where t: "t \<in> takeable GpuSim (cc_manager ?c)" "t \<notin> set held" "length held = 4" using grow by blast
    then have "t \<in> takeable GpuSim m" using m(4,5) by (simp add: takeable_def)
    with m(6) t(3) show ?thesis by (auto simp: can_grow_def)
  next
    case True
    then have "5 - length held \<le> length (bp_free (bm_pool (cc_manager ?c)))" by arith
    then show ?thesis by (simp add: m(2))
  qed
  have "\<exists>lc' new. phase2_fill xxh64 xxh128 ?clock ?toks [length held..<5] (ph_admissions res) ?lc1 =
      (Inr (ph_admissions res + of_nat (length new)), lc') \<and>
    lc_config lc' = lc_config ?lc1 \<and> lc_block_size lc' = lc_block_size ?lc1 \<and>
    completed ch ?toks held new n (lc_core ?lc1) (lc_core lc') \<and>
    (\<forall>j \<in> set held. block_of j (cc_manager (lc_core lc')) = block_of j (cc_manager (lc_core ?lc1)))"
    by (rule compare_fill [OF ep _ ch _ _ _ _ _ _ _ grow1])
      (use lc(2,4) m(1) run room log in \<open>simp_all add: compare_prompt_def cached_run_def\<close>)
  then obtain lc2 new where fill: "phase2_fill xxh64 xxh128 ?clock ?toks [length held..<5] (ph_admissions res) ?lc1 =
      (Inr (ph_admissions res + of_nat (length new)), lc2)"
    "lc_config lc2 = lc_config lc" "lc_block_size lc2 = lc_block_size lc"
    "completed ch ?toks held new n (?c\<lparr>cc_manager := m\<rparr>) (lc_core lc2)"
    "\<forall>j \<in> set held. block_of j (cc_manager (lc_core lc2)) = block_of j m" by auto
  have inv2: "cache_inv (lc_core lc2)" and run2: "cached_run (lc_core lc2) ch ?toks (held @ new)"
    and bs2: "index_bs (cc_index (lc_core lc2)) = 16" and has2: "\<forall>j. has_block j (cc_manager (lc_core lc2)) = has_block j m"
    using fill(4) by (simp_all add: completed_def)
  have "distinct (held @ new)"
    using found_distinct [OF cache_invD(3) [OF inv2], of ch ?toks] cached_run_all [OF _ run2] bs2 by simp
  then have dist: "set held \<inter> set new = {}" by simp
  obtain m3 where m3: "fold drop_handle (map (\<lambda>i. Some (store_slot i)) held) lc2 = lc2\<lparr>lc_core := (lc_core lc2)\<lparr>cc_manager := m3\<rparr>\<rparr>"
    "cache_inv ((lc_core lc2)\<lparr>cc_manager := m3\<rparr>)" "bm_pool m3 = bm_pool (cc_manager (lc_core lc2))"
    "\<forall>j. has_block j m3 = has_block j (cc_manager (lc_core lc2))"
    "\<forall>j. block_of j m3 = (if j \<in> set held
       then (block_of j (cc_manager (lc_core lc2)))\<lparr>br_refcount := br_refcount (block_of j (cc_manager (lc_core lc2))) - 1\<rparr>
       else block_of j (cc_manager (lc_core lc2)))"
    using drop_handles_unpin [OF inv2 m(3)] fill(5) m(6) has2 by auto
  let ?lc3 = "lc2\<lparr>lc_core := (lc_core lc2)\<lparr>cc_manager := m3\<rparr>\<rparr>"
  have new3: "i \<in> takeable GpuSim m3" if "i \<in> set new" for i
    using fill(4) that dist m3(4,5) by (auto simp: completed_def takeable_def)
  have "cached_run (lc_core ?lc3) ch ?toks (held @ new)" using run2 by (simp add: cached_run_def)
  then have all_in: "completed ch ?toks held new n ?c (lc_core ?lc3)"
    using fill(4) m3(2-4) new3 m(2,4) by (simp add: completed_def)
  have zero: "\<forall>i \<in> set (held @ new). br_refcount (block_of i m3) = 0"
  proof -
    have "br_refcount (block_of i m3) = 0" if "i \<in> set held" for i using m3(5) fill(5) m(6) that by simp
    moreover have "br_refcount (block_of i m3) = 0" if "i \<in> set new" for i
      using new3 [OF that] by (simp add: takeable_def evictable_def)
    ultimately show ?thesis by auto
  qed
  have len: "unat (of_nat (length held) :: u32) = length held" by (rule unat_of_nat_u32) (use run(2) in simp)
  have four: "min (of_nat (length held)) (4 :: u32) = of_nat (length held)"
    using run(2) len by (simp add: min_def word_le_nat_alt)
  have "phase2_loop xxh64 xxh128 (req # reqs) clock res lc =
      phase2_loop xxh64 xxh128 reqs ?clock
        (res\<lparr>ph_prefix_hits := ph_prefix_hits res + of_nat (length held), ph_prefix_possible := ph_prefix_possible res + 4,
             ph_admissions := ph_admissions res + of_nat (length new)\<rparr>) ?lc3"
    using out fill(1) m3(1) four by (simp add: phase2_loop_request len del: phase2_loop.simps)
  then show ?thesis using all_in zero fill(2,3) by (intro exI [of _ ?lc3] exI [of _ new] conjI) simp_all
qed

section \<open>All requests\<close>

text \<open>The cache before request \<open>r\<close>, after the first one: four shared blocks, no block of a later
  request, no handle on the shared blocks, and beside them a block that can be evicted.\<close>

definition between_requests :: "eviction_policy \<Rightarrow> context_hash \<Rightarrow> nat \<Rightarrow> block_id list \<Rightarrow> local_cache \<Rightarrow> bool" where
  "between_requests ep ch r held lc \<longleftrightarrow> cache_inv (lc_core lc) \<and> lc_config lc = compare_config ep \<and>
     lc_block_size lc = bench_block_size \<and> index_bs (cc_index (lc_core lc)) = 16 \<and> length held = 4 \<and>
     (\<forall>k < 4. block_at (cc_index (lc_core lc)) ch (take (Suc k * 16) (compare_prompt 0)) = Some (held ! k)) \<and>
     (\<forall>q. r \<le> q \<and> q < 200 \<longrightarrow> block_at (cc_index (lc_core lc)) ch (compare_prompt q) = None) \<and>
     (\<forall>i \<in> set held. br_refcount (block_of i (cc_manager (lc_core lc))) = 0) \<and>
     \<not> takeable GpuSim (cc_manager (lc_core lc)) \<subseteq> set held \<and>
     length (bp_free (bm_pool (cc_manager (lc_core lc)))) = 12 - (4 + r) \<and>
     evictions_logged (4 + r - 12) (lc_core lc) \<and>
     node_count (cc_index (lc_core lc)) \<le> 11 * (4 + r)"

lemma compare_prompt_length [simp]: "length (compare_prompt r) = 80"
  by (simp add: compare_prompt_def)

lemma compare_prompt_shared: "k < 4 \<Longrightarrow> take (Suc k * 16) (compare_prompt r) = take (Suc k * 16) (compare_prompt 0)"
  by (simp add: compare_prompt_def)

lemma compare_prompt_inject:
  assumes "compare_prompt q = compare_prompt r" "q < 200" "r < 200"
  shows "q = r"
proof -
  have at: "compare_prompt x ! 64 = of_nat (10000 + x * 16)" for x
    by (simp add: compare_prompt_def nth_append) (simp add: bench_block_size_def)
  have v: "unat (compare_prompt x ! 64) = 10000 + x * 16" if "x < 200" for x
    unfolding at by (rule unat_of_nat_u32) (use that in simp)
  have "unat (compare_prompt q ! 64) = unat (compare_prompt r ! 64)" using assms(1) by simp
  then show ?thesis using assms(2,3) by (simp add: v)
qed

lemma compare_prefix_other:
  assumes "k < 5" "take (Suc k * 16) (compare_prompt r) = compare_prompt q" "q < 200" "r < 200"
  shows "q = r"
proof -
  have "length (take (Suc k * 16) (compare_prompt r)) = 80" using assms(2) by simp
  then have "Suc k * 16 \<ge> 80" by (simp add: min_def split: if_splits)
  with assms compare_prompt_inject show ?thesis by simp
qed

text \<open>The next request keeps the description.\<close>

lemma completed_between:
  assumes "completed ch (compare_prompt r) held new n c (lc_core lc)" "length held \<le> 4" "r < 200"
    and "lc_config lc = compare_config ep" "lc_block_size lc = bench_block_size"
    and "\<forall>i \<in> set (held @ new). br_refcount (block_of i (cc_manager (lc_core lc))) = 0"
    and "\<forall>q. Suc r \<le> q \<and> q < 200 \<longrightarrow> block_at (cc_index c) ch (compare_prompt q) = None"
    and "length (bp_free (bm_pool (cc_manager c))) - length new = 12 - (5 + r)"
    and "n + (length new - length (bp_free (bm_pool (cc_manager c)))) = 5 + r - 12"
    and "node_count (cc_index c) + 11 * length new \<le> 11 * (5 + r)"
  shows "between_requests ep ch (Suc r) (take 4 (held @ new)) lc"
proof -
  note co = assms(1) [unfolded completed_def]
  have run: "cached_run (lc_core lc) ch (compare_prompt r) (held @ new)" and inv: "cache_inv (lc_core lc)"
    and bs: "index_bs (cc_index (lc_core lc)) = 16" and len: "length (held @ new) = 5" using co by simp_all
  have "block_at (cc_index (lc_core lc)) ch (take (Suc k * 16) (compare_prompt 0)) = Some (take 4 (held @ new) ! k)"
    if "k < 4" for k
    using run that len compare_prompt_shared [OF that, of r, symmetric] by (simp add: cached_run_def bs del: mult_Suc take_append)
  moreover have "block_at (cc_index (lc_core lc)) ch (compare_prompt q) = None" if q: "Suc r \<le> q" "q < 200" for q
  proof (rule ccontr)
    assume "block_at (cc_index (lc_core lc)) ch (compare_prompt q) \<noteq> None"
    then obtain k where "k < 5" "take (Suc k * 16) (compare_prompt r) = compare_prompt q"
      using co assms(7) q by (metis (no_types, lifting))
    from compare_prefix_other [OF this q(2) assms(3)] q(1) show False by simp
  qed
  moreover have "\<not> takeable GpuSim (cc_manager (lc_core lc)) \<subseteq> set (take 4 (held @ new))"
  proof -
    have dist: "distinct (held @ new)"
      using found_distinct [OF cache_invD(3) [OF inv], of ch "compare_prompt r"] cached_run_all [OF _ run] bs by simp
    have ne: "new \<noteq> []" using co assms(2) by auto
    have split: "held @ new = take 4 (held @ new) @ [last new]"
      using len ne by (metis (no_types) append_butlast_last_id append_is_Nil_conv butlast_conv_take diff_Suc_1
          last_appendR numeral_eq_Suc pred_numeral_simps(3) semiring_norm(26,27,28) Suc_1 BitM.simps(2))
    then have "last new \<notin> set (take 4 (held @ new))" using dist by (metis distinct_append disjoint_iff list.set_intros(1))
    moreover have "last new \<in> takeable GpuSim (cc_manager (lc_core lc))" using co ne by simp
    ultimately show ?thesis by blast
  qed
  ultimately show ?thesis
    using co assms len inv bs unfolding between_requests_def by (auto dest: in_set_takeD)
qed

lemma between_run:
  assumes "between_requests ep ch r held lc" "r < 200"
  shows "cached_run (lc_core lc) ch (compare_prompt r) held"
proof -
  note b = assms(1) [unfolded between_requests_def]
  have bs: "index_bs (cc_index (lc_core lc)) = 16" and len: "length held = 4" using b by simp_all
  have "block_at (cc_index (lc_core lc)) ch (take (Suc k * 16) (compare_prompt r)) =
      (if k < length held then Some (held ! k) else None)" if "k < 5" for k
  proof (cases "k < 4")
    case True
    with b show ?thesis unfolding compare_prompt_shared [OF True, of r] by (simp add: len del: mult_Suc)
  next
    case False
    with that have "k = 4" by simp
    with b assms(2) show ?thesis by simp
  qed
  then show ?thesis by (simp add: cached_run_def bs len)
qed

lemma phase2_loop_rest:
  assumes ep: "always_evicts ep" and ch: "ch = compute_context_hash xxh64 bench_context"
  shows "between_requests ep ch r held lc \<Longrightarrow> r \<le> 200 \<Longrightarrow>
    \<exists>lc' held'. phase2_loop xxh64 xxh128 [r..<200] clock res lc =
      (Inr (res\<lparr>ph_prefix_hits := ph_prefix_hits res + of_nat (4 * (200 - r)),
        ph_prefix_possible := ph_prefix_possible res + of_nat (4 * (200 - r)),
        ph_admissions := ph_admissions res + of_nat (200 - r)\<rparr>), lc') \<and> between_requests ep ch 200 held' lc'"
proof (induction "200 - r" arbitrary: r held lc clock res)
  case 0
  then show ?case by (intro exI [of _ lc] exI [of _ held]) (simp add: return_with_def)
next
  case (Suc x)
  then have r: "r < 200" "[r..<200] = r # [Suc r..<200]" by (simp_all add: upt_conv_Cons)
  note b = Suc.prems(1) [unfolded between_requests_def]
  have held: "length held = 4" and nodes: "node_count (cc_index (lc_core lc)) \<le> 11 * (4 + r)" using b by simp_all
  have room: "node_count (cc_index (lc_core lc)) + 100 < invalid_node" using nodes r(1) by (simp add: invalid_node_def)
  obtain lc1 new where step: "phase2_loop xxh64 xxh128 (r # [Suc r..<200]) clock res lc =
      phase2_loop xxh64 xxh128 [Suc r..<200] (fake_clock_advance 1000 clock)
        (res\<lparr>ph_prefix_hits := ph_prefix_hits res + of_nat (length held), ph_prefix_possible := ph_prefix_possible res + 4,
             ph_admissions := ph_admissions res + of_nat (length new)\<rparr>) lc1"
    and lc1: "lc_config lc1 = lc_config lc" "lc_block_size lc1 = lc_block_size lc"
      "completed ch (compare_prompt r) held new (4 + r - 12) (lc_core lc) (lc_core lc1)"
      "\<forall>i \<in> set (held @ new). br_refcount (block_of i (cc_manager (lc_core lc1))) = 0"
    using compare_request [OF ep ch _ _ _ _ between_run [OF Suc.prems(1) r(1)] _ _ room, of "4 + r - 12" xxh128
        "[Suc r..<200]" clock res] b held by auto
  have new: "length new = 1" using lc1(3) held by (simp add: completed_def)
  have next_st: "between_requests ep ch (Suc r) (take 4 (held @ new)) lc1"
    by (rule completed_between [OF lc1(3) _ r(1) _ _ lc1(4)]) (use b lc1(1,2) new held nodes in auto)
  let ?res = "res\<lparr>ph_prefix_hits := ph_prefix_hits res + 4, ph_prefix_possible := ph_prefix_possible res + 4,
           ph_admissions := ph_admissions res + 1\<rparr>"
  have x: "x = 200 - Suc r" "Suc r \<le> 200" using Suc.hyps(2) r(1) by simp_all
  from Suc.hyps(1) [OF x(1) next_st x(2), of "fake_clock_advance 1000 clock" ?res]
  obtain lc' held' where "phase2_loop xxh64 xxh128 [Suc r..<200] (fake_clock_advance 1000 clock) ?res lc1 =
      (Inr (?res\<lparr>ph_prefix_hits := ph_prefix_hits ?res + of_nat (4 * (200 - Suc r)),
        ph_prefix_possible := ph_prefix_possible ?res + of_nat (4 * (200 - Suc r)),
        ph_admissions := ph_admissions ?res + of_nat (200 - Suc r)\<rparr>), lc')"
    "between_requests ep ch 200 held' lc'" by blast
  moreover have "of_nat (4 * (200 - r)) = (4 + of_nat (4 * (200 - Suc r)) :: u32)"
    "of_nat (200 - r) = (1 + of_nat (200 - Suc r) :: u32)"
  proof -
    have "200 - r = Suc (200 - Suc r)" using r(1) by simp
    then show "of_nat (4 * (200 - r)) = (4 + of_nat (4 * (200 - Suc r)) :: u32)"
      "of_nat (200 - r) = (1 + of_nat (200 - Suc r) :: u32)" by (simp_all del: of_nat_diff)
  qed
  ultimately show ?case unfolding r(2) step
    by (intro exI [of _ lc'] exI [of _ held']) (simp add: held new add.assoc del: phase2_loop.simps of_nat_diff of_nat_mult)
qed

lemma phase2_counts:
  assumes ep: "always_evicts ep"
  shows "fst (run_single_node_bench xxh64 xxh128 name ep) = Inr \<lparr>ph_policy_name = name,
    ph_prefix_hits = 796, ph_prefix_possible = 800, ph_evictions = 192, ph_admissions = 204\<rparr>"
proof -
  let ?ch = "compute_context_hash xxh64 bench_context"
  let ?lc = "make_policy_cache 12 bench_block_size always_admit ep (In_memory_event_sink []) Null_decision_logger"
  let ?res = "\<lparr>ph_policy_name = name, ph_prefix_hits = 0, ph_prefix_possible = 0, ph_evictions = 0, ph_admissions = 0\<rparr>"
  have c: "cache_inv (lc_core ?lc)" "lc_config ?lc = compare_config ep" "lc_block_size ?lc = bench_block_size"
    "cc_index (lc_core ?lc) = make_index bench_block_size" "evictions_logged 0 (lc_core ?lc)"
    using cache_inv_make_core [of bench_block_size 12 "In_memory_event_sink []" Null_decision_logger]
    by (simp_all add: make_policy_cache_def compare_config_def bench_block_size_def)
      (simp_all add: make_core_def evictions_logged_def)
  have idx: "index_bs (cc_index (lc_core ?lc)) = 16" "node_count (cc_index (lc_core ?lc)) = 0"
    "block_at (cc_index (lc_core ?lc)) = (\<lambda>_ _. None)"
    unfolding c(4) block_at_make_index by (simp_all add: index_bs_def make_index_def)
  have free: "length (bp_free (bm_pool (cc_manager (lc_core ?lc)))) = 12"
    by (simp add: make_policy_cache_def make_core_def make_manager_def make_pool_def)
  have run: "cached_run (lc_core ?lc) ?ch (compare_prompt 0) []" by (simp add: cached_run_def idx)
  have list: "[0..<200] = 0 # [Suc 0..<200]" by (simp add: upt_conv_Cons)
  obtain lc1 new where step: "phase2_loop xxh64 xxh128 (0 # [Suc 0..<200]) (make_fake_clock 0) ?res ?lc =
      phase2_loop xxh64 xxh128 [Suc 0..<200] (fake_clock_advance 1000 (make_fake_clock 0))
        (?res\<lparr>ph_prefix_possible := 4, ph_admissions := of_nat (length new)\<rparr>) lc1"
    and lc1: "lc_config lc1 = lc_config ?lc" "lc_block_size lc1 = lc_block_size ?lc"
      "completed ?ch (compare_prompt 0) [] new 0 (lc_core ?lc) (lc_core lc1)"
      "\<forall>i \<in> set ([] @ new). br_refcount (block_of i (cc_manager (lc_core lc1))) = 0"
    using compare_request [OF ep refl c(1-3) idx(1) run _ _ _ c(5), of xxh128 "[Suc 0..<200]" "make_fake_clock 0" ?res]
      free idx(2) by (auto simp: invalid_node_def)
  have new: "length new = 5" using lc1(3) by (simp add: completed_def)
  have st: "between_requests ep ?ch (Suc 0) (take 4 ([] @ new)) lc1"
    by (rule completed_between [OF lc1(3) _ _ _ _ lc1(4)]) (use lc1(1,2) c(2,3) new idx free in auto)
  obtain lc' held' where rest: "phase2_loop xxh64 xxh128 [Suc 0..<200] (fake_clock_advance 1000 (make_fake_clock 0))
      (?res\<lparr>ph_prefix_possible := 4, ph_admissions := of_nat (length new)\<rparr>) lc1 =
      (Inr (?res\<lparr>ph_prefix_hits := 796, ph_prefix_possible := 800, ph_admissions := 204\<rparr>), lc')"
    "between_requests ep ?ch 200 held' lc'"
    using phase2_loop_rest [OF ep refl st, of xxh128 "fake_clock_advance 1000 (make_fake_clock 0)"
        "?res\<lparr>ph_prefix_possible := 4, ph_admissions := of_nat (length new)\<rparr>"] new by auto
  have "evictions_logged 192 (lc_core lc')" using rest(2) by (simp add: between_requests_def)
  then have "length (events_of_type is_eviction (cc_events (lc_core lc'))) = 192"
    by (auto simp: evictions_logged_def events_of_type_def)
  with step rest(1) show ?thesis
    unfolding run_single_node_bench_def list by (simp add: return_with_def del: phase2_loop.simps)
qed

lemma ranked_always_evicts: "ranked_eviction (ep_choose_victim ep) rank \<Longrightarrow> always_evicts ep"
  by (auto simp: always_evicts_def ranked_eviction_def ranked_eviction_axioms_def)

lemma compared_policies: "always_evicts lru_eviction" "always_evicts prefix_aware_eviction"
proof -
  show "always_evicts lru_eviction"
    using ranked_always_evicts [of lru_eviction bf_last_access_ns] lru.ranked_eviction_axioms by (simp add: lru_eviction_def)
  show "always_evicts prefix_aware_eviction"
    using ranked_always_evicts [of prefix_aware_eviction prefix_score] scored.ranked_eviction_axioms [of prefix_score]
    by (simp add: prefix_aware_eviction_def)
qed

lemma comparison_line_counts:
  "comparison_line \<lparr>ph_policy_name = name, ph_prefix_hits = 796, ph_prefix_possible = 800,
     ph_evictions = 192, ph_admissions = 204\<rparr> =
   pad_right 20 name @ ''  hit_rate=0.995  evictions=192  admissions=204'' @ newline"
proof -
  have "decimal_u32 192 = ''192''" "decimal_u32 204 = ''204''" by code_simp+
  then show ?thesis by (simp add: comparison_line_def compared_rate)
qed

text \<open>C13: the comparison of policies, run to its end. Without arguments \<open>main\<close> serves two hundred requests
  on a cache of twelve blocks once with each policy; whatever the hash functions give, no call throws
  and both reports are the same: 796 of 800 prefix blocks hit, 204 blocks admitted and 192 evicted, so
  that the two lines it prints differ in the name only. The shared blocks are pinned by the lookup's
  handles whenever a block is evicted, so a policy can only choose among blocks that are never asked for
  again, and the comparison cannot tell the policies apart.\<close>

theorem comparison_cannot_separate_policies:
  "bench_main xxh64 xxh128 draw draw_index seeded [] = Inr (Comparison
     (Inr \<lparr>ph_policy_name = ''lru'', ph_prefix_hits = 796, ph_prefix_possible = 800,
       ph_evictions = 192, ph_admissions = 204\<rparr>)
     (Inr \<lparr>ph_policy_name = ''prefix_aware'', ph_prefix_hits = 796, ph_prefix_possible = 800,
       ph_evictions = 192, ph_admissions = 204\<rparr>)) \<and>
   comparison_text [fst (run_single_node_bench xxh64 xxh128 ''lru'' lru_eviction),
       fst (run_single_node_bench xxh64 xxh128 ''prefix_aware'' prefix_aware_eviction)] =
     comparison_header @
     pad_right 20 ''lru'' @ ''  hit_rate=0.995  evictions=192  admissions=204'' @ newline @
     pad_right 20 ''prefix_aware'' @ ''  hit_rate=0.995  evictions=192  admissions=204'' @ newline"
proof -
  note counts = phase2_counts [OF compared_policies(1)] phase2_counts [OF compared_policies(2)]
  then show ?thesis
    by (simp add: bench_main_def parse_args_def comparison_text_def comparison_line_counts)
qed

end
