(* ===== verification/Span.thy ===== *)
theory Span
  imports Prelude
begin

text \<open>
  \<open>core/span.h\<close>: a pointer into a vector and a count. The memory is the list of the vector's elements
  and the pointer an index into it; nothing is checked, so a span may reach beyond its vector. The other
  theories use the list a span shows, \<open>span_elements\<close>, where the code takes spans of whole vectors or of
  ranges inside them.
\<close>

section \<open>The class\<close>

record 'a span =
  sp_memory :: "'a list"
  sp_data :: nat
  sp_size :: u64

definition empty_span :: "'a span" where
  "empty_span = \<lparr>sp_memory = [], sp_data = 0, sp_size = 0\<rparr>"

definition span_of :: "'a list \<Rightarrow> nat \<Rightarrow> u64 \<Rightarrow> 'a span" where
  "span_of mem ptr count = \<lparr>sp_memory = mem, sp_data = ptr, sp_size = count\<rparr>"

definition make_span :: "'a list \<Rightarrow> 'a span" where
  "make_span v = span_of v 0 (of_nat (length v))"

definition span_empty :: "'a span \<Rightarrow> bool" where
  "span_empty s \<longleftrightarrow> sp_size s = 0"

definition span_begin :: "'a span \<Rightarrow> nat" where
  "span_begin s = sp_data s"

definition span_end :: "'a span \<Rightarrow> nat" where
  "span_end s = sp_data s + unat (sp_size s)"

text \<open>\<open>operator[]\<close> is undefined outside the vector, whatever the size.\<close>

definition span_at :: "'a span \<Rightarrow> u64 \<Rightarrow> 'a outcome" where
  "span_at s idx =
     (if sp_data s + unat idx < length (sp_memory s) then Inr (sp_memory s ! (sp_data s + unat idx))
      else Inl (Undefined_behaviour ''Span::operator[]''))"

definition subspan_count :: "u64 \<Rightarrow> u64 \<Rightarrow> 'a span \<Rightarrow> 'a span" where
  "subspan_count offset count s = span_of (sp_memory s) (sp_data s + unat offset) count"

text \<open>The remaining size is a subtraction of \<open>size_t\<close> and wraps.\<close>

definition subspan_from :: "u64 \<Rightarrow> 'a span \<Rightarrow> 'a span" where
  "subspan_from offset s = span_of (sp_memory s) (sp_data s + unat offset) (sp_size s - offset)"

section \<open>What a span shows\<close>

definition span_inside :: "'a span \<Rightarrow> bool" where
  "span_inside s \<longleftrightarrow> span_end s \<le> length (sp_memory s)"

definition span_elements :: "'a span \<Rightarrow> 'a list" where
  "span_elements s = take (unat (sp_size s)) (drop (sp_data s) (sp_memory s))"

lemma span_elements_make_span:
  "length v < 2 ^ 64 \<Longrightarrow> span_elements (make_span v) = v \<and> span_inside (make_span v)"
  by (simp add: span_elements_def make_span_def span_of_def span_inside_def span_end_def)

lemma span_elements_at:
  "span_inside s \<Longrightarrow> idx < sp_size s \<Longrightarrow> span_at s idx = Inr (span_elements s ! unat idx)"
  by (simp add: span_inside_def span_end_def span_at_def span_elements_def word_less_nat_alt)

lemma span_elements_subspan_count:
  assumes "span_inside s" "unat offset + unat count \<le> unat (sp_size s)"
  shows "span_elements (subspan_count offset count s) = take (unat count) (drop (unat offset) (span_elements s))"
    "span_inside (subspan_count offset count s)"
  using assms
  by (simp_all add: span_elements_def subspan_count_def span_of_def span_inside_def span_end_def drop_take
      min_def add.commute)

lemma span_elements_subspan_from:
  assumes "span_inside s" "offset \<le> sp_size s"
  shows "span_elements (subspan_from offset s) = drop (unat offset) (span_elements s)"
    "span_inside (subspan_from offset s)"
proof -
  have "unat (sp_size s - offset) = unat (sp_size s) - unat offset" by (rule unat_sub [OF assms(2)])
  with assms show "span_elements (subspan_from offset s) = drop (unat offset) (span_elements s)"
    "span_inside (subspan_from offset s)"
    by (simp_all add: span_elements_def subspan_from_def span_of_def span_inside_def span_end_def drop_take
        word_le_nat_alt add.commute)
qed

end
