(* ===== verification/Block_Lifecycle.thy ===== *)
theory Block_Lifecycle
  imports Block_Manager
begin

text \<open>
  The block manager as a state machine. Its clients create blocks, move them through their
  states, take handles on them and drop the handles, in any order. The machine keeps, beside the
  manager, the handles that are outstanding (the block and the generation each was taken on) and
  the references that are dead (the pairs of the blocks that were freed), so that the safety
  properties of handles and references can be stated over every reachable state.
\<close>

section \<open>The step relation\<close>

record lifecycle =
  lc_manager :: block_manager
  lc_handles :: "(block_id \<times> u64) list"
  lc_dead :: "(block_id \<times> u64) set"

definition initial_lifecycle :: "u32 \<Rightarrow> lifecycle" where
  "initial_lifecycle c = \<lparr>lc_manager = make_manager c, lc_handles = [], lc_dead = {}\<rparr>"

text \<open>
  The bounds of the rules are those of the code's counters: fewer than $2^{32} - 1$ handles at a
  time, and a slot is not freed in its last generation, $2^{64} - 1$. A transition out of \<open>Free\<close>
  is the pool's business: only \<open>createBlock\<close> makes it.
\<close>

inductive lifecycle_step :: "lifecycle \<Rightarrow> lifecycle \<Rightarrow> bool" where
  create: "manager_create_block h idx count t (lc_manager s) = (v, m') \<Longrightarrow>
     lifecycle_step s (s\<lparr>lc_manager := m'\<rparr>)"
| acquire: "manager_acquire now i (lc_manager s) = (Inr (Some h), m') \<Longrightarrow>
     length (lc_handles s) < 2 ^ 32 - 1 \<Longrightarrow>
     lifecycle_step s (s\<lparr>lc_manager := m',
       lc_handles := (i, br_generation (block_of i (lc_manager s))) # lc_handles s\<rparr>)"
| fetch: "manager_fetch_local now i g (lc_manager s) = (Inr r, m') \<Longrightarrow> fl_status r = Hit \<Longrightarrow>
     length (lc_handles s) < 2 ^ 32 - 1 \<Longrightarrow>
     lifecycle_step s (s\<lparr>lc_manager := m', lc_handles := (i, g) # lc_handles s\<rparr>)"
| release: "(i, g) \<in> set (lc_handles s) \<Longrightarrow>
     lifecycle_step s (s\<lparr>lc_manager := (lc_manager s)
         \<lparr>bm_store := handle_destroy (Some (store_slot i)) (bm_store (lc_manager s))\<rparr>,
       lc_handles := remove1 (i, g) (lc_handles s)\<rparr>)"
| touch: "manager_mark_accessed now i (lc_manager s) = (v, m') \<Longrightarrow>
     lifecycle_step s (s\<lparr>lc_manager := m'\<rparr>)"
| transition: "manager_transition i f t (lc_manager s) = (v, m') \<Longrightarrow> f \<noteq> Free \<Longrightarrow>
     (t = Free \<Longrightarrow> br_generation (block_of i (lc_manager s)) \<noteq> - 1) \<Longrightarrow>
     lifecycle_step s (s\<lparr>lc_manager := m', lc_dead := (if v = Inr () \<and> t = Free
       then insert (i, br_generation (block_of i (lc_manager s))) (lc_dead s) else lc_dead s)\<rparr>)"

inductive lifecycle_reachable :: "u32 \<Rightarrow> lifecycle \<Rightarrow> bool" for c where
  start: "lifecycle_reachable c (initial_lifecycle c)"
| step: "lifecycle_reachable c s \<Longrightarrow> lifecycle_step s s' \<Longrightarrow> lifecycle_reachable c s'"

section \<open>The invariant\<close>

definition handles_on :: "block_id \<Rightarrow> (block_id \<times> u64) list \<Rightarrow> nat" where
  "handles_on i hs = count_list (map fst hs) i"

definition lifecycle_inv :: "lifecycle \<Rightarrow> bool" where
  "lifecycle_inv s \<longleftrightarrow> manager_inv (lc_manager s) \<and> length (lc_handles s) < 2 ^ 32 \<and>
     (\<forall>i. has_block i (lc_manager s) \<longrightarrow>
        br_refcount (block_of i (lc_manager s)) = of_nat (handles_on i (lc_handles s))) \<and>
     (\<forall>i g. (i, g) \<in> set (lc_handles s) \<longrightarrow> has_block i (lc_manager s) \<and>
        br_generation (block_of i (lc_manager s)) = g \<and>
        br_state (block_of i (lc_manager s)) \<in> {Ready, Migrating}) \<and>
     (\<forall>i g. (i, g) \<in> lc_dead s \<longrightarrow> g < pool_gen (bm_pool (lc_manager s)) i)"

lemma handles_on_zero: "handles_on i hs = 0 \<longleftrightarrow> (\<forall>g. (i, g) \<notin> set hs)"
  by (force simp: handles_on_def count_list_0_iff image_iff)

lemma handles_on_le: "handles_on i hs \<le> length hs"
  using count_le_length [of "map fst hs" i] by (simp add: handles_on_def)

lemma lifecycle_invD:
  assumes "lifecycle_inv s"
  shows "manager_inv (lc_manager s)" "length (lc_handles s) < 2 ^ 32"
    "has_block i (lc_manager s) \<Longrightarrow>
       br_refcount (block_of i (lc_manager s)) = of_nat (handles_on i (lc_handles s))"
    "(i, g) \<in> set (lc_handles s) \<Longrightarrow> has_block i (lc_manager s) \<and>
       br_generation (block_of i (lc_manager s)) = g \<and>
       br_state (block_of i (lc_manager s)) \<in> {Ready, Migrating}"
    "(i, g) \<in> lc_dead s \<Longrightarrow> g < pool_gen (bm_pool (lc_manager s)) i"
  using assms unfolding lifecycle_inv_def by blast+

lemma handles_on_remove1:
  "(i, g) \<in> set hs \<Longrightarrow>
   handles_on j hs = handles_on j (remove1 (i, g) hs) + (if j = i then 1 else 0)"
  by (induction hs) (auto simp: handles_on_def)

lemma refcount_zero_iff:
  assumes "lifecycle_inv s" "has_block i (lc_manager s)"
  shows "br_refcount (block_of i (lc_manager s)) = 0 \<longleftrightarrow> (\<forall>g. (i, g) \<notin> set (lc_handles s))"
proof -
  have "handles_on i (lc_handles s) < 2 ^ 32"
    using handles_on_le [of i "lc_handles s"] lifecycle_invD(2) [OF assms(1)] by linarith
  then show ?thesis
    using lifecycle_invD(3) [OF assms] by (simp only: of_nat_u32_eq_0 handles_on_zero)
qed

lemma lifecycle_unpinned:
  assumes "lifecycle_inv s"
  shows "unready_unpinned (lc_manager s)"
  unfolding unready_unpinned_def
proof (intro allI impI)
  fix i assume blk: "has_block i (lc_manager s)"
    and st: "br_state (block_of i (lc_manager s)) \<notin> {Ready, Migrating}"
  then show "br_refcount (block_of i (lc_manager s)) = 0"
    unfolding refcount_zero_iff [OF assms blk] using lifecycle_invD(4) [OF assms] by blast
qed

lemma lifecycle_inv_initial: "lifecycle_inv (initial_lifecycle c)"
proof -
  have "br_refcount (block_of i (make_manager c)) = 0" if "has_block i (make_manager c)" for i
    using that by (simp add: make_manager_def make_store_def record_of_def in_store_def fresh_record_def)
  then show ?thesis
    by (simp add: lifecycle_inv_def initial_lifecycle_def manager_inv_make handles_on_def)
qed

text \<open>Every record is described by the same four facts, so preservation is shown record by
  record: a step rewrites one record at most.\<close>

lemma lifecycle_invI:
  assumes "manager_inv m'" "length hs' < 2 ^ 32"
    and "\<And>i. has_block i m' \<Longrightarrow> br_refcount (block_of i m') = of_nat (handles_on i hs')"
    and "\<And>i g. (i, g) \<in> set hs' \<Longrightarrow> has_block i m' \<and> br_generation (block_of i m') = g \<and>
        br_state (block_of i m') \<in> {Ready, Migrating}"
    and "\<And>i g. (i, g) \<in> dead' \<Longrightarrow> g < pool_gen (bm_pool m') i"
  shows "lifecycle_inv (s\<lparr>lc_manager := m', lc_handles := hs', lc_dead := dead'\<rparr>)"
  using assms unfolding lifecycle_inv_def by simp

lemma inv_take_handle:
  assumes inv: "lifecycle_inv s" and blk: "has_block i (lc_manager s)"
    and st: "br_state (block_of i (lc_manager s)) = Ready"
    and len: "length (lc_handles s) < 2 ^ 32 - 1"
  shows "lifecycle_inv (s\<lparr>lc_manager := put_block i (pinned now (block_of i (lc_manager s))) (lc_manager s),
     lc_handles := (i, br_generation (block_of i (lc_manager s))) # lc_handles s\<rparr>)"
proof -
  let ?m = "lc_manager s" and ?r = "pinned now (block_of i (lc_manager s))"
  note m = lifecycle_invD(1) [OF inv]
  have rec: "block_of j (put_block i ?r ?m) = (if j = i then ?r else block_of j ?m)" for j
    by (rule block_of_put_block [OF m blk])
  have "lifecycle_inv (s\<lparr>lc_manager := put_block i ?r ?m,
     lc_handles := (i, br_generation (block_of i ?m)) # lc_handles s, lc_dead := lc_dead s\<rparr>)"
  proof (rule lifecycle_invI)
    show "manager_inv (put_block i ?r ?m)" by (rule manager_inv_pinned [OF m blk]) (simp add: st)
  next
    fix j assume "has_block j (put_block i ?r ?m)"
    then show "br_refcount (block_of j (put_block i ?r ?m)) =
        of_nat (handles_on j ((i, br_generation (block_of i ?m)) # lc_handles s))"
      using lifecycle_invD(3) [OF inv, of j] unfolding rec by (simp add: handles_on_def)
  next
    fix j g assume "(j, g) \<in> set ((i, br_generation (block_of i ?m)) # lc_handles s)"
    then show "has_block j (put_block i ?r ?m) \<and> br_generation (block_of j (put_block i ?r ?m)) = g \<and>
        br_state (block_of j (put_block i ?r ?m)) \<in> {Ready, Migrating}"
      using lifecycle_invD(4) [OF inv, of j g] blk st unfolding rec by auto
  qed (use len lifecycle_invD(5) [OF inv] in auto)
  then show ?thesis by simp
qed


lemma no_handle_on_free:
  assumes inv: "lifecycle_inv s" and "\<not> pool_live (bm_pool (lc_manager s)) i"
  shows "(i, g) \<notin> set (lc_handles s)"
  using lifecycle_invD(4) [OF inv, of i g] ready_live [OF lifecycle_invD(1) [OF inv], of i] assms(2)
  by auto

lemma inv_create:
  assumes inv: "lifecycle_inv s" and run: "manager_create_block h idx count t (lc_manager s) = (v, m')"
  shows "lifecycle_inv (s\<lparr>lc_manager := m'\<rparr>)"
proof -
  let ?m = "lc_manager s"
  note m = lifecycle_invD(1) [OF inv]
  from m show ?thesis
  proof (cases rule: manager_create_block_cases [of ?m h idx count t])
    case full
    then show ?thesis using run inv by simp
  next
    case (created i g p)
    have m': "m' = put_block i (new_record i g h idx count t) (?m\<lparr>bm_pool := p\<rparr>)"
      using created run by simp
    have rec: "block_of j m' = (if j = i then new_record i g h idx count t else block_of j ?m)" for j
      using record_of_put_record [OF manager_invD(2) [OF m] created(3)] by (simp add: m')
    note none = no_handle_on_free [OF inv created(2)]
    have "lifecycle_inv (s\<lparr>lc_manager := m', lc_handles := lc_handles s, lc_dead := lc_dead s\<rparr>)"
    proof (rule lifecycle_invI)
      show "manager_inv m'" using manager_inv_create_block [OF m run] .
    next
      fix j assume "has_block j m'"
      then show "br_refcount (block_of j m') = of_nat (handles_on j (lc_handles s))"
        using lifecycle_invD(3) [OF inv, of j] none handles_on_zero [of i "lc_handles s"] unfolding rec
        by (auto simp: m' new_record_def)
    next
      fix j k assume "(j, k) \<in> set (lc_handles s)"
      then show "has_block j m' \<and> br_generation (block_of j m') = k \<and>
          br_state (block_of j m') \<in> {Ready, Migrating}"
        using lifecycle_invD(4) [OF inv, of j k] none unfolding rec by (auto simp: m')
    next
      fix j k assume "(j, k) \<in> lc_dead s"
      then have "k < pool_gen (bm_pool ?m) j" using lifecycle_invD(5) [OF inv] by blast
      then show "k < pool_gen (bm_pool m') j"
        using created by (auto simp: m' split: if_splits)
    qed (use lifecycle_invD(2) [OF inv] in simp)
    then show ?thesis by simp
  qed
qed

lemma inv_release:
  assumes inv: "lifecycle_inv s" and held: "(i, g) \<in> set (lc_handles s)"
  shows "lifecycle_inv (s\<lparr>lc_manager := (lc_manager s)
         \<lparr>bm_store := handle_destroy (Some (store_slot i)) (bm_store (lc_manager s))\<rparr>,
       lc_handles := remove1 (i, g) (lc_handles s)\<rparr>)"
proof -
  let ?m = "lc_manager s" and ?hs = "remove1 (i, g) (lc_handles s)"
  let ?r = "(block_of i (lc_manager s))\<lparr>br_refcount := br_refcount (block_of i (lc_manager s)) - 1\<rparr>"
  note m = lifecycle_invD(1) [OF inv]
  have blk: "has_block i ?m" and st: "br_state (block_of i ?m) \<in> {Ready, Migrating}"
    using lifecycle_invD(4) [OF inv held] by auto
  have m': "?m\<lparr>bm_store := handle_destroy (Some (store_slot i)) (bm_store ?m)\<rparr> = put_block i ?r ?m"
    using blk by (simp add: handle_destroy_def bump_as_put_record put_block_def)
  have rec: "block_of j (put_block i ?r ?m) = (if j = i then ?r else block_of j ?m)" for j
    by (rule block_of_put_block [OF m blk])
  note count = handles_on_remove1 [OF held]
  have "lifecycle_inv (s\<lparr>lc_manager := put_block i ?r ?m, lc_handles := ?hs, lc_dead := lc_dead s\<rparr>)"
  proof (rule lifecycle_invI)
    have "slot_agrees (bm_pool ?m) i ?r"
      using manager_invD(4) [OF m blk] st by (auto simp: slot_agrees_def)
    then show "manager_inv (put_block i ?r ?m)" by (rule manager_inv_put_block [OF m blk])
  next
    fix j assume "has_block j (put_block i ?r ?m)"
    then show "br_refcount (block_of j (put_block i ?r ?m)) = of_nat (handles_on j ?hs)"
      using lifecycle_invD(3) [OF inv, of j] count [of j] unfolding rec by auto
  next
    fix j k assume "(j, k) \<in> set ?hs"
    then have "(j, k) \<in> set (lc_handles s)" by (metis notin_set_remove1)
    then show "has_block j (put_block i ?r ?m) \<and> br_generation (block_of j (put_block i ?r ?m)) = k \<and>
        br_state (block_of j (put_block i ?r ?m)) \<in> {Ready, Migrating}"
      using lifecycle_invD(4) [OF inv, of j k] unfolding rec by auto
  qed (use lifecycle_invD(2,5) [OF inv] in \<open>auto simp: length_remove1\<close>)
  then show ?thesis unfolding m' by simp
qed

lemma inv_touch:
  assumes inv: "lifecycle_inv s" and run: "manager_mark_accessed now i (lc_manager s) = (v, m')"
  shows "lifecycle_inv (s\<lparr>lc_manager := m'\<rparr>)"
proof (cases "has_block i (lc_manager s)")
  case False
  then have "m' = lc_manager s"
    using run by (simp add: manager_mark_accessed_def store_mark_accessed_def store_write_out)
  then show ?thesis using inv by simp
next
  case blk: True
  let ?m = "lc_manager s" and ?r = "touched now (block_of i (lc_manager s))"
  note m = lifecycle_invD(1) [OF inv]
  have m': "m' = put_block i ?r ?m"
    using run blk by (simp add: manager_mark_accessed_def store_mark_accessed_def store_write_in
        put_block_def touched_def)
  have rec: "block_of j m' = (if j = i then ?r else block_of j ?m)" for j
    unfolding m' by (rule block_of_put_block [OF m blk])
  have "lifecycle_inv (s\<lparr>lc_manager := m', lc_handles := lc_handles s, lc_dead := lc_dead s\<rparr>)"
  proof (rule lifecycle_invI)
    have "slot_agrees (bm_pool ?m) i ?r"
      using manager_invD(4) [OF m blk] by (auto simp: slot_agrees_def)
    then show "manager_inv m'" unfolding m' by (rule manager_inv_put_block [OF m blk])
  next
    fix j assume "has_block j m'"
    then show "br_refcount (block_of j m') = of_nat (handles_on j (lc_handles s))"
      using lifecycle_invD(3) [OF inv, of j] unfolding rec by (auto simp: m')
  next
    fix j k assume "(j, k) \<in> set (lc_handles s)"
    then show "has_block j m' \<and> br_generation (block_of j m') = k \<and>
        br_state (block_of j m') \<in> {Ready, Migrating}"
      using lifecycle_invD(4) [OF inv, of j k] unfolding rec by (auto simp: m')
  qed (use lifecycle_invD(2,5) [OF inv] in \<open>auto simp: m'\<close>)
  then show ?thesis by simp
qed


lemma inv_transition:
  assumes inv: "lifecycle_inv s" and run: "manager_transition i f t (lc_manager s) = (v, m')"
    and f: "f \<noteq> Free" and last: "t = Free \<Longrightarrow> br_generation (block_of i (lc_manager s)) \<noteq> - 1"
  shows "lifecycle_inv (s\<lparr>lc_manager := m', lc_dead := (if v = Inr () \<and> t = Free
       then insert (i, br_generation (block_of i (lc_manager s))) (lc_dead s) else lc_dead s)\<rparr>)"
proof (cases "transition_guard i f t (lc_manager s)")
  case False
  then obtain e where "v = Inl e" "m' = lc_manager s"
    using manager_transition_not_guard [of i f t "lc_manager s"] run by auto
  then show ?thesis using inv by simp
next
  case g: True
  let ?m = "lc_manager s" and ?r = "(block_of i (lc_manager s))\<lparr>br_state := t\<rparr>"
  note m = lifecycle_invD(1) [OF inv]
  have blk: "has_block i ?m" and st: "br_state (block_of i ?m) = f" and leg: "is_legal_transition f t"
    using g by (auto simp: transition_guard_def)
  have m'_inv: "manager_inv m'"
    using manager_inv_transition [OF m lifecycle_unpinned [OF inv] f run] by simp
  have kept: "t \<in> {Ready, Migrating} \<or> (\<forall>k. (i, k) \<notin> set (lc_handles s))"
    using g leg st f lifecycle_invD(4) [OF inv, of i] refcount_zero_iff [OF inv blk]
    by (cases f) (auto simp: transition_guard_def)
  have v: "v = Inr ()" and store: "bm_store m' = put_record i ?r (bm_store ?m)"
    and gens: "pool_gen (bm_pool m') = (if t = Free
      then (pool_gen (bm_pool ?m))(i := pool_gen (bm_pool ?m) i + 1) else pool_gen (bm_pool ?m))"
  proof -
    have "v = Inr () \<and> bm_store m' = put_record i ?r (bm_store ?m) \<and> pool_gen (bm_pool m') = (if t = Free
      then (pool_gen (bm_pool ?m))(i := pool_gen (bm_pool ?m) i + 1) else pool_gen (bm_pool ?m))"
    proof (cases "t = Free")
      case True
      from m g [unfolded True] show ?thesis
        by (rule manager_transition_Free) (use run True in \<open>auto simp: set_block_state_def\<close>)
    next
      case False
      then show ?thesis using manager_transition_guard [OF g] run by (simp add: set_block_state_def)
    qed
    then show "v = Inr ()" "bm_store m' = put_record i ?r (bm_store ?m)"
      "pool_gen (bm_pool m') = (if t = Free
      then (pool_gen (bm_pool ?m))(i := pool_gen (bm_pool ?m) i + 1) else pool_gen (bm_pool ?m))"
      by auto
  qed
  have rec: "block_of j m' = (if j = i then ?r else block_of j ?m)" for j
    unfolding store by (rule record_of_put_record [OF manager_invD(2) [OF m] blk])
  have has: "has_block j m' = has_block j ?m" for j unfolding store by simp
  let ?dead = "if v = Inr () \<and> t = Free then insert (i, br_generation (block_of i ?m)) (lc_dead s)
    else lc_dead s"
  have "lifecycle_inv (s\<lparr>lc_manager := m', lc_handles := lc_handles s, lc_dead := ?dead\<rparr>)"
  proof (rule lifecycle_invI)
    fix j assume "has_block j m'"
    then show "br_refcount (block_of j m') = of_nat (handles_on j (lc_handles s))"
      using lifecycle_invD(3) [OF inv, of j] unfolding rec has by auto
  next
    fix j k assume held: "(j, k) \<in> set (lc_handles s)"
    then show "has_block j m' \<and> br_generation (block_of j m') = k \<and>
        br_state (block_of j m') \<in> {Ready, Migrating}"
      using lifecycle_invD(4) [OF inv held] kept unfolding rec has by (cases "j = i") auto
  next
    fix j k assume dead: "(j, k) \<in> ?dead"
    have live: "br_generation (block_of i ?m) = pool_gen (bm_pool ?m) i"
      using manager_invD(4) [OF m blk] ready_live [OF m blk] st f by (simp add: slot_agrees_def)
    have up: "x < x + 1" if "x \<noteq> - 1" for x :: u64
      using that by (rule u64_less_plus_one)
    show "k < pool_gen (bm_pool m') j"
    proof (cases "t = Free \<and> j = i")
      case True
      then have "k \<le> pool_gen (bm_pool ?m) i"
        using dead v live lifecycle_invD(5) [OF inv, of i k] by auto
      moreover have "pool_gen (bm_pool ?m) i < pool_gen (bm_pool ?m) i + 1"
        by (rule up) (use live last True in simp)
      ultimately show ?thesis using gens True by simp
    next
      case False
      then show ?thesis using dead gens lifecycle_invD(5) [OF inv, of j k] by (auto split: if_splits)
    qed
  qed (use lifecycle_invD(2) [OF inv] m'_inv in auto)
  then show ?thesis by simp
qed

lemma inv_acquire:
  assumes inv: "lifecycle_inv s" and run: "manager_acquire now i (lc_manager s) = (Inr (Some h), m')"
    and len: "length (lc_handles s) < 2 ^ 32 - 1"
  shows "lifecycle_inv (s\<lparr>lc_manager := m',
       lc_handles := (i, br_generation (block_of i (lc_manager s))) # lc_handles s\<rparr>)"
proof -
  have "has_block i (lc_manager s)" "br_state (block_of i (lc_manager s)) = Ready"
    "m' = put_block i (pinned now (block_of i (lc_manager s))) (lc_manager s)"
    using run by (auto simp: manager_acquire_eq [OF lifecycle_invD(1) [OF inv]] split: if_splits)
  then show ?thesis using inv_take_handle [OF inv _ _ len] by simp
qed

lemma inv_fetch:
  assumes inv: "lifecycle_inv s" and run: "manager_fetch_local now i g (lc_manager s) = (Inr r, m')"
    and hit: "fl_status r = Hit" and len: "length (lc_handles s) < 2 ^ 32 - 1"
  shows "lifecycle_inv (s\<lparr>lc_manager := m', lc_handles := (i, g) # lc_handles s\<rparr>)"
proof -
  have "has_block i (lc_manager s)" "br_state (block_of i (lc_manager s)) = Ready"
    "g = br_generation (block_of i (lc_manager s))"
    "m' = put_block i (pinned now (block_of i (lc_manager s))) (lc_manager s)"
    using run hit by (auto simp: manager_fetch_local_eq [OF lifecycle_invD(1) [OF inv]] split: if_splits)
  then show ?thesis using inv_take_handle [OF inv _ _ len] by simp
qed

lemma lifecycle_step_inv: "lifecycle_step s s' \<Longrightarrow> lifecycle_inv s \<Longrightarrow> lifecycle_inv s'"
  by (induction rule: lifecycle_step.induct)
    (blast intro: inv_create inv_acquire inv_fetch inv_release inv_touch inv_transition)+

lemma reachable_inv: "lifecycle_reachable c s \<Longrightarrow> lifecycle_inv s"
  by (induction rule: lifecycle_reachable.induct)
    (blast intro: lifecycle_inv_initial lifecycle_step_inv)+


section \<open>Properties\<close>

text \<open>C4: in every reachable state a handle denotes the block it was taken on: its slot is
  occupied, by the occupant of that generation, ready or migrating; and neither eviction nor
  \<open>freeBlock\<close> can take the block away while the handle lives.\<close>

theorem handles_never_dangle:
  assumes reach: "lifecycle_reachable c s" and held: "(i, g) \<in> set (lc_handles s)"
  shows "pool_live (bm_pool (lc_manager s)) i \<and> br_id (block_of i (lc_manager s)) = i \<and>
    br_generation (block_of i (lc_manager s)) = g \<and>
    br_state (block_of i (lc_manager s)) \<in> {Ready, Migrating} \<and>
    (\<exists>e. manager_transition i Ready Evicting (lc_manager s) = (Inl e, lc_manager s)) \<and>
    (\<exists>e. manager_free_block i (lc_manager s) = (Inl e, lc_manager s))"
proof -
  let ?m = "lc_manager s"
  have inv: "lifecycle_inv s" using reach by (rule reachable_inv)
  note m = lifecycle_invD(1) [OF inv]
  from lifecycle_invD(4) [OF inv held] have blk: "has_block i ?m"
    and g: "br_generation (block_of i ?m) = g" and st: "br_state (block_of i ?m) \<in> {Ready, Migrating}"
    by auto
  have live: "pool_live (bm_pool ?m) i" using m blk st by (auto intro: ready_live)
  then have "br_id (block_of i ?m) = i"
    using manager_invD(4) [OF m blk] pool_live_gen [OF manager_invD(1) [OF m] live]
    by (simp add: slot_agrees_def)
  moreover have "\<not> transition_guard i Ready Evicting ?m" "\<not> transition_guard i Evicting Free ?m"
    using refcount_zero_iff [OF inv blk] held st by (auto simp: transition_guard_def)
  ultimately show ?thesis
    using live g st manager_transition_not_guard by (auto simp: manager_free_block_def) blast+
qed

definition demo_run :: "block_manager list" where
  "demo_run =
     (let m1 = snd (manager_create_block demo_hash 0 4 GpuSim (make_manager 2));
          m2 = snd (manager_transition 0 Admitting Ready m1);
          m3 = snd (manager_acquire 7 0 m2)
      in [m1, m2, m3])"

lemma demo_reachable_ready:
  "lifecycle_reachable 2 \<lparr>lc_manager = demo_run ! 1, lc_handles = [], lc_dead = {}\<rparr>"
proof -
  have m1: "manager_create_block demo_hash 0 4 GpuSim (make_manager 2)
      = (fst (manager_create_block demo_hash 0 4 GpuSim (make_manager 2)), demo_run ! 0)"
    by (simp add: demo_run_def Let_def)
  have m2: "manager_transition 0 Admitting Ready (demo_run ! 0) =
      (fst (manager_transition 0 Admitting Ready (demo_run ! 0)), demo_run ! 1)"
    by (simp add: demo_run_def Let_def)
  have "lifecycle_reachable 2 \<lparr>lc_manager = demo_run ! 0, lc_handles = [], lc_dead = {}\<rparr>"
    using lifecycle_reachable.step [OF lifecycle_reachable.start [of 2]
      lifecycle_step.create [of demo_hash 0 4 GpuSim]] m1
    by (simp add: initial_lifecycle_def)
  from lifecycle_reachable.step [OF this lifecycle_step.transition [of 0 Admitting Ready]] m2
  show ?thesis by simp
qed

lemma demo_reachable:
  "lifecycle_reachable 2 \<lparr>lc_manager = demo_run ! 2, lc_handles = [(0, 1)], lc_dead = {}\<rparr>"
proof -
  have "fst (manager_acquire 7 0 (demo_run ! 1)) = Inr (Some (Some 0))" by code_simp
  then have m3: "manager_acquire 7 0 (demo_run ! 1) = (Inr (Some (Some 0)), demo_run ! 2)"
    by (simp add: prod_eq_iff) (simp add: demo_run_def Let_def)
  have g: "br_generation (block_of 0 (demo_run ! 1)) = 1" by code_simp
  from lifecycle_reachable.step [OF demo_reachable_ready
    lifecycle_step.acquire [of 7 0 _ "Some 0" "demo_run ! 2"]] m3 g
  show ?thesis by simp
qed

theorem handles_never_dangle_witness:
  "pool_live (bm_pool (demo_run ! 2)) 0 \<and>
   (\<exists>e. manager_transition 0 Ready Evicting (demo_run ! 2) = (Inl e, demo_run ! 2))"
  using handles_never_dangle [OF demo_reachable, of 0 1] by simp

text \<open>C14: once a block has been freed, no later \<open>fetchLocal\<close> with its id and generation hits,
  whatever has been created in its slot since.\<close>

theorem dead_reference_never_hits:
  assumes reach: "lifecycle_reachable c s" and dead: "(i, g) \<in> lc_dead s"
  shows "\<exists>r. manager_fetch_local now i g (lc_manager s) = (Inr r, lc_manager s) \<and>
    fl_status r \<noteq> Hit \<and> fl_handle r = None"
proof -
  have inv: "lifecycle_inv s" using reach by (rule reachable_inv)
  have "pool_gen (bm_pool (lc_manager s)) i \<noteq> g" using lifecycle_invD(5) [OF inv dead] by auto
  moreover note lifecycle_invD(1) [OF inv]
  ultimately show ?thesis
    using manager_invD(4) [of "lc_manager s" i] ready_live [of "lc_manager s" i]
    by (auto simp: manager_fetch_local_eq slot_agrees_def)
qed

text \<open>The demo block is evicted and freed, and its slot taken by another block.\<close>

definition demo_evicting :: block_manager where
  "demo_evicting = snd (manager_transition 0 Ready Evicting (demo_run ! 1))"

definition demo_freed :: block_manager where
  "demo_freed = snd (manager_transition 0 Evicting Free demo_evicting)"

definition demo_recycled :: block_manager where
  "demo_recycled = snd (manager_create_block demo_hash 1 4 GpuSim demo_freed)"

lemma demo_recycled_reachable:
  "lifecycle_reachable 2 \<lparr>lc_manager = demo_recycled, lc_handles = [], lc_dead = {(0, 1)}\<rparr>"
proof -
  have e: "manager_transition 0 Ready Evicting (demo_run ! 1) =
      (fst (manager_transition 0 Ready Evicting (demo_run ! 1)), demo_evicting)"
    by (simp add: demo_evicting_def)
  have "fst (manager_transition 0 Evicting Free demo_evicting) = Inr ()" by code_simp
  then have f: "manager_transition 0 Evicting Free demo_evicting = (Inr (), demo_freed)"
    by (simp add: prod_eq_iff demo_freed_def)
  have r: "manager_create_block demo_hash 1 4 GpuSim demo_freed =
      (fst (manager_create_block demo_hash 1 4 GpuSim demo_freed), demo_recycled)"
    by (simp add: demo_recycled_def)
  have g: "br_generation (block_of 0 demo_evicting) = 1" by code_simp
  from lifecycle_reachable.step [OF demo_reachable_ready lifecycle_step.transition [of 0 Ready Evicting]] e
  have "lifecycle_reachable 2 \<lparr>lc_manager = demo_evicting, lc_handles = [], lc_dead = {}\<rparr>" by simp
  from lifecycle_reachable.step [OF this lifecycle_step.transition [of 0 Evicting Free]] f g
  have "lifecycle_reachable 2 \<lparr>lc_manager = demo_freed, lc_handles = [], lc_dead = {(0, 1)}\<rparr>" by simp
  from lifecycle_reachable.step [OF this lifecycle_step.create [of demo_hash 1 4 GpuSim]] r
  show ?thesis by simp
qed

theorem dead_reference_never_hits_witness:
  "(\<exists>r. manager_fetch_local 9 0 1 demo_recycled = (Inr r, demo_recycled) \<and> fl_status r \<noteq> Hit) \<and>
   fl_status (projr (fst (manager_fetch_local 9 0 1 demo_recycled))) = StaleGeneration"
proof
  show "\<exists>r. manager_fetch_local 9 0 1 demo_recycled = (Inr r, demo_recycled) \<and> fl_status r \<noteq> Hit"
    using dead_reference_never_hits [OF demo_recycled_reachable, of 0 1 9] by auto
qed code_simp

end
