(* ===== verification/Tier_Props.thy ===== *)
theory Tier_Props
  imports Tier
begin

text \<open>
  The tiers of a \<open>TierManager\<close> never hold more than their capacity, no block is in two tiers, the
  record of a placed block names its tier and its payload buffer, and no two placed blocks share a
  buffer. Every operation keeps the bounds; the rest holds for every sequence of operations that places a
  block only when it has a record and is in no tier.
\<close>

section \<open>Invariant\<close>

definition resident :: "block_id \<Rightarrow> tier \<Rightarrow> tier_manager \<Rightarrow> bool" where
  "resident i t tm \<longleftrightarrow> (\<exists>ts. tier_of t tm = Some ts \<and> i \<in> ts_ids ts)"

definition tiers_bounded :: "tier_manager \<Rightarrow> bool" where
  "tiers_bounded tm \<longleftrightarrow> distinct (map fst (tm_tiers tm)) \<and>
     (\<forall>t ts. tier_of t tm = Some ts \<longrightarrow> finite (ts_ids ts) \<and> card (ts_ids ts) \<le> unat (ts_capacity ts))"

definition tiers_recorded :: "tier_state \<Rightarrow> bool" where
  "tiers_recorded s \<longleftrightarrow> (\<forall>i t. resident i t (fst s) \<longrightarrow>
     in_store i (snd s) \<and> br_tier (record_of i (snd s)) = t)"

definition buffers_owned :: "tier_state \<Rightarrow> bool" where
  "buffers_owned s \<longleftrightarrow> ps_bytes_per_block (tm_payloads (fst s)) \<noteq> 0 \<longrightarrow>
     (\<forall>i t. resident i t (fst s) \<longrightarrow> payload_valid (br_payload (record_of i (snd s))) \<and>
        payload_held (tm_payloads (fst s)) (unat (pr_index (br_payload (record_of i (snd s)))))) \<and>
     (\<forall>i t j u. resident i t (fst s) \<longrightarrow> resident j u (fst s) \<longrightarrow>
        br_payload (record_of i (snd s)) = br_payload (record_of j (snd s)) \<longrightarrow> i = j)"

definition tier_inv :: "tier_state \<Rightarrow> bool" where
  "tier_inv s \<longleftrightarrow> tiers_bounded (fst s) \<and> tiers_recorded s \<and> buffers_owned s \<and>
     payload_inv (tm_payloads (fst s)) \<and> store_inv (snd s)"

lemma tier_inv_store: "tier_inv s \<Longrightarrow> store_inv (snd s)"
  by (simp add: tier_inv_def)

lemma resident_unique: "tier_inv s \<Longrightarrow> resident i t (fst s) \<Longrightarrow> resident i u (fst s) \<Longrightarrow> t = u"
  by (metis tier_inv_def tiers_recorded_def)

lemma tier_of_set_tier_store [simp]:
  "tier_of u (set_tier_store t ts tm) = (if u = t then Some ts else tier_of u tm)"
  by (simp add: tier_of_def set_tier_store_def)

lemma tier_of_payloads [simp]: "tier_of u (tm\<lparr>tm_payloads := p\<rparr>) = tier_of u tm"
  by (simp add: tier_of_def)

lemma set_tier_store_others [simp]: "tm_payloads (set_tier_store t ts tm) = tm_payloads tm"
  "tm_latency (set_tier_store t ts tm) = tm_latency tm"
  by (simp_all add: set_tier_store_def)

lemma resident_set_tier_store:
  "resident i u (set_tier_store t ts tm) \<longleftrightarrow> (if u = t then i \<in> ts_ids ts else resident i u tm)"
  by (simp add: resident_def)

lemma resident_payloads [simp]: "resident i u (tm\<lparr>tm_payloads := p\<rparr>) = resident i u tm"
  by (simp add: resident_def)

lemma tiers_bounded_payloads [simp]: "tiers_bounded (tm\<lparr>tm_payloads := p\<rparr>) = tiers_bounded tm"
  by (simp add: tiers_bounded_def tier_of_def)

lemma tier_has_capacity_iff:
  "card (ts_ids ts) \<le> unat (ts_capacity ts) \<Longrightarrow>
   tier_has_capacity ts \<longleftrightarrow> card (ts_ids ts) < unat (ts_capacity ts)"
  using unat_u32_lt [of "ts_capacity ts"] by (simp add: tier_has_capacity_def word_less_nat_alt)

lemma tiers_bounded_set:
  assumes "tiers_bounded tm" "finite (ts_ids ts)" "card (ts_ids ts) \<le> unat (ts_capacity ts)"
  shows "tiers_bounded (set_tier_store t ts tm)"
proof -
  have "distinct (map fst (AList.update t ts (tm_tiers tm)))"
    using assms(1) by (simp add: tiers_bounded_def distinct_update)
  with assms show ?thesis by (simp add: tiers_bounded_def set_tier_store_def tier_of_def)
qed

lemma tiers_bounded_add:
  assumes "tiers_bounded tm" "tier_of t tm = Some ts" "tier_has_capacity ts"
  shows "tiers_bounded (set_tier_store t (ts\<lparr>ts_ids := insert i (ts_ids ts)\<rparr>) tm)"
proof -
  have b: "finite (ts_ids ts)" "card (ts_ids ts) \<le> unat (ts_capacity ts)"
    using assms(1,2) by (auto simp: tiers_bounded_def)
  with assms(3) have "card (ts_ids ts) < unat (ts_capacity ts)" by (simp add: tier_has_capacity_iff)
  with b show ?thesis by (intro tiers_bounded_set [OF assms(1)]) (auto simp: card_insert_if)
qed

lemma tiers_bounded_remove:
  assumes "tiers_bounded tm" "tier_of t tm = Some ts"
  shows "tiers_bounded (set_tier_store t (tier_remove i ts) tm)"
  using assms card_Diff1_le [of "ts_ids ts" i]
  by (intro tiers_bounded_set) (auto simp: tiers_bounded_def tier_remove_def intro: order_trans)

section \<open>The operations, case by case\<close>

lemma tier_manager_place_cases:
  assumes "in_store i (snd s)" and store: "store_inv (snd s)"
  obtains (unknown) e where "tier_of t (fst s) = None"
      "tier_manager_place i t bytes s = (Inl (Logic_error e), s)"
    | (full) ts where "tier_of t (fst s) = Some ts" "\<not> tier_has_capacity ts"
      "tier_manager_place i t bytes s = (Inr \<lparr>to_status = Capacity_exceeded, to_latency_ns = 0\<rparr>, s)"
    | (no_buffer) ts e where "tier_of t (fst s) = Some ts" "tier_has_capacity ts"
      "payload_put bytes (tm_payloads (fst s)) = (Inl e, tm_payloads (fst s))"
      "tier_manager_place i t bytes s = (Inl e, s)"
    | (placed) ts ref p lat where "tier_of t (fst s) = Some ts" "tier_has_capacity ts"
      "payload_put bytes (tm_payloads (fst s)) = (Inr ref, p)"
      "tier_manager_place i t bytes s = (Inr \<lparr>to_status = Success, to_latency_ns = lat\<rparr>,
         (set_tier_store t (ts\<lparr>ts_ids := insert i (ts_ids ts)\<rparr>) ((fst s)\<lparr>tm_payloads := p\<rparr>),
          put_record i ((record_of i (snd s))\<lparr>br_tier := t, br_payload := ref\<rparr>) (snd s)))"
proof (cases "tier_of t (fst s)")
  case None
  then show thesis using unknown by (auto simp: tier_manager_place_def)
next
  case (Some ts)
  show thesis
  proof (cases "tier_has_capacity ts")
    case False
    with Some show thesis using full by (simp add: tier_manager_place_def return_with_def)
  next
    case True
    obtain v p where put: "payload_put bytes (tm_payloads (fst s)) = (v, p)" by fastforce
    show thesis
    proof (cases v)
      case (Inl e)
      then have "p = tm_payloads (fst s)"
        using put by (auto simp: payload_put_def Let_def split: if_splits)
      with Inl Some True put show thesis
        by (intro no_buffer [of ts e])
          (auto simp: tier_manager_place_def on_payloads_def on_member_def prod_eq_iff)
    next
      case (Inr ref)
      with Some True put assms show thesis
        by (intro placed [of ts ref p])
          (auto simp: tier_manager_place_def on_payloads_def on_tier_store_def on_blocks_def
            on_member_def tier_add_def store_set_tier_def store_set_payload_def store_write_in
            return_with_def record_of_put_record)
    qed
  qed
qed

lemma tier_manager_move_cases:
  assumes inv: "tier_inv s"
  obtains (same) v where "tier_manager_move msg i t s = (v, s)"
      "\<And>lat. v \<noteq> Inr \<lparr>to_status = Success, to_latency_ns = lat\<rparr>"
    | (moved) f fs ts lat where "in_store i (snd s)" "br_tier (record_of i (snd s)) = f"
      "tier_of f (fst s) = Some fs" "i \<in> ts_ids fs" "tier_of t (fst s) = Some ts"
      "tier_has_capacity ts"
      "tier_manager_move msg i t s = (Inr \<lparr>to_status = Success, to_latency_ns = lat\<rparr>,
         (if f = t then set_tier_store t ts (set_tier_store t (tier_remove i ts) (fst s))
          else set_tier_store t (ts\<lparr>ts_ids := insert i (ts_ids ts)\<rparr>)
                 (set_tier_store f (tier_remove i fs) (fst s)),
          put_record i ((record_of i (snd s))\<lparr>br_tier := t\<rparr>) (snd s)))"
proof -
  consider "\<not> in_store i (snd s)" | "in_store i (snd s)" "tier_of (br_tier (record_of i (snd s))) (fst s) = None"
    | fs where "in_store i (snd s)" "tier_of (br_tier (record_of i (snd s))) (fst s) = Some fs" "i \<notin> ts_ids fs"
    | fs where "in_store i (snd s)" "tier_of (br_tier (record_of i (snd s))) (fst s) = Some fs" "i \<in> ts_ids fs"
        "tier_of t (fst s) = None"
    | fs ts where "in_store i (snd s)" "tier_of (br_tier (record_of i (snd s))) (fst s) = Some fs" "i \<in> ts_ids fs"
        "tier_of t (fst s) = Some ts" "\<not> tier_has_capacity ts"
    | fs ts where "in_store i (snd s)" "tier_of (br_tier (record_of i (snd s))) (fst s) = Some fs" "i \<in> ts_ids fs"
        "tier_of t (fst s) = Some ts" "tier_has_capacity ts"
    by (metis not_None_eq)
  then show thesis
  proof cases
    case (6 fs ts)
    let ?f = "br_tier (record_of i (snd s))"
    have b: "finite (ts_ids ts)" "card (ts_ids ts) \<le> unat (ts_capacity ts)"
      using inv 6(4) by (auto simp: tier_inv_def tiers_bounded_def)
    have "tier_has_capacity (tier_remove i ts)"
      using 6(5) b card_Diff1_le [of "ts_ids ts" i] unat_u32_lt [of "ts_capacity ts"]
      by (simp add: tier_has_capacity_def tier_remove_def word_less_nat_alt)
    moreover have "ts = fs" if "?f = t" using 6(2,4) that by simp
    ultimately show thesis
      using 6 by (intro moved [of ?f fs ts])
        (auto simp: tier_manager_move_def tier_contains_def tier_add_def on_tier_store_def
          on_blocks_def on_member_def store_set_tier_def store_write_in return_with_def
          tier_remove_def insert_absorb Let_def)
  qed (rule same, auto simp: tier_manager_move_def store_get_out tier_contains_def return_with_def throw_def)+
qed

lemma tier_remove_loop_not_found:
  "\<forall>p \<in> set tiers. i \<notin> ts_ids (snd p) \<Longrightarrow>
   tier_remove_loop i tiers s = (Inr \<lparr>to_status = Block_not_found, to_latency_ns = 0\<rparr>, s)"
  by (induction i tiers s rule: tier_remove_loop.induct) (auto simp: tier_contains_def return_with_def)

lemma tier_remove_loop_found:
  "p \<in> set tiers \<Longrightarrow> i \<in> ts_ids (snd p) \<Longrightarrow> \<forall>q \<in> set tiers. i \<in> ts_ids (snd q) \<longrightarrow> q = p \<Longrightarrow>
   tier_remove_loop i tiers s = tier_remove_loop i [p] s"
proof (induction tiers)
  case (Cons q tiers)
  show ?case
  proof (cases "i \<in> ts_ids (snd q)")
    case True
    then have "q = p" using bspec [OF Cons.prems(3), of q] by (meson list.set_intros(1))
    with True show ?thesis by (cases p) (simp add: tier_contains_def)
  next
    case False
    then have "p \<in> set tiers" using Cons.prems(1,2) by auto
    moreover have "\<forall>q \<in> set tiers. i \<in> ts_ids (snd q) \<longrightarrow> q = p"
      using Cons.prems(3) by (meson list.set_intros(2))
    ultimately have "tier_remove_loop i tiers s = tier_remove_loop i [p] s"
      by (rule Cons.IH [OF _ Cons.prems(2)])
    with False show ?thesis by (cases q) (simp add: tier_contains_def)
  qed
qed simp

lemma tier_of_mem: "tiers_bounded tm \<Longrightarrow> tier_of t tm = Some ts \<longleftrightarrow> (t, ts) \<in> set (tm_tiers tm)"
  by (simp add: tier_of_def tiers_bounded_def)

lemma tier_manager_remove_cases:
  assumes inv: "tier_inv s"
  obtains (absent) "\<And>t. \<not> resident i t (fst s)"
      "tier_manager_remove i s = (Inr \<lparr>to_status = Block_not_found, to_latency_ns = 0\<rparr>, s)"
    | (removed) t ts p lat where "tier_of t (fst s) = Some ts" "i \<in> ts_ids ts"
      "payload_remove (br_payload (record_of i (snd s))) (tm_payloads (fst s)) = (Inr (), p)"
      "tier_manager_remove i s = (Inr \<lparr>to_status = Success, to_latency_ns = lat\<rparr>,
         (set_tier_store t (tier_remove i ts) ((fst s)\<lparr>tm_payloads := p\<rparr>), snd s))"
proof (cases "\<exists>t. resident i t (fst s)")
  case False
  then show thesis
    using inv absent tier_remove_loop_not_found [of "tm_tiers (fst s)" i s]
    by (force simp: tier_manager_remove_def resident_def tier_of_mem tier_inv_def)
next
  case True
  then obtain t ts where ts: "tier_of t (fst s) = Some ts" "i \<in> ts_ids ts" by (auto simp: resident_def)
  have only: "(u, us) = (t, ts)" if "(u, us) \<in> set (tm_tiers (fst s))" "i \<in> ts_ids us" for u us
  proof -
    have u: "tier_of u (fst s) = Some us" using that inv by (simp add: tier_inv_def tier_of_mem)
    with that ts inv have "br_tier (record_of i (snd s)) = u" "br_tier (record_of i (snd s)) = t"
      by (auto simp: tier_inv_def tiers_recorded_def resident_def)
    then have "u = t" by simp
    with u ts show ?thesis by simp
  qed
  have st: "in_store i (snd s)" using ts inv by (auto simp: tier_inv_def tiers_recorded_def resident_def)
  let ?r = "br_payload (record_of i (snd s))"
  have "\<exists>p. payload_remove ?r (tm_payloads (fst s)) = (Inr (), p)"
  proof (cases "ps_bytes_per_block (tm_payloads (fst s)) = 0")
    case False
    then have "unat (pr_index ?r) < unat (ps_max_blocks (tm_payloads (fst s)))"
      using ts inv by (auto simp: tier_inv_def buffers_owned_def resident_def payload_held_def)
    then have "unat (pr_index ?r) < length (ps_buffers (tm_payloads (fst s)))"
      using inv False by (simp add: tier_inv_def payload_inv_def)
    then show ?thesis by (auto simp: payload_remove_def Let_def)
  qed (auto simp: payload_remove_def)
  then obtain p where p: "payload_remove ?r (tm_payloads (fst s)) = (Inr (), p)" by blast
  moreover have "tier_manager_remove i s = tier_remove_loop i [(t, ts)] s"
    unfolding tier_manager_remove_def
  proof (rule tier_remove_loop_found)
    show "(t, ts) \<in> set (tm_tiers (fst s))" using ts inv by (simp add: tier_inv_def tier_of_mem)
    show "\<forall>q \<in> set (tm_tiers (fst s)). i \<in> ts_ids (snd q) \<longrightarrow> q = (t, ts)"
      using only by (metis prod.collapse)
  qed (simp add: ts)
  ultimately have "\<exists>lat. tier_manager_remove i s = (Inr \<lparr>to_status = Success, to_latency_ns = lat\<rparr>,
         (set_tier_store t (tier_remove i ts) ((fst s)\<lparr>tm_payloads := p\<rparr>), snd s))"
    using ts st by (simp add: tier_contains_def on_payloads_def on_member_def return_with_def)
  with removed ts p show thesis by blast
qed

section \<open>Payload buffers\<close>

lemma payload_put_held:
  assumes inv: "payload_inv s" and run: "payload_put bytes s = (Inr r, s')"
    and mode: "ps_bytes_per_block s \<noteq> 0"
  shows "payload_valid r" "\<not> payload_held s (unat (pr_index r))"
    "payload_held s' k \<longleftrightarrow> payload_held s k \<or> k = unat (pr_index r)"
proof -
  note d = payload_put_okD [OF inv run mode]
  let ?slot = "last (ps_free s)"
  have idx: "unat (pr_index r) = unat ?slot" using d(2) by simp
  have slot: "?slot \<in> set (ps_free s)" using d(1) by simp
  have lt: "unat ?slot < unat (ps_max_blocks s)"
    using inv mode slot by (auto simp: payload_inv_def word_less_nat_alt)
  have dist: "distinct (ps_free s)" using inv mode by (simp add: payload_inv_def)
  show "payload_valid r" by (rule d)
  show "\<not> payload_held s (unat (pr_index r))" using slot by (simp add: payload_held_def idx)
  have "set (ps_free s') = set (ps_free s) - {?slot}"
    using set_butlast_last [OF d(1)] distinct_butlast_notin [OF dist d(1)] d(6) by auto
  moreover have "(of_nat k :: u32) = ?slot \<longleftrightarrow> k = unat ?slot" if "k < unat (ps_max_blocks s)"
    using that unat_u32_lt [of "ps_max_blocks s"] by (intro of_nat_u32_eq_iff) simp
  ultimately show "payload_held s' k \<longleftrightarrow> payload_held s k \<or> k = unat (pr_index r)"
    using d(4,5) mode lt by (auto simp: payload_held_def idx)
qed

lemma payload_remove_held:
  assumes run: "payload_remove r s = (Inr u, s')" and valid: "payload_valid r"
    and mode: "ps_bytes_per_block s \<noteq> 0" and held: "payload_held s (unat (pr_index r))"
  shows "payload_held s' k \<longleftrightarrow> payload_held s k \<and> k \<noteq> unat (pr_index r)"
    "ps_bytes_per_block s' = ps_bytes_per_block s"
proof -
  have s': "s' = s\<lparr>ps_free := ps_free s @ [of_nat (unat (pr_index r))]\<rparr>"
    using run valid mode by (auto simp: payload_remove_def Let_def split: if_splits)
  have lt: "unat (pr_index r) < unat (ps_max_blocks s)" using held by (simp add: payload_held_def)
  have eq: "(of_nat k :: u32) = of_nat (unat (pr_index r)) \<longleftrightarrow> k = unat (pr_index r)"
    if "k < unat (ps_max_blocks s)"
    using that lt unat_u32_lt [of "ps_max_blocks s"] by (subst of_nat_u32_eq_iff) (simp_all add: unat_ucast_u64_u32)
  show "payload_held s' k \<longleftrightarrow> payload_held s k \<and> k \<noteq> unat (pr_index r)"
    using eq by (auto simp: payload_held_def s')
  show "ps_bytes_per_block s' = ps_bytes_per_block s" by (simp add: s')
qed

lemma payload_put_bytes: "payload_put bytes s = (v, s') \<Longrightarrow> ps_bytes_per_block s' = ps_bytes_per_block s"
  by (auto simp: payload_put_def Let_def split: if_splits)

lemma payload_remove_bytes: "payload_remove r s = (v, s') \<Longrightarrow> ps_bytes_per_block s' = ps_bytes_per_block s"
  by (auto simp: payload_remove_def Let_def split: if_splits)

section \<open>Preservation\<close>

lemma tier_inv_place:
  assumes inv: "tier_inv s" and blk: "in_store i (snd s)" and new: "\<And>u. \<not> resident i u (fst s)"
    and run: "tier_manager_place i t bytes s = (v, s')"
  shows "tier_inv s'"
  using blk tier_inv_store [OF inv]
proof (cases rule: tier_manager_place_cases [of i s t bytes])
  case (placed ts ref p lat)
  let ?tm = "set_tier_store t (ts\<lparr>ts_ids := insert i (ts_ids ts)\<rparr>) ((fst s)\<lparr>tm_payloads := p\<rparr>)"
  let ?st = "put_record i ((record_of i (snd s))\<lparr>br_tier := t, br_payload := ref\<rparr>) (snd s)"
  have s': "s' = (?tm, ?st)" using placed run by simp
  have st: "store_inv (snd s)" and pinv: "payload_inv (tm_payloads (fst s))"
    using inv by (simp_all add: tier_inv_def)
  have res: "resident j u ?tm \<longleftrightarrow> resident j u (fst s) \<or> j = i \<and> u = t" for j u
    using placed(1) by (auto simp: resident_set_tier_store resident_def)
  have rec: "record_of j ?st = (if j = i then (record_of i (snd s))\<lparr>br_tier := t, br_payload := ref\<rparr>
      else record_of j (snd s))" for j
    by (rule record_of_put_record [OF st blk])
  have "tiers_bounded ?tm"
    using inv placed by (intro tiers_bounded_add) (simp_all add: tier_inv_def)
  moreover have "tiers_recorded s'"
    using inv new blk by (auto simp: tier_inv_def tiers_recorded_def s' res rec)
  moreover have "buffers_owned s'"
  proof (cases "ps_bytes_per_block (tm_payloads (fst s)) = 0")
    case True
    then show ?thesis using payload_put_bytes [OF placed(3)] by (simp add: buffers_owned_def s')
  next
    case False
    note h = payload_put_held [OF pinv placed(3) False]
    have "br_payload (record_of j (snd s)) \<noteq> ref" if "resident j u (fst s)" for j u
      using inv that h(2) False by (auto simp: tier_inv_def buffers_owned_def)
    then show ?thesis
      using inv new h False by (auto simp: tier_inv_def buffers_owned_def s' res rec)
  qed
  ultimately show ?thesis
    using st payload_inv_put [OF pinv placed(3)] by (simp add: tier_inv_def s')
qed (use run inv in \<open>auto simp: tier_inv_def\<close>)

lemma tier_inv_move:
  assumes inv: "tier_inv s" and run: "tier_manager_move msg i t s = (v, s')"
  shows "tier_inv s'"
  using inv
proof (cases rule: tier_manager_move_cases [of s msg i t])
  case (moved f fs ts lat)
  have st: "store_inv (snd s)" using inv by (simp add: tier_inv_def)
  have bnd: "tiers_bounded (fst s)" using inv by (simp add: tier_inv_def)
  let ?tm = "fst s'"
  have s': "snd s' = put_record i ((record_of i (snd s))\<lparr>br_tier := t\<rparr>) (snd s)"
    using moved run by simp
  have rec: "record_of j (snd s') = (if j = i then (record_of i (snd s))\<lparr>br_tier := t\<rparr>
      else record_of j (snd s))" for j
    unfolding s' by (rule record_of_put_record [OF st moved(1)])
  have only: "resident i u (fst s) \<longleftrightarrow> u = f" for u
    using resident_unique [OF inv] moved(3,4) by (metis resident_def)
  have res: "resident j u ?tm \<longleftrightarrow> (if j = i then u = t else resident j u (fst s))" for j u
  proof (cases "f = t")
    case True
    then have "fs = ts" using moved by simp
    then show ?thesis
      using moved run True only [of u] by (auto simp: resident_set_tier_store) (auto simp: resident_def)
  next
    case False
    then show ?thesis
      using moved run only [of u]
      by (auto simp: resident_set_tier_store tier_remove_def) (auto simp: resident_def)
  qed
  have "tiers_bounded ?tm"
  proof (cases "f = t")
    case True
    have "finite (ts_ids ts)" "card (ts_ids ts) \<le> unat (ts_capacity ts)"
      using bnd moved(5) by (auto simp: tiers_bounded_def)
    then show ?thesis
      using True moved run bnd by (auto intro!: tiers_bounded_set tiers_bounded_remove)
  next
    case False
    then show ?thesis
      using moved run bnd by (auto intro!: tiers_bounded_add tiers_bounded_remove)
  qed
  moreover have in_store_put: "in_store j (snd s') = in_store j (snd s)" for j by (simp add: s')
  moreover have pay: "tm_payloads ?tm = tm_payloads (fst s)" using moved run by auto
  moreover have "tiers_recorded s'"
    using inv moved(1) by (auto simp: tier_inv_def tiers_recorded_def res rec in_store_put split: if_splits)
  moreover have "buffers_owned s'"
  proof -
    have *: "br_payload (record_of j (snd s')) = br_payload (record_of j (snd s))" for j
      by (simp add: rec)
    have "resident j u ?tm \<Longrightarrow> \<exists>u'. resident j u' (fst s)" for j u
      using only by (auto simp: res split: if_splits)
    then show ?thesis using inv by (simp add: tier_inv_def buffers_owned_def pay *)
  qed
  ultimately show ?thesis using inv by (simp add: tier_inv_def s')
qed (use run inv in auto)

lemma tier_inv_remove:
  assumes inv: "tier_inv s" and run: "tier_manager_remove i s = (v, s')"
  shows "tier_inv s'"
  using inv
proof (cases rule: tier_manager_remove_cases [of s i])
  case (removed t ts p lat)
  let ?tm = "set_tier_store t (tier_remove i ts) ((fst s)\<lparr>tm_payloads := p\<rparr>)"
  let ?r = "br_payload (record_of i (snd s))"
  have s': "s' = (?tm, snd s)" using removed run by simp
  have only: "resident i u (fst s) \<longleftrightarrow> u = t" for u
    using resident_unique [OF inv] removed(1,2) by (metis resident_def)
  have res: "resident j u ?tm \<longleftrightarrow> resident j u (fst s) \<and> j \<noteq> i" for j u
    using removed(1) only [of u]
    by (auto simp: resident_set_tier_store tier_remove_def) (auto simp: resident_def)
  have owned: "payload_valid ?r" "payload_held (tm_payloads (fst s)) (unat (pr_index ?r))"
      "\<And>j u. resident j u (fst s) \<Longrightarrow> j \<noteq> i \<Longrightarrow> br_payload (record_of j (snd s)) \<noteq> ?r"
    if "ps_bytes_per_block (tm_payloads (fst s)) \<noteq> 0"
    using inv only that by (auto simp: tier_inv_def buffers_owned_def)
  have "tiers_bounded ?tm"
    using inv removed by (intro tiers_bounded_remove) (simp_all add: tier_inv_def)
  moreover have "payload_inv p"
    using payload_inv_remove [OF _ removed(3)] inv owned by (auto simp: tier_inv_def)
  moreover have "buffers_owned s'"
  proof (cases "ps_bytes_per_block (tm_payloads (fst s)) = 0")
    case True
    then show ?thesis using payload_remove_bytes [OF removed(3)] by (simp add: buffers_owned_def s')
  next
    case False
    note h = payload_remove_held [OF removed(3) owned(1) [OF False] False owned(2) [OF False]]
    have idx: "unat (pr_index (br_payload (record_of j (snd s)))) \<noteq> unat (pr_index ?r)"
      if "resident j u (fst s)" "j \<noteq> i" for j u
    proof -
      have "pr_index a = pr_index b \<Longrightarrow> a = b" for a b :: payload_ref by (cases a; cases b) simp
      then show ?thesis using owned(3) [OF False that] unsigned_word_eqI by metis
    qed
    have all: "\<forall>j u. resident j u (fst s) \<longrightarrow> payload_valid (br_payload (record_of j (snd s))) \<and>
        payload_held (tm_payloads (fst s)) (unat (pr_index (br_payload (record_of j (snd s)))))"
      and inj: "\<forall>j u k w. resident j u (fst s) \<longrightarrow> resident k w (fst s) \<longrightarrow>
        br_payload (record_of j (snd s)) = br_payload (record_of k (snd s)) \<longrightarrow> j = k"
      using inv False unfolding tier_inv_def buffers_owned_def by blast+
    show ?thesis
      unfolding buffers_owned_def s' using all inj idx h by (auto simp: res)
  qed
  moreover have "tiers_recorded s'"
    using inv by (auto simp: tier_inv_def tiers_recorded_def s' res)
  ultimately show ?thesis using inv by (simp add: tier_inv_def s')
qed (use run inv in auto)

section \<open>Any sequence of operations\<close>

text \<open>The exceptions and the results are dropped, the state goes on.\<close>

datatype tier_op =
    Op_place block_id tier "u8 list"
  | Op_promote block_id tier
  | Op_demote block_id tier
  | Op_remove block_id

definition placed_somewhere :: "block_id \<Rightarrow> tier_manager \<Rightarrow> bool" where
  "placed_somewhere i tm \<longleftrightarrow> list_ex (\<lambda>(t, ts). i \<in> ts_ids ts) (tm_tiers tm)"

fun tier_step :: "tier_op \<Rightarrow> tier_state \<Rightarrow> tier_state" where
  "tier_step (Op_place i t bytes) s = snd (tier_manager_place i t bytes s)"
| "tier_step (Op_promote i t) s = snd (tier_manager_promote i t s)"
| "tier_step (Op_demote i t) s = snd (tier_manager_demote i t s)"
| "tier_step (Op_remove i) s = snd (tier_manager_remove i s)"

text \<open>The obligation of the client, which \<open>place\<close> does not check: it places a block that has a record and is
  in no tier, as \<open>admit\<close> does with a block it has just created.\<close>

fun placements_ok :: "tier_op list \<Rightarrow> tier_state \<Rightarrow> bool" where
  "placements_ok [] s \<longleftrightarrow> True"
| "placements_ok (op # ops) s \<longleftrightarrow>
     (case op of Op_place i t bytes \<Rightarrow> in_store i (snd s) \<and> \<not> placed_somewhere i (fst s) | _ \<Rightarrow> True) \<and>
     placements_ok ops (tier_step op s)"

definition make_tiers :: "u32 \<Rightarrow> u32 \<Rightarrow> u32 \<Rightarrow> u64 \<Rightarrow> latency_model \<Rightarrow> tier_manager" where
  "make_tiers gpu host buffers bytes lat =
     \<lparr>tm_tiers = [(GpuSim, make_tier_store gpu), (Host, make_tier_store host)],
      tm_payloads = make_payload_store buffers bytes, tm_latency = lat\<rparr>"

lemma not_placed_somewhere: "tiers_bounded tm \<Longrightarrow> \<not> placed_somewhere i tm \<Longrightarrow> \<not> resident i t tm"
  by (auto simp: placed_somewhere_def resident_def tier_of_mem list_ex_iff)

lemma tier_inv_step:
  assumes "tier_inv s" "placements_ok [op] s"
  shows "tier_inv (tier_step op s)"
proof (cases op)
  case (Op_place i t bytes)
  then show ?thesis
    using assms not_placed_somewhere [of "fst s" i]
    by (auto intro: tier_inv_place [OF assms(1), of i t bytes] simp: tier_inv_def [of s] prod_eq_iff)
qed (use assms in \<open>auto intro: tier_inv_move tier_inv_remove
      simp: tier_manager_promote_def tier_manager_demote_def prod_eq_iff\<close>)

lemma tier_inv_run: "tier_inv s \<Longrightarrow> placements_ok ops s \<Longrightarrow> tier_inv (fold tier_step ops s)"
  by (induction ops arbitrary: s) (simp_all add: tier_inv_step)

text \<open>The bounds do not need the obligation.\<close>

lemma tiers_bounded_place:
  assumes b: "tiers_bounded (fst s)"
  shows "tiers_bounded (fst (snd (tier_manager_place i t bytes s)))"
proof (cases "tier_of t (fst s)")
  case None
  with b show ?thesis by (simp add: tier_manager_place_def)
next
  case (Some ts)
  show ?thesis
  proof (cases "tier_has_capacity ts")
    case False
    with b Some show ?thesis by (simp add: tier_manager_place_def)
  next
    case True
    have "tiers_bounded (set_tier_store t (ts\<lparr>ts_ids := insert i (ts_ids ts)\<rparr>) ((fst s)\<lparr>tm_payloads := p\<rparr>))" for p
      by (rule tiers_bounded_add) (use True b Some in simp_all)
    then show ?thesis
      unfolding tier_manager_place_def using True b Some
      by (simp, intro and_then_keeps [where P = "\<lambda>s. tiers_bounded (fst s)"])
        (auto simp: on_payloads_def on_tier_store_def on_blocks_def on_member_eq on_member_def tier_add_def)
  qed
qed

lemma tiers_bounded_move:
  assumes b: "tiers_bounded (fst s)"
  shows "tiers_bounded (fst (snd (tier_manager_move msg i t s)))"
proof (cases "store_get i (snd s)")
  case (Inl e)
  with b show ?thesis by (simp add: tier_manager_move_def)
next
  case (Inr rec)
  let ?f = "br_tier rec"
  show ?thesis
  proof (cases "\<exists>fs ts. tier_of ?f (fst s) = Some fs \<and> tier_contains i fs \<and> tier_of t (fst s) = Some ts \<and> tier_has_capacity ts")
    case False
    with b Inr show ?thesis by (auto simp: tier_manager_move_def Let_def split: option.splits)
  next
    case True
    then obtain fs ts where fs: "tier_of ?f (fst s) = Some fs" "tier_contains i fs" "tier_of t (fst s) = Some ts"
      "tier_has_capacity ts" by blast
    let ?tm = "set_tier_store ?f (tier_remove i fs) (fst s)"
    have b1: "tiers_bounded ?tm" by (rule tiers_bounded_remove [OF b fs(1)])
    have "\<exists>ts1. tier_of t ?tm = Some ts1" using fs(3) by simp
    then obtain ts1 where ts1: "tier_of t ?tm = Some ts1" by blast
    have same: "tiers_bounded (set_tier_store t ts1 ?tm)"
      by (rule tiers_bounded_set [OF b1]) (use b1 ts1 in \<open>simp_all add: tiers_bounded_def del: tier_of_set_tier_store\<close>)
    show ?thesis
      unfolding tier_manager_move_def using Inr fs ts1 b1 same
      by (simp add: Let_def del: tier_of_set_tier_store, intro and_then_keeps [where P = "\<lambda>s. tiers_bounded (fst s)"])
        (auto simp: on_tier_store_def on_blocks_def on_member_eq on_member_def tier_add_def
          simp del: tier_of_set_tier_store intro: tiers_bounded_add)
  qed
qed

lemma tiers_bounded_remove_loop:
  "tiers_bounded (fst s) \<Longrightarrow> \<forall>(t, ts) \<in> set l. tier_of t (fst s) = Some ts \<Longrightarrow>
   tiers_bounded (fst (snd (tier_remove_loop i l s)))"
proof (induction l)
  case (Cons tts l)
  obtain t ts where tts: "tts = (t, ts)" by fastforce
  show ?case
  proof (cases "tier_contains i ts")
    case False
    with Cons tts show ?thesis by simp
  next
    case True
    show ?thesis
    proof (cases "store_get i (snd s)")
      case (Inl e)
      with True Cons.prems(1) show ?thesis by (simp add: tts)
    next
      case (Inr rec)
      have "tier_of t (fst s) = Some ts" using Cons.prems(2) tts by simp
      with Inr True Cons.prems(1) show ?thesis
        by (simp add: tts, intro and_then_keeps [where P = "\<lambda>s. tiers_bounded (fst s)"])
          (auto simp: on_payloads_def on_member_eq on_member_def Let_def intro: tiers_bounded_remove)
    qed
  qed
qed simp

lemma tiers_bounded_step: "tiers_bounded (fst s) \<Longrightarrow> tiers_bounded (fst (tier_step op s))"
proof (cases op)
  case (Op_remove i)
  assume "tiers_bounded (fst s)"
  with Op_remove tiers_bounded_remove_loop [of s "tm_tiers (fst s)" i] show ?thesis
    by (auto simp: tier_manager_remove_def tier_of_mem)
qed (simp_all add: tiers_bounded_place tiers_bounded_move tier_manager_promote_def tier_manager_demote_def)

lemma tiers_bounded_run: "tiers_bounded (fst s) \<Longrightarrow> tiers_bounded (fst (fold tier_step ops s))"
  by (induction ops arbitrary: s) (simp_all add: tiers_bounded_step)

lemma tier_of_make_tiers: "tier_of t (make_tiers gpu host buffers bytes lat) = Some ts \<Longrightarrow> ts_ids ts = {}"
  by (cases t) (auto simp: tier_of_def make_tiers_def make_tier_store_def)

lemma tier_inv_make_tiers: "tier_inv (make_tiers gpu host buffers bytes lat, make_store c)"
proof -
  have "\<not> resident i t (make_tiers gpu host buffers bytes lat)" for i t
    by (auto simp: resident_def dest: tier_of_make_tiers)
  moreover have "tiers_bounded (make_tiers gpu host buffers bytes lat)"
    unfolding tiers_bounded_def by (auto dest: tier_of_make_tiers) (simp add: make_tiers_def)
  ultimately show ?thesis
    by (simp add: tier_inv_def tiers_recorded_def buffers_owned_def)
      (simp add: make_tiers_def payload_inv_make)
qed

section \<open>Properties\<close>

text \<open>C28: start two empty tiers with any fresh payload store and a well-sized block store, and run any sequence of
  place, promote, demote and remove calls, successful or throwing, on any blocks. Then no tier holds more
  blocks than its capacity. If the client keeps its obligation (\<open>placements_ok\<close>: each \<open>place\<close> of the run
  is of a block that has a record and is in no tier at that moment), then also a block that is in a tier
  is in no other one, its record names that tier, and with payloads switched on its record points to a
  buffer in use that no other placed block points to. \<open>place\<close> does not check the obligation: a second \<open>place\<close>
  leaves a block in two tiers (\<open>placed_twice\<close>).\<close>

theorem tier_placement_sound:
  assumes run: "fold tier_step ops (make_tiers gpu host buffers bytes lat, store) = (tm, st)"
    and fresh: "store_inv store"
  shows "(\<forall>t ts. tier_of t tm = Some ts \<longrightarrow> card (ts_ids ts) \<le> unat (ts_capacity ts)) \<and>
    (placements_ok ops (make_tiers gpu host buffers bytes lat, store) \<longrightarrow>
      (\<forall>i t u. resident i t tm \<longrightarrow> resident i u tm \<longrightarrow> t = u) \<and>
      (\<forall>i t. resident i t tm \<longrightarrow> br_tier (record_of i st) = t) \<and>
      (ps_bytes_per_block (tm_payloads tm) \<noteq> 0 \<longrightarrow>
        (\<forall>i t. resident i t tm \<longrightarrow>
           payload_held (tm_payloads tm) (unat (pr_index (br_payload (record_of i st))))) \<and>
        (\<forall>i t j u. resident i t tm \<longrightarrow> resident j u tm \<longrightarrow>
           br_payload (record_of i st) = br_payload (record_of j st) \<longrightarrow> i = j)))"
proof -
  let ?s = "(make_tiers gpu host buffers bytes lat, store)"
  have inv: "tier_inv ?s"
    using tier_inv_make_tiers [of gpu host buffers bytes lat] fresh
    by (auto simp: tier_inv_def tiers_recorded_def buffers_owned_def resident_def dest: tier_of_make_tiers)
  then have "tiers_bounded tm" using tiers_bounded_run [of ?s ops] run by (simp add: tier_inv_def)
  moreover have "tier_inv (tm, st)" if "placements_ok ops ?s" using tier_inv_run [OF inv that] run by simp
  ultimately show ?thesis
    using resident_unique [of "(tm, st)"]
    unfolding tier_inv_def tiers_bounded_def tiers_recorded_def buffers_owned_def by auto
qed

theorem tier_placement_sound_witness:
  "\<exists>tm st. fold tier_step [Op_place 0 GpuSim [1], Op_place 1 GpuSim [2], Op_demote 0 Host,
       Op_place 1 GpuSim [2]]
     (make_tiers 1 1 2 1 (constant_latency 1 2 3 4), make_store 2) = (tm, st) \<and>
   resident 0 Host tm \<and> br_tier (record_of 0 st) = Host"
proof -
  let ?ops = "[Op_place 0 GpuSim [1], Op_place 1 GpuSim [2], Op_demote 0 Host, Op_place 1 GpuSim [2]]"
  let ?s0 = "(make_tiers 1 1 2 1 (constant_latency 1 2 3 4), make_store 2)"
  obtain tm st where s: "fold tier_step ?ops ?s0 = (tm, st)" by fastforce
  have "map (\<lambda>(t, ts). (t, 0 \<in> ts_ids ts)) (tm_tiers (fst (fold tier_step ?ops ?s0))) = [(GpuSim, False), (Host, True)]"
    by code_simp
  then have "map (\<lambda>(t, ts). (t, 0 \<in> ts_ids ts)) (tm_tiers tm) = [(GpuSim, False), (Host, True)]" unfolding s by simp
  then have r: "resident 0 Host tm" by (auto simp: resident_def tier_of_def map_eq_Cons_conv)
  have "placements_ok ?ops ?s0" by code_simp
  then have "br_tier (record_of 0 st) = Host" using tier_placement_sound [OF s store_inv_make] r by blast
  with r s show ?thesis by blast
qed

text \<open>The second \<open>place\<close> of a block succeeds.\<close>

lemma placed_twice:
  "let s = fold tier_step [Op_place 0 GpuSim [1], Op_place 0 Host [1]]
     (make_tiers 1 1 2 1 (constant_latency 1 2 3 4), make_store 1)
   in map (\<lambda>(t, ts). (t, 0 \<in> ts_ids ts)) (tm_tiers (fst s)) = [(GpuSim, True), (Host, True)]"
  by code_simp

text \<open>C29: \<open>remove\<close> undoes \<open>place\<close>: it takes the block out of its tier and hands its buffer back, so
  the tiers are as before and the payload store has the same buffers in use.\<close>

theorem tier_remove_undoes_place:
  assumes inv: "tier_inv s" and blk: "in_store i (snd s)" and new: "\<And>u. \<not> resident i u (fst s)"
    and run: "tier_manager_place i t bytes s = (Inr r, s1)" and ok: "to_status r = Success"
  shows "\<exists>r' s2. tier_manager_remove i s1 = (Inr r', s2) \<and> to_status r' = Success \<and>
    (\<forall>u. map_option ts_ids (tier_of u (fst s2)) = map_option ts_ids (tier_of u (fst s))) \<and>
    payload_held (tm_payloads (fst s2)) = payload_held (tm_payloads (fst s))"
  using blk tier_inv_store [OF inv]
proof (cases rule: tier_manager_place_cases [of i s t bytes])
  case (placed ts ref p lat)
  note inv1 = tier_inv_place [OF inv blk new run]
  have s1: "s1 = (set_tier_store t (ts\<lparr>ts_ids := insert i (ts_ids ts)\<rparr>) ((fst s)\<lparr>tm_payloads := p\<rparr>),
      put_record i ((record_of i (snd s))\<lparr>br_tier := t, br_payload := ref\<rparr>) (snd s))"
    using placed run by simp
  have rt: "resident i t (fst s1)" by (simp add: s1 resident_set_tier_store)
  have pay: "br_payload (record_of i (snd s1)) = ref"
    by (simp add: s1 record_of_put_record [OF tier_inv_store [OF inv] blk])
  have pinv: "payload_inv (tm_payloads (fst s))" using inv by (simp add: tier_inv_def)
  from inv1 show ?thesis
  proof (cases rule: tier_manager_remove_cases [of s1 i])
    case absent
    with rt show ?thesis by blast
  next
    case (removed u us q lat')
    then have u: "u = t" using resident_unique [OF inv1 _ rt] by (metis resident_def)
    have us: "us = ts\<lparr>ts_ids := insert i (ts_ids ts)\<rparr>" using removed(1) by (simp add: u s1)
    have rem: "payload_remove ref p = (Inr (), q)" using removed(3) pay by (simp add: s1)
    have "i \<notin> ts_ids ts" using new [of t] placed(1) by (auto simp: resident_def)
    then have tiers: "map_option ts_ids (tier_of w (fst (set_tier_store u (tier_remove i us)
        ((fst s1)\<lparr>tm_payloads := q\<rparr>), snd s1))) = map_option ts_ids (tier_of w (fst s))" for w
      by (auto simp: u us tier_remove_def s1 placed(1))
    have "payload_held q = payload_held (tm_payloads (fst s))"
    proof (cases "ps_bytes_per_block (tm_payloads (fst s)) = 0")
      case True
      then show ?thesis
        using payload_put_bytes [OF placed(3)] payload_remove_bytes [OF rem]
        by (simp add: payload_held_def fun_eq_iff)
    next
      case False
      note h = payload_put_held [OF pinv placed(3) False]
      have "ps_bytes_per_block p \<noteq> 0" using False payload_put_bytes [OF placed(3)] by simp
      from payload_remove_held [OF rem h(1) this] h(2,3) show ?thesis by (auto simp: fun_eq_iff)
    qed
    with removed tiers show ?thesis by auto
  qed
qed (use run ok in auto)

theorem tier_remove_undoes_place_witness:
  "\<exists>r s. tier_manager_remove 0 (snd (tier_manager_place 0 GpuSim [7]
      (make_tiers 1 1 1 1 (constant_latency 1 2 3 4), make_store 1))) = (Inr r, s) \<and>
    to_status r = Success \<and> payload_held (tm_payloads (fst s)) = payload_held (make_payload_store 1 1)"
proof -
  let ?s = "(make_tiers 1 1 1 1 (constant_latency 1 2 3 4), make_store 1)"
  let ?p = "tier_manager_place 0 GpuSim [7] ?s"
  have st: "fst ?p = Inr \<lparr>to_status = Success, to_latency_ns = 2\<rparr>" by code_simp
  have none: "\<not> resident 0 u (fst ?s)" for u
    by (auto simp: resident_def dest: tier_of_make_tiers)
  have "\<exists>r' s2. tier_manager_remove 0 (snd ?p) = (Inr r', s2) \<and> to_status r' = Success \<and>
    (\<forall>u. map_option ts_ids (tier_of u (fst s2)) = map_option ts_ids (tier_of u (fst ?s))) \<and>
    payload_held (tm_payloads (fst s2)) = payload_held (tm_payloads (fst ?s))"
    by (rule tier_remove_undoes_place [OF tier_inv_make_tiers _ none])
      (use st in \<open>auto simp: in_store_def make_store_def store_slot_def prod_eq_iff\<close>)
  then show ?thesis by (auto simp: make_tiers_def)
qed

end
