(* ===== verification/Tier_Eviction.thy ===== *)
theory Tier_Eviction
  imports Eviction Tier_Props
begin

text \<open>
  The eviction of a block on a cache whose tier manager works on the store of its block manager: the
  tiers stay consistent with the records, and the tier of the block has room afterwards.
\<close>

section \<open>A change of state and the tiers\<close>

lemma tier_inv_set_block_state:
  assumes inv: "tier_inv (tm, bm_store m)" and i: "has_block i m"
  shows "tier_inv (tm, bm_store (set_block_state i t m))"
proof -
  have s: "store_inv (bm_store m)" using tier_inv_store [OF inv] by simp
  have rec: "record_of j (bm_store (set_block_state i t m)) =
      (if j = i then (record_of i (bm_store m))\<lparr>br_state := t\<rparr> else record_of j (bm_store m))" for j
    using i by (simp add: set_block_state_def record_of_put_record s)
  have same: "br_tier (record_of j (bm_store (set_block_state i t m))) = br_tier (record_of j (bm_store m))"
    "br_payload (record_of j (bm_store (set_block_state i t m))) = br_payload (record_of j (bm_store m))"
    "in_store j (bm_store (set_block_state i t m)) = in_store j (bm_store m)" for j
    by (simp_all add: rec) (simp add: set_block_state_def)
  have "store_inv (bm_store (set_block_state i t m))"
    using s i by (simp add: set_block_state_def)
  with inv show ?thesis
    by (simp add: tier_inv_def tiers_recorded_def buffers_owned_def same)
qed

lemma tier_removed_has_room:
  assumes bounded: "tiers_bounded tm" and ts: "tier_of t tm = Some ts" "i \<in> ts_ids ts"
  shows "tier_has_capacity (tier_remove i ts)"
proof -
  have b: "finite (ts_ids ts)" "card (ts_ids ts) \<le> unat (ts_capacity ts)"
    using bounded ts(1) by (auto simp: tiers_bounded_def)
  have "card (ts_ids ts - {i}) < card (ts_ids ts)" by (rule card_Diff1_less [OF b(1) ts(2)])
  with b show ?thesis by (simp add: tier_remove_def tier_has_capacity_iff)
qed

section \<open>The victim leaves its tier\<close>

text \<open>A payload can be stored without an exception.\<close>

definition buffer_ready :: "tier_manager \<Rightarrow> bool" where
  "buffer_ready tm \<longleftrightarrow> ps_bytes_per_block (tm_payloads tm) = 0 \<or> ps_free (tm_payloads tm) \<noteq> []"

lemma buffer_ready_remove:
  "payload_remove r (tm_payloads tm) = (Inr (), p) \<Longrightarrow> buffer_ready tm \<Longrightarrow>
   buffer_ready (set_tier_store t ts (tm\<lparr>tm_payloads := p\<rparr>))"
  by (auto simp: buffer_ready_def payload_remove_def Let_def split: if_splits)

text \<open>What the removal of blocks from the tiers keeps.\<close>

definition tiers_no_fuller :: "tier_manager \<Rightarrow> tier_manager \<Rightarrow> bool" where
  "tiers_no_fuller tm tm' \<longleftrightarrow> (buffer_ready tm \<longrightarrow> buffer_ready tm') \<and>
     (\<forall>u. tier_manager_has_capacity u tm \<longrightarrow> tier_manager_has_capacity u tm')"

lemma tiers_no_fuller_refl [simp]: "tiers_no_fuller tm tm"
  by (simp add: tiers_no_fuller_def)

lemma tiers_no_fuller_trans: "tiers_no_fuller tm tm' \<Longrightarrow> tiers_no_fuller tm' tm'' \<Longrightarrow> tiers_no_fuller tm tm''"
  by (simp add: tiers_no_fuller_def)

lemma tier_manager_remove_resident:
  assumes inv: "tier_inv s" and res: "resident i t (fst s)"
  obtains r tm where "tier_manager_remove i s = (Inr r, (tm, snd s))" "tier_inv (tm, snd s)"
    "tier_manager_has_capacity t tm" "\<And>j u. resident j u tm \<longleftrightarrow> resident j u (fst s) \<and> j \<noteq> i"
    "tiers_no_fuller (fst s) tm"
  using inv
proof (cases rule: tier_manager_remove_cases [of s i])
  case absent
  with res show thesis by blast
next
  case (removed u ts p lat)
  let ?tm = "set_tier_store u (tier_remove i ts) ((fst s)\<lparr>tm_payloads := p\<rparr>)"
  have only: "resident i w (fst s) \<longleftrightarrow> w = u" for w
    using resident_unique [OF inv] removed(1,2) by (metis resident_def)
  then have u: "u = t" using only [of t] res by simp
  show thesis
  proof (rule that [OF removed(4)])
    show "tier_inv (?tm, snd s)" by (rule tier_inv_remove [OF inv removed(4)])
    show cap: "tier_manager_has_capacity t ?tm"
      using tier_removed_has_room [OF _ removed(1,2)] inv u
      by (simp add: tier_manager_has_capacity_def tier_inv_def)
    show "resident j w ?tm \<longleftrightarrow> resident j w (fst s) \<and> j \<noteq> i" for j w
      using removed(1) only [of w]
      by (auto simp: resident_set_tier_store tier_remove_def) (auto simp: resident_def)
    show "tiers_no_fuller (fst s) ?tm"
      using cap buffer_ready_remove [OF removed(3)] u
      by (auto simp: tiers_no_fuller_def tier_manager_has_capacity_def)
  qed
qed

text \<open>The same cache without its tiers: all that the manager, the index and the reports see.\<close>

definition untiered :: "cache_core \<Rightarrow> cache_core" where
  "untiered c = c\<lparr>cc_tiers := None\<rparr>"

lemma untiered_simps [simp]:
  "cc_manager (untiered c) = cc_manager c" "cc_index (untiered c) = cc_index c" "cc_tiers (untiered c) = None"
  "cc_events (untiered c) = cc_events c" "cc_decisions (untiered c) = cc_decisions c"
  by (simp_all add: untiered_def)

lemma evict_victim_tiered:
  assumes inv: "manager_inv (cc_manager c)" "unready_unpinned (cc_manager c)" "index_wf (cc_index c)"
    and tiers: "cc_tiers c = Some (Shared_store tm)" "tier_inv (tm, bm_store (cc_manager c))"
    and v: "has_block v (cc_manager c)" "evictable (block_of v (cc_manager c))" "resident v t tm"
  obtains d tm' where "evict_victim pol cands now v c = (Inr (), d)"
    "evict_victim pol cands now v (untiered c) = (Inr (), untiered d)"
    "manager_inv (cc_manager d)" "index_wf (cc_index d)"
    "bp_free (bm_pool (cc_manager d)) = bp_free (bm_pool (cc_manager c)) @ [v]"
    "block_at (cc_index d) = drop_block v (block_at (cc_index c))"
    "cc_tiers d = Some (Shared_store tm')" "tier_inv (tm', bm_store (cc_manager d))"
    "\<And>j u. resident j u tm' \<longleftrightarrow> resident j u tm \<and> j \<noteq> v" "tier_manager_has_capacity t tm'"
    "tiers_no_fuller tm tm'"
proof -
  let ?m = "cc_manager c" and ?m1 = "set_block_state v Evicting (cc_manager c)"
  from inv(1,2) v(1,2) obtain p where t: "manager_transition v Ready Evicting ?m = (Inr (), ?m1)"
    "manager_transition v Evicting Free ?m1 = (Inr (), (set_block_state v Free ?m)\<lparr>bm_pool := p\<rparr>)"
    "manager_inv ((set_block_state v Free ?m)\<lparr>bm_pool := p\<rparr>)"
    "unready_unpinned ((set_block_state v Free ?m)\<lparr>bm_pool := p\<rparr>)"
    "bp_free p = bp_free (bm_pool ?m) @ [v]" by (rule removed_manager)
  obtain y where y: "index_remove v (cc_index c) = Some y" "index_wf y"
    "block_at y = drop_block v (block_at (cc_index c))"
    using index_remove_refines [OF inv(3), of v] by blast
  obtain r tm' where r: "tier_manager_remove v (tm, bm_store ?m1) = (Inr r, (tm', bm_store ?m1))"
    "tier_inv (tm', bm_store ?m1)" "tier_manager_has_capacity t tm'"
    "\<And>j u. resident j u tm' \<longleftrightarrow> resident j u tm \<and> j \<noteq> v" "tiers_no_fuller tm tm'"
    using tier_manager_remove_resident [OF tier_inv_set_block_state [OF tiers(2) v(1)], of v t Evicting] v(3)
    by auto
  have m1: "set_block_state v Free ?m1 = set_block_state v Free ?m"
    using v(1) by (simp add: set_block_state_def put_block_def record_of_put_record manager_invD(2) [OF inv(1)])
  have tier: "tier_inv (tm', bm_store (set_block_state v Free ?m))"
    using tier_inv_set_block_state [OF r(2), of v Free] v(1) unfolding m1 by (simp add: set_block_state_def)
  define d where "d = emit_decision (Eviction_decision \<lparr>ed_chosen_block = v, ed_policy_name = ep_name pol,
      ed_candidates = cands, ed_timestamp_ns = now\<rparr>) (emit_event (Block_evicted v (ep_name pol) now)
    (c\<lparr>cc_index := y, cc_tiers := Some (Shared_store tm'), cc_manager := (set_block_state v Free ?m)\<lparr>bm_pool := p\<rparr>\<rparr>))"
  have "evict_victim pol cands now v c = (Inr (), d)"
    "evict_victim pol cands now v (untiered c) = (Inr (), untiered d)"
    using tiers(1) y(1) r(1) t(1,2)
    by (simp_all add: evict_victim_def on_manager_def on_index_def on_member_def on_tiers_def untiered_def
        engine_remove_block_def manager_free_block_def d_def return_with_def emit_event_def emit_decision_def)
  moreover have "manager_inv (cc_manager d)" "index_wf (cc_index d)"
    "bp_free (bm_pool (cc_manager d)) = bp_free (bm_pool ?m) @ [v]"
    "block_at (cc_index d) = drop_block v (block_at (cc_index c))"
    "cc_tiers d = Some (Shared_store tm')" "tier_inv (tm', bm_store (cc_manager d))"
    using t(3,5) y(2,3) tier by (simp_all add: d_def emit_event_def emit_decision_def)
  ultimately show thesis using r(3-5) that by blast
qed

text \<open>evicting a block of a tiered cache. On a consistent cache whose tier manager shares the block
  manager's store, evicting an unpinned ready block that is placed in a tier never throws: the slot is
  free again, no path of the prefix index leads to the block any more, exactly this block leaves its
  tier, the tiers stay consistent with the records of all blocks, and the tier has room for the block
  the eviction was made for.\<close>

theorem eviction_frees_tier:
  assumes inv: "manager_inv (cc_manager c)" "unready_unpinned (cc_manager c)" "index_wf (cc_index c)"
    and tiers: "cc_tiers c = Some (Shared_store tm)" "tier_inv (tm, bm_store (cc_manager c))"
    and v: "has_block v (cc_manager c)" "evictable (block_of v (cc_manager c))" "resident v t tm"
  shows "\<exists>d tm'. evict_victim pol cands now v c = (Inr (), d) \<and>
    manager_inv (cc_manager d) \<and> index_wf (cc_index d) \<and>
    bp_free (bm_pool (cc_manager d)) = bp_free (bm_pool (cc_manager c)) @ [v] \<and>
    block_at (cc_index d) = drop_block v (block_at (cc_index c)) \<and>
    cc_tiers d = Some (Shared_store tm') \<and> tier_inv (tm', bm_store (cc_manager d)) \<and>
    (\<forall>j u. resident j u tm' \<longleftrightarrow> resident j u tm \<and> j \<noteq> v) \<and> tier_manager_has_capacity t tm'"
  by (rule evict_victim_tiered [OF assms]) blast

text \<open>A ready block in a tier of one slot, with payloads switched off.\<close>

definition demo_tiers :: tier_manager where
  "demo_tiers = set_tier_store GpuSim \<lparr>ts_capacity = 1, ts_ids = {0}\<rparr>
     (make_tiers 1 1 1 0 (constant_latency 1 2 3 4))"

definition tiered_demo_core :: cache_core where
  "tiered_demo_core = demo_core\<lparr>cc_tiers := Some (Shared_store demo_tiers)\<rparr>"

lemma demo_tiers_inv: "tier_inv (demo_tiers, bm_store (cc_manager demo_core))"
proof -
  have "tier_of u demo_tiers = Some ts \<Longrightarrow> ts_ids ts = (if u = GpuSim then {0} else {})" for u ts
    using tier_of_make_tiers by (auto simp: demo_tiers_def split: if_splits)
  then have res: "resident i u demo_tiers \<Longrightarrow> i = 0 \<and> u = GpuSim" for i u
    by (auto simp: resident_def split: if_splits)
  have empty: "tier_inv (make_tiers 1 1 1 0 (constant_latency 1 2 3 4), make_store 2)" by (rule tier_inv_make_tiers)
  then have "tiers_bounded demo_tiers"
    unfolding demo_tiers_def by (intro tiers_bounded_set) (simp_all add: tier_inv_def)
  moreover have "in_store 0 (bm_store (cc_manager demo_core))" by code_simp
  moreover have "br_tier (record_of 0 (bm_store (cc_manager demo_core))) = GpuSim" by code_simp
  moreover have "ps_bytes_per_block (tm_payloads demo_tiers) = 0" "payload_inv (tm_payloads demo_tiers)"
    using empty by (simp_all add: demo_tiers_def tier_inv_def) (simp add: make_tiers_def make_payload_store_def)
  ultimately show ?thesis
    using manager_invD(2) [OF cache_invD(1) [OF demo_core(1)]] res
    by (auto simp: tier_inv_def tiers_recorded_def buffers_owned_def)
qed

theorem eviction_frees_tier_witness:
  "\<exists>d tm. evict_victim lru_eviction [0] 9 0 tiered_demo_core = (Inr (), d) \<and>
     cc_tiers d = Some (Shared_store tm) \<and> tier_manager_has_capacity GpuSim tm \<and> \<not> resident 0 GpuSim tm"
proof -
  have tm: "cc_tiers tiered_demo_core = Some (Shared_store demo_tiers)" "resident 0 GpuSim demo_tiers"
    by (simp_all add: tiered_demo_core_def demo_tiers_def resident_set_tier_store)
  have m: "cc_manager tiered_demo_core = cc_manager demo_core" "cc_index tiered_demo_core = cc_index demo_core"
    by (simp_all add: tiered_demo_core_def)
  have "has_block 0 (cc_manager tiered_demo_core)" "evictable (block_of 0 (cc_manager tiered_demo_core))"
    using demo_core(2) by (auto simp: takeable_def m)
  from eviction_frees_tier [OF _ _ _ tm(1) _ this tm(2), of lru_eviction "[0]" 9] show ?thesis
    using cache_invD(1-3) [OF demo_core(1)] demo_tiers_inv by (auto simp: m)
qed

end
