(* ===== verification/Tiered_Cache.thy ===== *)
theory Tiered_Cache
  imports Tier_Eviction Admission
begin

text \<open>
  A cache whose tier manager works on the store of its block manager. Forgetting the tiers
  (\<open>untiered\<close>) is a refinement map: what the tiered operations do to manager, index and reports is
  what the same operations do on the cache without tiers, so the theorems on those carry over, and
  the tiers stay consistent with the records.
\<close>

section \<open>Consistency\<close>

text \<open>The cache is consistent without its tiers, the tiers agree with the records, every ready block is
  placed in the tier its record names, and no freed slot is in a tier.\<close>

definition tiered_inv :: "tier_manager \<Rightarrow> cache_core \<Rightarrow> bool" where
  "tiered_inv tm c \<longleftrightarrow> cache_inv (untiered c) \<and> cc_tiers c = Some (Shared_store tm) \<and>
     tier_inv (tm, bm_store (cc_manager c)) \<and>
     (\<forall>i. has_block i (cc_manager c) \<and> br_state (block_of i (cc_manager c)) = Ready \<longrightarrow>
        resident i (br_tier (block_of i (cc_manager c))) tm) \<and>
     (\<forall>i t. resident i t tm \<longrightarrow> br_state (block_of i (cc_manager c)) \<noteq> Free)"

lemma tiered_invD:
  assumes "tiered_inv tm c"
  shows "cache_inv (untiered c)" "cc_tiers c = Some (Shared_store tm)" "tier_inv (tm, bm_store (cc_manager c))"
    "has_block i (cc_manager c) \<Longrightarrow> br_state (block_of i (cc_manager c)) = Ready \<Longrightarrow>
       resident i (br_tier (block_of i (cc_manager c))) tm"
    "resident i t tm \<Longrightarrow> br_state (block_of i (cc_manager c)) \<noteq> Free"
    "resident i t tm \<Longrightarrow> has_block i (cc_manager c)"
    "resident i t tm \<Longrightarrow> br_tier (block_of i (cc_manager c)) = t"
  using assms by (auto simp: tiered_inv_def tier_inv_def tiers_recorded_def)

lemma tiered_invD_core:
  assumes "tiered_inv tm c"
  shows "manager_inv (cc_manager c)" "unready_unpinned (cc_manager c)" "index_wf (cc_index c)"
  using cache_invD(1-3) [OF tiered_invD(1) [OF assms]] by simp_all

lemma tiered_inv_make_core:
  assumes "bs \<noteq> 0"
  shows "tiered_inv (make_tiers gpu host buffers bytes lat)
    (make_core capacity bs (Some (Shared_store (make_tiers gpu host buffers bytes lat))) events decisions)"
proof -
  let ?c = "\<lambda>l. make_core capacity bs l events decisions"
  have "untiered (?c (Some (Shared_store (make_tiers gpu host buffers bytes lat)))) = ?c None"
    by (simp add: untiered_def make_core_def)
  moreover have "br_state (block_of i (make_manager capacity)) \<noteq> Ready" if "has_block i (make_manager capacity)" for i
    using that by (simp add: make_manager_def make_store_def record_of_def in_store_def fresh_record_def)
  moreover have "\<not> resident i t (make_tiers gpu host buffers bytes lat)" for i t
    by (auto simp: resident_def dest: tier_of_make_tiers)
  ultimately show ?thesis
    using cache_inv_make_core [OF assms] tier_inv_make_tiers [of gpu host buffers bytes lat capacity]
    by (simp add: tiered_inv_def make_core_def make_manager_def untiered_def)
qed

section \<open>Eviction\<close>

lemma tiered_evict_victim:
  assumes inv: "tiered_inv tm c" and v: "v \<in> takeable t (cc_manager c)"
  obtains d tm' where "evict_victim pol cands now v c = (Inr (), d)"
    "evict_victim pol cands now v (untiered c) = (Inr (), untiered d)" "tiered_inv tm' d"
    "tier_manager_has_capacity t tm'" "tiers_no_fuller tm tm'"
proof -
  note ci = tiered_invD_core [OF inv] and ti = tiered_invD [OF inv]
  have blk: "has_block v (cc_manager c)" "evictable (block_of v (cc_manager c))" "resident v t tm"
    using v ti(4) by (auto simp: takeable_def evictable_def)
  show thesis
  proof (rule evict_victim_tiered [OF ci ti(2,3) blk, of pol cands now])
    fix d tm' assume run: "evict_victim pol cands now v c = (Inr (), d)"
      "evict_victim pol cands now v (untiered c) = (Inr (), untiered d)"
      and d: "cc_tiers d = Some (Shared_store tm')" "tier_inv (tm', bm_store (cc_manager d))"
      and res: "\<And>j u. resident j u tm' \<longleftrightarrow> resident j u tm \<and> j \<noteq> v"
      and cap: "tier_manager_has_capacity t tm'" "tiers_no_fuller tm tm'"
    have "evicted [v] (untiered c) (untiered d)"
      using evict_victim_ok [OF ti(1), of v pol cands now] blk(1,2) run(2) by auto
    note e = evictedD [OF this, simplified]
    have "tiered_inv tm' d"
      unfolding tiered_inv_def using e(1,5,6) d ti(4-6) res by (auto split: if_splits)
    with that run cap show thesis by blast
  qed
qed

lemma tiered_evict_one:
  assumes inv: "tiered_inv tm c" and pol: "candidate_eviction (ep_choose_victim pol)"
  shows "\<exists>b d tm'. evict_one pol t now c = (Inr b, d) \<and>
    evict_one pol t now (untiered c) = (Inr b, untiered d) \<and> tiered_inv tm' d \<and> tiers_no_fuller tm tm' \<and>
    (b \<longrightarrow> tier_manager_has_capacity t tm')"
proof -
  consider (none) "pick_victim pol t now (cc_manager c) (cc_index c) = Inr None"
    | (some) cands v where "pick_victim pol t now (cc_manager c) (cc_index c) = Inr (Some (cands, v))"
      "v \<in> takeable t (cc_manager c)"
    using pick_victim_ok [OF tiered_invD_core(1,3) [OF inv] pol, of t now] by blast
  then show ?thesis
  proof cases
    case none
    then show ?thesis using inv
      by (intro exI [of _ False] exI [of _ c] exI [of _ tm]) (simp add: evict_one_eq return_with_def)
  next
    case some
    from tiered_evict_victim [OF inv some(2), of pol cands now] obtain d tm' where
      "evict_victim pol cands now v c = (Inr (), d)"
      "evict_victim pol cands now v (untiered c) = (Inr (), untiered d)" "tiered_inv tm' d"
      "tier_manager_has_capacity t tm'" "tiers_no_fuller tm tm'" .
    with some(1) show ?thesis
      by (intro exI [of _ True] exI [of _ d] exI [of _ tm']) (simp add: evict_one_eq return_with_def)
  qed
qed

lemma tiered_make_space_loop:
  assumes "tiered_inv tm c" and pol: "candidate_eviction (ep_choose_victim pol)"
  shows "\<exists>r d tm'. make_space_loop pol t now left n c = (Inr r, d) \<and>
    make_space_loop pol t now left n (untiered c) = (Inr r, untiered d) \<and> tiered_inv tm' d \<and>
    tiers_no_fuller tm tm' \<and> (es_status r = Space_made \<and> left \<noteq> 0 \<longrightarrow> tier_manager_has_capacity t tm')"
  using assms(1)
proof (induction left arbitrary: n c tm)
  case 0
  then show ?case
    by (intro exI [of _ "\<lparr>es_status = Space_made, es_evicted_count = n\<rparr>"] exI [of _ c] exI [of _ tm])
      (simp add: return_with_def)
next
  case (Suc left)
  from tiered_evict_one [OF Suc.prems pol, of t now] obtain b d tm' where one:
    "evict_one pol t now c = (Inr b, d)" "evict_one pol t now (untiered c) = (Inr b, untiered d)"
    "tiered_inv tm' d" "tiers_no_fuller tm tm'" "b \<longrightarrow> tier_manager_has_capacity t tm'" by blast
  show ?case
  proof (cases b)
    case False
    with one show ?thesis
      by (intro exI [of _ "\<lparr>es_status = Insufficient_candidates, es_evicted_count = n\<rparr>"] exI [of _ d] exI [of _ tm'])
        (simp add: return_with_def)
  next
    case True
    from Suc.IH [OF one(3), of "n + 1"] obtain r e tm'' where
      "make_space_loop pol t now left (n + 1) d = (Inr r, e)"
      "make_space_loop pol t now left (n + 1) (untiered d) = (Inr r, untiered e)" "tiered_inv tm'' e"
      "tiers_no_fuller tm' tm''" by blast
    moreover from this True one have "tier_manager_has_capacity t tm''" by (simp add: tiers_no_fuller_def)
    ultimately show ?thesis
      using True one tiers_no_fuller_trans [OF one(4)] by (intro exI [of _ r] exI [of _ e] exI [of _ tm'']) simp
  qed
qed

text \<open>C10: making space on a tiered cache refines making space on the cache without tiers. With any policy
  that picks one of the candidates it is shown, \<open>makeSpace\<close> never throws, gives the same result, and
  does to the manager, the index, the events and the decisions exactly what it does on the same cache
  without a tier manager. The tiers stay consistent with the records, a tier that had room still has,
  and after a successful request for at least one block the asked tier has room.\<close>

theorem tiered_make_space_refines:
  assumes "tiered_inv tm c" "candidate_eviction (ep_choose_victim pol)"
  shows "\<exists>r d tm'. make_space pol req c = (Inr r, d) \<and>
    make_space pol req (untiered c) = (Inr r, untiered d) \<and> tiered_inv tm' d \<and> tiers_no_fuller tm tm' \<and>
    (es_status r = Space_made \<and> ms_blocks_needed req \<noteq> 0 \<longrightarrow> tier_manager_has_capacity (ms_tier req) tm')"
  using tiered_make_space_loop [OF assms, of "ms_tier req" "ms_timestamp_ns req" "unat (ms_blocks_needed req)" 0]
  by (simp add: make_space_def unat_eq_0)

lemma tiered_demo_core_inv: "tiered_inv demo_tiers tiered_demo_core"
proof -
  have c: "untiered tiered_demo_core = demo_core" "cc_manager tiered_demo_core = cc_manager demo_core"
    by (simp_all add: untiered_def tiered_demo_core_def demo_core_def make_core_def)
  let ?m = "cc_manager demo_core"
  have "0 \<in> takeable GpuSim ?m" by (simp add: demo_core(2))
  then have zero: "has_block 0 ?m" "br_state (block_of 0 ?m) \<noteq> Free" "br_tier (block_of 0 ?m) = GpuSim"
    by (auto simp: takeable_def evictable_def)
  have states: "map br_state (bs_records (bm_store ?m)) = [Ready, Free]" by code_simp
  have cap: "bs_capacity (bm_store ?m) = 2" by code_simp
  have only: "i = 0" if i: "has_block i ?m" "br_state (block_of i ?m) = Ready" for i
  proof (rule ccontr)
    assume "i \<noteq> 0"
    then have "unat i \<noteq> 0" by (simp add: unat_eq_0)
    then have "store_slot i = 1" using i(1) by (simp add: in_store_def cap store_slot_def)
    moreover have "br_state (bs_records (bm_store ?m) ! 1) = map br_state (bs_records (bm_store ?m)) ! 1"
      using arg_cong [OF states, of length] by (simp only: length_map nth_map) simp
    ultimately show False using i(2) by (simp add: record_of_def states)
  qed
  have res: "resident i t demo_tiers \<longleftrightarrow> i = 0 \<and> t = GpuSim" for i t
    by (auto simp: demo_tiers_def resident_set_tier_store) (auto simp: resident_def dest: tier_of_make_tiers)
  show ?thesis
    unfolding tiered_inv_def
    using demo_core(1) demo_tiers_inv zero res only by (auto simp: c) (simp add: tiered_demo_core_def)
qed

theorem tiered_make_space_refines_witness:
  "\<exists>r d. make_space lru_eviction (demo_request 1) tiered_demo_core = (Inr r, d) \<and>
    make_space lru_eviction (demo_request 1) demo_core = (Inr r, untiered d)"
proof -
  have "candidate_eviction (ep_choose_victim lru_eviction)"
    by (simp add: lru_eviction_def lru.candidate_eviction_axioms)
  moreover have "untiered tiered_demo_core = demo_core"
    by (simp add: untiered_def tiered_demo_core_def demo_core_def make_core_def)
  ultimately show ?thesis
    using tiered_make_space_refines [OF tiered_demo_core_inv, of lru_eviction "demo_request 1"] by auto
qed

section \<open>A new block in its tier\<close>

lemma tier_inv_cong:
  assumes inv: "tier_inv (tm, st)" and st': "store_inv st'"
    and same: "\<And>j u. resident j u tm \<Longrightarrow> in_store j st' \<and> br_tier (record_of j st') = br_tier (record_of j st) \<and>
      br_payload (record_of j st') = br_payload (record_of j st)"
  shows "tier_inv (tm, st')"
proof -
  have "tiers_recorded (tm, st')"
    using inv same unfolding tier_inv_def tiers_recorded_def by (metis fst_conv snd_conv)
  moreover have "buffers_owned (tm, st')"
    using inv same unfolding tier_inv_def buffers_owned_def by (metis fst_conv snd_conv)
  ultimately show ?thesis using inv st' by (simp add: tier_inv_def)
qed

lemma tiered_invI:
  assumes "cache_inv (untiered d)" "cc_tiers d = Some (Shared_store tm)"
    and tier: "tier_inv (tm, st)"
    and same: "\<And>j u. resident j u tm \<Longrightarrow> has_block j (cc_manager d) \<and>
      br_tier (block_of j (cc_manager d)) = br_tier (record_of j st) \<and>
      br_payload (block_of j (cc_manager d)) = br_payload (record_of j st) \<and> br_state (block_of j (cc_manager d)) \<noteq> Free"
    and ready: "\<And>j. has_block j (cc_manager d) \<Longrightarrow> br_state (block_of j (cc_manager d)) = Ready \<Longrightarrow>
      resident j (br_tier (block_of j (cc_manager d))) tm"
  shows "tiered_inv tm d"
proof -
  have "store_inv (bm_store (cc_manager d))" using cache_invD(1) [OF assms(1)] by (simp add: manager_invD)
  then have "tier_inv (tm, bm_store (cc_manager d))" by (rule tier_inv_cong [OF tier]) (use same in blast)
  with assms(1,2) same ready show ?thesis unfolding tiered_inv_def by blast
qed

lemma cache_inv_put_placement:
  assumes inv: "cache_inv c" and i: "has_block i (cc_manager c)"
  shows "cache_inv (c\<lparr>cc_manager := put_block i ((block_of i (cc_manager c))\<lparr>br_tier := t, br_payload := p\<rparr>) (cc_manager c)\<rparr>)"
proof -
  let ?r = "(block_of i (cc_manager c))\<lparr>br_tier := t, br_payload := p\<rparr>"
  let ?m = "put_block i ?r (cc_manager c)"
  note ci = cache_invD [OF inv]
  have "slot_agrees (bm_pool (cc_manager c)) i ?r"
    using manager_invD(4) [OF ci(1) i] by (simp add: slot_agrees_def)
  then have "manager_inv ?m" by (rule manager_inv_put_block [OF ci(1) i])
  moreover have blk: "block_of j ?m = (if j = i then ?r else block_of j (cc_manager c))" for j
    using record_of_put_record [OF manager_invD(2) [OF ci(1)] i] by simp
  moreover have "unready_unpinned ?m" using ci(2) blk by (auto simp: unready_unpinned_def)
  ultimately show ?thesis using ci by (auto simp: cache_inv_def split: if_splits)
qed

text \<open>Behind a successful placement, \<open>admit\<close> does what it does without tiers.\<close>

lemma admit_new_block_tiers:
  assumes "cc_tiers c = Some link" "on_tiers link (tier_manager_place i t (bc_payload cand)) c = (Inr r, c2)"
    "to_status r \<noteq> Capacity_exceeded"
    and run: "admit_new_block now cfg ctx cand stamp t existing i (untiered c2) = (v, d)"
  shows "admit_new_block now cfg ctx cand stamp t existing i c = (v, d\<lparr>cc_tiers := cc_tiers c2\<rparr>)"
  using assms
  by (auto simp: admit_new_block_def on_index_def on_manager_def on_member_def return_with_def throw_def
      emit_event_def Let_def untiered_def and_then_def split: sum.splits prod.splits)

text \<open>The bytes a block was stored with: the front of its buffer.\<close>

definition stored_as :: "u8 list \<Rightarrow> block_record \<Rightarrow> tier_manager \<Rightarrow> bool" where
  "stored_as bytes rec tm \<longleftrightarrow> (\<exists>buf. tier_manager_payload (br_payload rec) tm = Inr buf \<and>
     length buf = unat (ps_bytes_per_block (tm_payloads tm)) \<and>
     take (length bytes) buf = take (unat (ps_bytes_per_block (tm_payloads tm))) bytes)"

lemma payload_put_ready:
  assumes "payload_inv p" "ps_bytes_per_block p = 0 \<or> ps_free p \<noteq> []"
  obtains ref q where "payload_put bytes p = (Inr ref, q)" "ps_bytes_per_block q = ps_bytes_per_block p"
    "\<exists>buf. payload_get ref q = Inr buf \<and> length buf = unat (ps_bytes_per_block p) \<and>
       take (length bytes) buf = take (unat (ps_bytes_per_block p)) bytes"
proof (cases "ps_bytes_per_block p = 0")
  case True
  then show thesis by (intro that [of payload_invalid p]) (simp_all add: payload_put_def return_with_def payload_get_def)
next
  case False
  with assms(2) obtain ref q where run: "payload_put bytes p = (Inr ref, q)"
    by (auto simp: payload_put_def Let_def return_with_def)
  show thesis
    by (rule that [OF run payload_put_okD(5) [OF assms(1) run False]])
      (simp add: payload_get_stored [OF assms(1) run False] min_def)
qed

lemma tiered_place:
  assumes inv: "tiered_inv tm c" and i: "has_block i (cc_manager c)" "br_state (block_of i (cc_manager c)) = Admitting"
    and new: "\<And>u. \<not> resident i u tm"
    and cap: "tier_manager_has_capacity t tm" and ready: "buffer_ready tm"
  obtains r c2 tm' p where "on_tiers (Shared_store tm) (tier_manager_place i t bytes) c = (Inr r, c2)"
    "to_status r = Success" "tiered_inv tm' c2" "\<forall>j u. resident j u tm' \<longleftrightarrow> resident j u tm \<or> j = i \<and> u = t"
    "untiered c2 = (untiered c)\<lparr>cc_manager :=
       put_block i ((block_of i (cc_manager c))\<lparr>br_tier := t, br_payload := p\<rparr>) (cc_manager c)\<rparr>"
    "stored_as bytes (block_of i (cc_manager c2)) tm'"
proof -
  let ?m = "cc_manager c" and ?s = "(tm, bm_store (cc_manager c))"
  note ci = tiered_invD_core [OF inv] and ti = tiered_invD [OF inv]
  have st: "store_inv (bm_store ?m)" by (rule manager_invD(2) [OF ci(1)])
  have pinv: "payload_inv (tm_payloads tm)" using ti(3) by (simp add: tier_inv_def)
  obtain ref q where put: "payload_put bytes (tm_payloads tm) = (Inr ref, q)"
    "ps_bytes_per_block q = ps_bytes_per_block (tm_payloads tm)"
    "\<exists>buf. payload_get ref q = Inr buf \<and> length buf = unat (ps_bytes_per_block (tm_payloads tm)) \<and>
       take (length bytes) buf = take (unat (ps_bytes_per_block (tm_payloads tm))) bytes"
    using payload_put_ready [OF pinv, of bytes] ready by (auto simp: buffer_ready_def)
  from cap obtain ts where ts: "tier_of t tm = Some ts" "tier_has_capacity ts"
    by (auto simp: tier_manager_has_capacity_def split: option.splits)
  let ?tm = "set_tier_store t (ts\<lparr>ts_ids := insert i (ts_ids ts)\<rparr>) (tm\<lparr>tm_payloads := q\<rparr>)"
  let ?r = "(block_of i ?m)\<lparr>br_tier := t, br_payload := ref\<rparr>"
  obtain lat where place: "tier_manager_place i t bytes ?s =
      (Inr \<lparr>to_status = Success, to_latency_ns = lat\<rparr>, (?tm, put_record i ?r (bm_store ?m)))"
    using tier_manager_place_cases [of i ?s t bytes] i(1) st ts put(1) by auto
  let ?c2 = "c\<lparr>cc_tiers := Some (Shared_store ?tm), cc_manager := put_block i ?r ?m\<rparr>"
  have run: "on_tiers (Shared_store tm) (tier_manager_place i t bytes) c =
      (Inr \<lparr>to_status = Success, to_latency_ns = lat\<rparr>, ?c2)"
    by (simp add: on_tiers_def place put_block_def)
  have res: "resident j u ?tm \<longleftrightarrow> resident j u tm \<or> j = i \<and> u = t" for j u
    using ts(1) by (auto simp: resident_set_tier_store) (auto simp: resident_def)
  have blk: "block_of j (put_block i ?r ?m) = (if j = i then ?r else block_of j ?m)" for j
    using record_of_put_record [OF st i(1)] by simp
  have unt: "untiered ?c2 = (untiered c)\<lparr>cc_manager := put_block i ?r ?m\<rparr>" by (simp add: untiered_def)
  have "tiered_inv ?tm ?c2"
  proof (rule tiered_invI [where st = "put_record i ?r (bm_store ?m)"])
    show "cache_inv (untiered ?c2)"
      unfolding unt using cache_inv_put_placement [OF ti(1), where i = i and t = t and p = ref] i(1) by simp
    show "tier_inv (?tm, put_record i ?r (bm_store ?m))"
      by (rule tier_inv_place [OF ti(3) _ _ place]) (use i(1) new in simp_all)
    fix j
    assume "has_block j (cc_manager ?c2)" "br_state (block_of j (cc_manager ?c2)) = Ready"
    then have "has_block j ?m" "br_state (block_of j ?m) = Ready" "j \<noteq> i" using i blk by (auto split: if_splits)
    then show "resident j (br_tier (block_of j (cc_manager ?c2))) ?tm" using ti(4) res blk by simp
  next
    fix j u assume "resident j u ?tm"
    then have "has_block j ?m" "br_state (block_of j ?m) \<noteq> Free" using res ti(5,6) i by auto
    then show "has_block j (cc_manager ?c2) \<and>
        br_tier (block_of j (cc_manager ?c2)) = br_tier (record_of j (put_record i ?r (bm_store ?m))) \<and>
        br_payload (block_of j (cc_manager ?c2)) = br_payload (record_of j (put_record i ?r (bm_store ?m))) \<and>
        br_state (block_of j (cc_manager ?c2)) \<noteq> Free"
      using blk i(2) by simp
  qed simp
  moreover have "stored_as bytes (block_of i (cc_manager ?c2)) ?tm"
    using put(2,3) blk by (simp add: stored_as_def tier_manager_payload_def)
  ultimately show thesis using that [OF run _ _ _ unt] res by simp
qed

section \<open>Admission\<close>

lemma untiered_manager: "untiered (c\<lparr>cc_manager := m\<rparr>) = (untiered c)\<lparr>cc_manager := m\<rparr>"
  by (cases c) (simp add: untiered_def)

text \<open>A block that was just created is in no tier.\<close>

lemma tiered_created:
  assumes inv: "tiered_inv tm c" and inv': "cache_inv ((untiered c)\<lparr>cc_manager := m\<rparr>)"
    and i: "br_state (block_of i (cc_manager c)) = Free" "br_state (block_of i m) = Admitting"
    and frame: "\<forall>j. has_block j m = has_block j (cc_manager c)" "\<forall>j. j \<noteq> i \<longrightarrow> block_of j m = block_of j (cc_manager c)"
  shows "tiered_inv tm (c\<lparr>cc_manager := m\<rparr>)" "\<not> resident i u tm"
proof -
  note ti = tiered_invD [OF inv]
  show new: "\<not> resident i u tm" for u using ti(5) i(1) by blast
  have j: "j \<noteq> i" if "resident j u tm" for j u using that new by blast
  show "tiered_inv tm (c\<lparr>cc_manager := m\<rparr>)"
  proof (rule tiered_invI [OF _ _ ti(3)])
    show "cache_inv (untiered (c\<lparr>cc_manager := m\<rparr>))" using inv' by (simp add: untiered_manager)
    fix j assume "has_block j (cc_manager (c\<lparr>cc_manager := m\<rparr>))"
      "br_state (block_of j (cc_manager (c\<lparr>cc_manager := m\<rparr>))) = Ready"
    then show "resident j (br_tier (block_of j (cc_manager (c\<lparr>cc_manager := m\<rparr>)))) tm"
      using frame i(2) ti(4) by (cases "j = i") auto
  qed (use ti j frame in auto)
qed

lemma tiered_admit_new:
  assumes inv: "tiered_inv tm c" and free: "bp_free (bm_pool (cc_manager c)) \<noteq> []"
    and cap: "tier_manager_has_capacity t tm" and ready: "buffer_ready tm"
    and bs: "ag_block_size cfg = px_block_size (cc_index c)"
    and size: "length (bc_tokens cand) = Suc idx * index_bs (cc_index c)"
    and anc: "\<forall>k < idx. block_at (cc_index c) ctx (take (Suc k * index_bs (cc_index c)) (bc_tokens cand)) =
      Some (existing ! k)"
    and len: "length existing = idx" and dist: "distinct existing"
    and new: "block_at (cc_index c) ctx (bc_tokens cand) = None"
    and room: "node_count (cc_index c) + 2 * Suc idx < invalid_node"
  shows "\<exists>i g m d tm'. manager_create_block (bc_hash cand) (bc_block_index cand) (ucast (ag_block_size cfg)) t
        (cc_manager c) = (Inr (Some (i, g)), m) \<and>
    admit_new_block now cfg ctx cand stamp t existing i (c\<lparr>cc_manager := m\<rparr>) =
      (Inr \<lparr>as_status = Admitted, as_handle = Some (Some (store_slot i))\<rparr>, d) \<and>
    cached_as i ctx cand (block_at (cc_index c)) (untiered d) \<and> index_bs (cc_index d) = index_bs (cc_index c) \<and>
    tiered_inv tm' d \<and> admitted_frame cfg stamp t i [] ctx cand c d \<and>
    (\<forall>j u. resident j u tm' \<longleftrightarrow> resident j u tm \<or> j = i \<and> u = t) \<and>
    stored_as (bc_payload cand) (block_of i (cc_manager d)) tm'"
proof -
  note ti = tiered_invD [OF inv]
  obtain i g m where m: "manager_create_block (bc_hash cand) (bc_block_index cand) (ucast (ag_block_size cfg)) t
      (cc_manager c) = (Inr (Some (i, g)), m)" "cache_inv ((untiered c)\<lparr>cc_manager := m\<rparr>)" "has_block i m"
    "block_of i m = new_record i g (bc_hash cand) (bc_block_index cand) (ucast (ag_block_size cfg)) t"
    "\<forall>ctx p. block_at (cc_index c) ctx p \<noteq> Some i" "br_state (block_of i (cc_manager c)) = Free"
    "bp_free (bm_pool m) = butlast (bp_free (bm_pool (cc_manager c)))"
    "\<forall>j. has_block j m = has_block j (cc_manager c)" "\<forall>j. j \<noteq> i \<longrightarrow> block_of j m = block_of j (cc_manager c)"
    using create_block_ok [OF ti(1), of "bc_hash cand" "bc_block_index cand" "ucast (ag_block_size cfg)" t] free by auto
  let ?c = "c\<lparr>cc_manager := m\<rparr>"
  have rec: "br_state (block_of i m) = Admitting" "br_refcount (block_of i m) = 0"
    "br_token_count (block_of i m) = ucast (px_block_size (cc_index c))"
    using bs by (simp_all add: m(4) new_record_def)
  note created = tiered_created [OF inv m(2,6) rec(1) m(8,9)]
  have "has_block i (cc_manager ?c)" "br_state (block_of i (cc_manager ?c)) = Admitting" using m(3) rec(1) by simp_all
  from tiered_place [OF created(1) this created(2) cap ready, where bytes = "bc_payload cand"]
  obtain r c2 tm' p where place: "on_tiers (Shared_store tm) (tier_manager_place i t (bc_payload cand)) ?c = (Inr r, c2)"
    "to_status r = Success" "tiered_inv tm' c2" "\<forall>j u. resident j u tm' \<longleftrightarrow> resident j u tm \<or> j = i \<and> u = t"
    "untiered c2 = (untiered ?c)\<lparr>cc_manager :=
       put_block i ((block_of i (cc_manager ?c))\<lparr>br_tier := t, br_payload := p\<rparr>) (cc_manager ?c)\<rparr>"
    "stored_as (bc_payload cand) (block_of i (cc_manager c2)) tm'" by blast
  let ?m2 = "put_block i ((block_of i m)\<lparr>br_tier := t, br_payload := p\<rparr>) m"
  have c2: "cc_manager c2 = ?m2" "cc_index c2 = cc_index c" "cc_events c2 = cc_events c"
    using arg_cong [OF place(5), of cc_manager] arg_cong [OF place(5), of cc_index]
      arg_cong [OF place(5), of cc_events] by simp_all
  have "store_inv (bm_store m)" using cache_invD(1) [OF m(2)] by (simp add: manager_invD)
  then have blk: "block_of j ?m2 = (if j = i then (block_of i m)\<lparr>br_tier := t, br_payload := p\<rparr> else block_of j m)" for j
    using m(3) by (simp add: record_of_put_record)
  obtain d where d: "admit_new_block now cfg ctx cand stamp t existing i (untiered c2) =
      (Inr \<lparr>as_status = Admitted, as_handle = Some (Some (store_slot i))\<rparr>, d)" "cache_inv d"
    "block_at (cc_index d) = (block_at (cc_index c))(ctx := (block_at (cc_index c) ctx)(bc_tokens cand \<mapsto> i))"
    "index_bs (cc_index d) = index_bs (cc_index c)"
    "cc_events d = record_event (Block_admitted i ctx t (bc_origin cand) stamp) (cc_events c)"
    "bm_pool (cc_manager d) = bm_pool m" "\<forall>j. has_block j (cc_manager d) = has_block j m"
    "\<forall>j. block_of j (cc_manager d) = (if j = i then pinned now ((block_of i ?m2)\<lparr>br_state := Ready\<rparr>) else block_of j ?m2)"
    using admit_placed_ok [where i = i and cand = cand and ctx = ctx and now = now and cfg = cfg and stamp = stamp
      and t = t, OF tiered_invD(1) [OF place(3)] _ _ _ _ _ _ _ len dist]
      m(3,5) rec size anc new room
    by (simp add: c2 blk del: mult_Suc put_block_simps(2) cong del: if_weak_cong) blast
  let ?d = "d\<lparr>cc_tiers := cc_tiers c2\<rparr>"
  have run: "admit_new_block now cfg ctx cand stamp t existing i ?c =
      (Inr \<lparr>as_status = Admitted, as_handle = Some (Some (store_slot i))\<rparr>, ?d)"
    by (rule admit_new_block_tiers [OF _ place(1) _ d(1)]) (use ti(2) place(2) in simp_all)
  have same: "untiered ?d = d" using cache_invD(4) [OF d(2)] by (cases d) (simp add: untiered_def)
  have tier: "cc_tiers ?d = Some (Shared_store tm')" using tiered_invD(2) [OF place(3)] by simp
  have "tiered_inv tm' ?d"
  proof (rule tiered_invI [OF _ tier tiered_invD(3) [OF place(3)]])
    show "cache_inv (untiered ?d)" using d(2) same by simp
    fix j assume "has_block j (cc_manager ?d)" "br_state (block_of j (cc_manager ?d)) = Ready"
    then show "resident j (br_tier (block_of j (cc_manager ?d))) tm'"
      using d(7,8) blk place(4) tiered_invD(4) [OF place(3), of j] by (auto simp: c2 split: if_splits)
  next
    fix j u assume "resident j u tm'"
    then show "has_block j (cc_manager ?d) \<and>
        br_tier (block_of j (cc_manager ?d)) = br_tier (record_of j (bm_store (cc_manager c2))) \<and>
        br_payload (block_of j (cc_manager ?d)) = br_payload (record_of j (bm_store (cc_manager c2))) \<and>
        br_state (block_of j (cc_manager ?d)) \<noteq> Free"
      using tiered_invD(5,6) [OF place(3)] d(7,8) by (auto simp: c2)
  qed
  moreover have "cached_as i ctx cand (block_at (cc_index c)) (untiered ?d)"
    using d(2,3,7,8) m(3,4) blk by (simp add: same cached_as_def new_record_def)
  moreover have "admitted_frame cfg stamp t i [] ctx cand c ?d"
    using d(5-8) m(3,4,7-9) free blk by (simp add: admitted_frame_def)
  moreover have "stored_as (bc_payload cand) (block_of i (cc_manager ?d)) tm'"
    using place(6) d(8) by (simp add: stored_as_def c2)
  ultimately show ?thesis using m(1) run d(4) place(4) by fastforce
qed

text \<open>No ancestor of the candidate can be evicted: nothing need be, or handles pin all of them.\<close>

definition tiered_ancestors_safe :: "tier \<Rightarrow> tier_manager \<Rightarrow> block_id list \<Rightarrow> cache_core \<Rightarrow> bool" where
  "tiered_ancestors_safe t tm existing c \<longleftrightarrow>
     bp_free (bm_pool (cc_manager c)) \<noteq> [] \<and> tier_manager_has_capacity t tm \<or>
     list_all (\<lambda>b. br_refcount (block_of b (cc_manager c)) \<noteq> 0) existing"

text \<open>Room is made when the manager or the tier is full.\<close>

lemma tiered_room:
  assumes inv: "tiered_inv tm c" and pol: "candidate_eviction (ep_choose_victim pol)"
  shows "\<exists>ok d tm' vs. (if manager_available (cc_manager c) = 0 \<or> \<not> tier_manager_has_capacity t tm
      then and_then (make_space pol \<lparr>ms_blocks_needed = 1, ms_timestamp_ns = stamp, ms_tier = t\<rparr> c)
        (\<lambda>r c1. return_with (es_status r = Space_made) c1)
      else return_with True c) = (Inr ok, d) \<and>
    tiered_inv tm' d \<and> tiers_no_fuller tm tm' \<and> evicted vs (untiered c) (untiered d) \<and>
    set vs \<subseteq> takeable t (cc_manager c) \<and>
    (ok \<longrightarrow> bp_free (bm_pool (cc_manager d)) \<noteq> [] \<and> tier_manager_has_capacity t tm') \<and>
    (bp_free (bm_pool (cc_manager c)) \<noteq> [] \<and> tier_manager_has_capacity t tm \<longrightarrow> vs = [] \<and> ok) \<and>
    (\<not> ok \<longrightarrow> vs = [] \<and> (takeable t (cc_manager c) = {} \<or>
       (\<exists>ctx fs. fs \<noteq> [] \<and> ep_choose_victim pol ctx fs = None))) \<and>
    cc_events d = fold (\<lambda>v. record_event (Block_evicted v (ep_name pol) stamp)) vs (cc_events c)"
proof (cases "bp_free (bm_pool (cc_manager c)) \<noteq> [] \<and> tier_manager_has_capacity t tm")
  case True
  then have "manager_available (cc_manager c) \<noteq> 0"
    using available_zero [OF tiered_invD_core(1) [OF inv]] by simp
  then show ?thesis
    using True inv evicted_none [OF tiered_invD(1) [OF inv]]
    by (intro exI [of _ True] exI [of _ c] exI [of _ tm] exI [of _ "[]"]) (simp add: return_with_def)
next
  case False
  let ?req = "\<lparr>ms_blocks_needed = 1, ms_timestamp_ns = stamp, ms_tier = t\<rparr> :: make_space_request"
  obtain r d tm' where m: "make_space pol ?req c = (Inr r, d)" "make_space pol ?req (untiered c) = (Inr r, untiered d)"
    "tiered_inv tm' d" "tiers_no_fuller tm tm'" "es_status r = Space_made \<longrightarrow> tier_manager_has_capacity t tm'"
    using tiered_make_space_loop [OF inv pol, of t stamp 1 0] by (auto simp: make_space_def)
  obtain vs where vs: "evicted vs (untiered c) (untiered d)" "set vs \<subseteq> takeable t (cc_manager c)"
    "es_status r = Space_made \<longleftrightarrow> vs \<noteq> []"
    "cc_events d = fold (\<lambda>v. record_event (Block_evicted v (ep_name pol) stamp)) vs (cc_events c)"
    "es_status r \<noteq> Space_made \<longrightarrow> takeable t (cc_manager c) = {} \<or> (\<exists>ctx fs. fs \<noteq> [] \<and> ep_choose_victim pol ctx fs = None)"
    using room_for_one [OF tiered_invD(1) [OF inv] pol, of stamp t] m(2) by (auto simp: return_with_def)
  have "bp_free (bm_pool (cc_manager d)) = bp_free (bm_pool (cc_manager c)) @ vs"
    using evictedD(7) [OF vs(1)] by simp
  moreover have "(if manager_available (cc_manager c) = 0 \<or> \<not> tier_manager_has_capacity t tm
      then and_then (make_space pol ?req c) (\<lambda>r c1. return_with (es_status r = Space_made) c1)
      else return_with True c) = (Inr (es_status r = Space_made), d)"
    using False m(1) available_zero [OF tiered_invD_core(1) [OF inv]] by (auto simp: return_with_def)
  ultimately show ?thesis
    using False m(3-5) vs by (intro exI [of _ "es_status r = Space_made"] exI [of _ d] exI [of _ tm'] exI [of _ vs]) auto
qed

lemma tiered_admit_with_space:
  assumes inv: "tiered_inv tm c" and pol: "candidate_eviction (ep_choose_victim (ag_eviction cfg))"
    and ready: "buffer_ready tm"
    and bs: "ag_block_size cfg = px_block_size (cc_index c)"
    and size: "length (bc_tokens cand) = Suc idx * index_bs (cc_index c)"
    and anc: "\<forall>k < idx. block_at (cc_index c) ctx (take (Suc k * index_bs (cc_index c)) (bc_tokens cand)) =
      Some (existing ! k)"
    and len: "length existing = idx" and dist: "distinct existing"
    and new: "block_at (cc_index c) ctx (bc_tokens cand) = None"
    and room: "node_count (cc_index c) + 2 * Suc idx < invalid_node"
    and safe: "tiered_ancestors_safe t tm existing c"
  shows "\<exists>r d tm'. admit_with_space now cfg ctx cand stamp t existing c = (Inr r, d) \<and> tiered_inv tm' d \<and>
    ((as_status r = CapacityExceeded \<and> as_handle r = None \<and> evicted [] (untiered c) (untiered d) \<and>
        (bp_free (bm_pool (cc_manager c)) = [] \<or> \<not> tier_manager_has_capacity t tm)) \<or>
     (\<exists>i vs. as_status r = Admitted \<and> as_handle r = Some (Some (store_slot i)) \<and>
        set vs \<subseteq> takeable t (cc_manager c) \<and> (\<forall>k < idx. existing ! k \<notin> set vs) \<and>
        cached_as i ctx cand (fold drop_block vs (block_at (cc_index c))) (untiered d) \<and>
        index_bs (cc_index d) = index_bs (cc_index c) \<and> resident i t tm' \<and>
        stored_as (bc_payload cand) (block_of i (cc_manager d)) tm'))"
proof -
  let ?free = "bp_free (bm_pool (cc_manager c))"
  note ti = tiered_invD [OF inv]
  obtain ok c1 tm1 vs where made: "(if manager_available (cc_manager c) = 0 \<or> \<not> tier_manager_has_capacity t tm
      then and_then (make_space (ag_eviction cfg) \<lparr>ms_blocks_needed = 1, ms_timestamp_ns = stamp, ms_tier = t\<rparr> c)
        (\<lambda>r c1. return_with (es_status r = Space_made) c1)
      else return_with True c) = (Inr ok, c1)"
    and c1: "tiered_inv tm1 c1" "tiers_no_fuller tm tm1" "evicted vs (untiered c) (untiered c1)"
      "set vs \<subseteq> takeable t (cc_manager c)"
      "ok \<longrightarrow> bp_free (bm_pool (cc_manager c1)) \<noteq> [] \<and> tier_manager_has_capacity t tm1"
      "?free \<noteq> [] \<and> tier_manager_has_capacity t tm \<longrightarrow> vs = [] \<and> ok" "\<not> ok \<longrightarrow> vs = []"
    using tiered_room [OF inv pol, of t stamp] by blast
  note unfolded = admit_with_space_def [of now cfg ctx cand stamp t existing c] ti(2) Let_def
  show ?thesis
  proof (cases ok)
    case False
    then have "admit_with_space now cfg ctx cand stamp t existing c = (Inr (admit_failed CapacityExceeded), c1)"
      using made by (simp add: unfolded return_with_def)
    moreover have "evicted [] (untiered c) (untiered c1)" using c1(3,7) False by simp
    moreover have "?free = [] \<or> \<not> tier_manager_has_capacity t tm" using c1(6) False by blast
    ultimately show ?thesis using c1(1) by (auto simp: admit_failed_def)
  next
    case True
    have kept: "existing ! k \<notin> set vs" if "k < idx" for k
    proof
      assume v: "existing ! k \<in> set vs"
      then have "\<not> (?free \<noteq> [] \<and> tier_manager_has_capacity t tm)" using c1(6) by auto
      then have "br_refcount (block_of (existing ! k) (cc_manager c)) \<noteq> 0"
        using safe that len by (auto simp: tiered_ancestors_safe_def list_all_iff)
      with c1(4) v show False by (auto simp: takeable_def evictable_def)
    qed
    note e = evictedD [OF c1(3), simplified]
    have ready1: "buffer_ready tm1" using c1(2) ready by (simp add: tiers_no_fuller_def)
    have "\<exists>i g m d tm'. manager_create_block (bc_hash cand) (bc_block_index cand) (ucast (ag_block_size cfg)) t
        (cc_manager c1) = (Inr (Some (i, g)), m) \<and>
      admit_new_block now cfg ctx cand stamp t existing i (c1\<lparr>cc_manager := m\<rparr>) =
        (Inr \<lparr>as_status = Admitted, as_handle = Some (Some (store_slot i))\<rparr>, d) \<and>
      cached_as i ctx cand (block_at (cc_index c1)) (untiered d) \<and> index_bs (cc_index d) = index_bs (cc_index c1) \<and>
      tiered_inv tm' d \<and> admitted_frame cfg stamp t i [] ctx cand c1 d \<and>
      (\<forall>j u. resident j u tm' \<longleftrightarrow> resident j u tm1 \<or> j = i \<and> u = t) \<and>
      stored_as (bc_payload cand) (block_of i (cc_manager d)) tm'"
      by (rule tiered_admit_new [OF c1(1) _ _ ready1, where idx = idx])
        (use e(2-4) c1(5) True bs size anc len dist new room kept block_size_eq [OF e(3)]
          in \<open>simp_all add: fold_drop_block del: mult_Suc\<close>)
    then obtain i g m d tm' where m: "manager_create_block (bc_hash cand) (bc_block_index cand)
        (ucast (ag_block_size cfg)) t (cc_manager c1) = (Inr (Some (i, g)), m)"
      "admit_new_block now cfg ctx cand stamp t existing i (c1\<lparr>cc_manager := m\<rparr>) =
        (Inr \<lparr>as_status = Admitted, as_handle = Some (Some (store_slot i))\<rparr>, d)"
      "cached_as i ctx cand (block_at (cc_index c1)) (untiered d)" "index_bs (cc_index d) = index_bs (cc_index c1)"
      "tiered_inv tm' d" "resident i t tm'" "stored_as (bc_payload cand) (block_of i (cc_manager d)) tm'" by blast
    have "admit_with_space now cfg ctx cand stamp t existing c =
        (Inr \<lparr>as_status = Admitted, as_handle = Some (Some (store_slot i))\<rparr>, d)"
      using made True m(1,2) by (simp add: unfolded on_manager_def on_member_def)
    with m(3-7) c1(4) kept e(2,3) show ?thesis
      by (intro exI [of _ "\<lparr>as_status = Admitted, as_handle = Some (Some (store_slot i))\<rparr>"] exI [of _ d] exI [of _ tm']) auto
  qed
qed

text \<open>The tier the placement policy chooses for a candidate.\<close>

abbreviation target_of :: "admission_config \<Rightarrow> block_candidate \<Rightarrow> admission_context \<Rightarrow> cache_core \<Rightarrow> tier" where
  "target_of cfg cand ctx c \<equiv> choose_target_tier (ag_placement cfg)
     (candidate_features_of (ag_block_size cfg) cand) (ac_timestamp_ns ctx) (cc_tiers c)"

text \<open>C9: admission into a tiered cache, with every outcome. On a consistent cache whose tier manager shares
  the block manager's store, with an eviction policy that picks a candidate, room in the index, a payload
  buffer at hand (or payloads switched off) and no ancestor exposed to eviction, \<open>admit\<close> never throws and
  leaves cache and tiers consistent. \<open>InvalidBlock\<close>, for a candidate whose tokens do not end with its
  block or whose ancestors are not cached, and \<open>AlreadyPresent\<close> change nothing,
  \<open>Rejected\<close> is reported exactly when an admissible candidate is rejected by the policy, and
  \<open>CapacityExceeded\<close> only when the slots or the target tier are full, with nothing evicted.
  When it admits, the returned handle pins the new ready block, the block is in the tier the placement policy
  chose, the payload can be read back from it, and the next lookup of the candidate's tokens returns its
  ancestors followed by the new block.\<close>

theorem tiered_admit_outcomes:
  assumes inv: "tiered_inv tm c" and pol: "candidate_eviction (ep_choose_victim (ag_eviction cfg))"
    and ready: "buffer_ready tm"
    and bs: "ag_block_size cfg = px_block_size (cc_index c)"
    and room: "node_count (cc_index c) + 2 * Suc (unat (bc_block_index cand)) < invalid_node"
    and ch: "ch = compute_context_hash xxh64 (bc_context cand)"
    and safe: "tiered_ancestors_safe (target_of cfg cand ctx c) tm (ancestors ch cand c) c"
  shows "\<exists>r d tm'. admit xxh64 now cfg cand ctx c = (Inr r, d) \<and> tiered_inv tm' d \<and>
    (case as_status r of
       InvalidBlock \<Rightarrow> d = c \<and> as_handle r = None \<and>
         \<not> (length (bc_tokens cand) = Suc (unat (bc_block_index cand)) * index_bs (cc_index c) \<and>
            length (ancestors ch cand c) = unat (bc_block_index cand))
     | AlreadyPresent \<Rightarrow> d = c \<and> as_handle r = None \<and>
         length (found_blocks c ch (bc_tokens cand)) = Suc (unat (bc_block_index cand))
     | Rejected \<Rightarrow> as_handle r = None \<and> admissible ch cand c \<and> cc_manager d = cc_manager c \<and> cc_index d = cc_index c \<and> tm' = tm \<and>
         ap_decide (ag_admission cfg) ctx (candidate_features_of (ag_block_size cfg) cand) = Reject
     | CapacityExceeded \<Rightarrow> as_handle r = None \<and>
         ap_decide (ag_admission cfg) ctx (candidate_features_of (ag_block_size cfg) cand) = Admit \<and>
         evicted [] (untiered c) (untiered d) \<and>
         (bp_free (bm_pool (cc_manager c)) = [] \<or> \<not> tier_manager_has_capacity (target_of cfg cand ctx c) tm)
     | Admitted \<Rightarrow> \<exists>i. as_handle r = Some (Some (store_slot i)) \<and>
         ap_decide (ag_admission cfg) ctx (candidate_features_of (ag_block_size cfg) cand) = Admit \<and>
         br_state (block_of i (cc_manager d)) = Ready \<and> br_refcount (block_of i (cc_manager d)) = 1 \<and>
         br_hash (block_of i (cc_manager d)) = bc_hash cand \<and>
         resident i (target_of cfg cand ctx c) tm' \<and>
         stored_as (bc_payload cand) (block_of i (cc_manager d)) tm' \<and>
         found_blocks d ch (bc_tokens cand) = ancestors ch cand c @ [i])"
proof (cases "admissible ch cand c")
  case False
  then show ?thesis using inv unfolding admissible_def
    by (auto simp: admissible_def admit_eq [OF tiered_invD_core(3) [OF inv] bs ch] return_with_def admit_failed_def)
next
  case ok: True
  let ?idx = "unat (bc_block_index cand)" and ?toks = "bc_tokens cand" and ?anc = "ancestors ch cand c"
  let ?feat = "candidate_features_of (ag_block_size cfg) cand" and ?t = "target_of cfg cand ctx c"
  define c1 where "c1 = emit_decision (Admission_record
     \<lparr>ar_admitted = (ap_decide (ag_admission cfg) ctx ?feat = Admit),
      ar_policy_name = ap_name (ag_admission cfg), ar_candidate_hash = bc_hash cand,
      ar_timestamp_ns = ac_timestamp_ns ctx\<rparr>) c"
  have same: "cc_manager c1 = cc_manager c" "cc_index c1 = cc_index c" "cc_tiers c1 = cc_tiers c"
    by (simp_all add: c1_def emit_decision_def)
  have inv1: "tiered_inv tm c1"
    using inv cache_inv_same [of "untiered c" "untiered c1"] same unfolding tiered_inv_def by simp
  have anc: "ancestors ch cand (untiered c) = ?anc" "admissible ch cand (untiered c) = admissible ch cand c"
    by (simp_all add: ancestors_def admissible_def)
  note ok' = ok [unfolded admissible_def] and uinv = tiered_invD(1) [OF inv]
  have run: "admit xxh64 now cfg cand ctx c =
      (if ap_decide (ag_admission cfg) ctx ?feat = Reject then return_with (admit_failed Rejected) c1
       else admit_with_space now cfg ch cand (ac_timestamp_ns ctx) ?t ?anc c1)"
    using ok by (simp add: admit_eq [OF tiered_invD_core(3) [OF inv] bs ch] Let_def c1_def)
      (simp add: emit_decision_def)
  show ?thesis
  proof (cases "ap_decide (ag_admission cfg) ctx ?feat = Reject")
    case True
    with run same inv1 show ?thesis
      by (intro exI [of _ "admit_failed Rejected"] exI [of _ c1] exI [of _ tm]) (simp add: admit_failed_def return_with_def ok)
  next
    case False
    then have adm: "ap_decide (ag_admission cfg) ctx ?feat = Admit" by (cases "ap_decide (ag_admission cfg) ctx ?feat") simp_all
    have "\<exists>r d tm'. admit_with_space now cfg ch cand (ac_timestamp_ns ctx) ?t ?anc c1 = (Inr r, d) \<and> tiered_inv tm' d \<and>
      ((as_status r = CapacityExceeded \<and> as_handle r = None \<and> evicted [] (untiered c1) (untiered d) \<and>
        (bp_free (bm_pool (cc_manager c1)) = [] \<or> \<not> tier_manager_has_capacity ?t tm)) \<or>
      (\<exists>i vs. as_status r = Admitted \<and> as_handle r = Some (Some (store_slot i)) \<and>
        set vs \<subseteq> takeable ?t (cc_manager c1) \<and> (\<forall>k < ?idx. ?anc ! k \<notin> set vs) \<and>
        cached_as i ch cand (fold drop_block vs (block_at (cc_index c1))) (untiered d) \<and>
        index_bs (cc_index d) = index_bs (cc_index c1) \<and> resident i ?t tm' \<and>
        stored_as (bc_payload cand) (block_of i (cc_manager d)) tm'))"
      by (rule tiered_admit_with_space [OF inv1 pol ready, where idx = ?idx])
        (use same bs ok' ancestors_nth [OF uinv, of _ ch cand] admissible_new [OF uinv, of ch cand] room safe anc ok
          found_distinct [OF tiered_invD_core(3) [OF inv]]
          in \<open>simp_all add: tiered_ancestors_safe_def del: mult_Suc\<close>, simp add: ancestors_def)
    then obtain r d tm' where rd: "admit_with_space now cfg ch cand (ac_timestamp_ns ctx) ?t ?anc c1 = (Inr r, d)"
      "tiered_inv tm' d"
      and out: "(as_status r = CapacityExceeded \<and> as_handle r = None \<and> evicted [] (untiered c1) (untiered d) \<and>
        (bp_free (bm_pool (cc_manager c1)) = [] \<or> \<not> tier_manager_has_capacity ?t tm)) \<or>
      (\<exists>i vs. as_status r = Admitted \<and> as_handle r = Some (Some (store_slot i)) \<and>
        set vs \<subseteq> takeable ?t (cc_manager c1) \<and> (\<forall>k < ?idx. ?anc ! k \<notin> set vs) \<and>
        cached_as i ch cand (fold drop_block vs (block_at (cc_index c1))) (untiered d) \<and>
        index_bs (cc_index d) = index_bs (cc_index c1) \<and> resident i ?t tm' \<and>
        stored_as (bc_payload cand) (block_of i (cc_manager d)) tm')" by blast
    have run': "admit xxh64 now cfg cand ctx c = (Inr r, d)" using run False rd(1) by simp
    from out show ?thesis
    proof
      assume cap: "as_status r = CapacityExceeded \<and> as_handle r = None \<and> evicted [] (untiered c1) (untiered d) \<and>
        (bp_free (bm_pool (cc_manager c1)) = [] \<or> \<not> tier_manager_has_capacity ?t tm)"
      then have "evicted [] (untiered c) (untiered d)" using same unfolding evicted_def by simp
      with cap run' rd(2) same adm show ?thesis by (intro exI [of _ r] exI [of _ d] exI [of _ tm']) simp
    next
      assume "\<exists>i vs. as_status r = Admitted \<and> as_handle r = Some (Some (store_slot i)) \<and>
        set vs \<subseteq> takeable ?t (cc_manager c1) \<and> (\<forall>k < ?idx. ?anc ! k \<notin> set vs) \<and>
        cached_as i ch cand (fold drop_block vs (block_at (cc_index c1))) (untiered d) \<and>
        index_bs (cc_index d) = index_bs (cc_index c1) \<and> resident i ?t tm' \<and>
        stored_as (bc_payload cand) (block_of i (cc_manager d)) tm'"
      then obtain i vs where i: "as_status r = Admitted" "as_handle r = Some (Some (store_slot i))"
        "\<forall>k < ?idx. ?anc ! k \<notin> set vs"
        "cached_as i ch cand (fold drop_block vs (block_at (cc_index (untiered c)))) (untiered d)"
        "index_bs (cc_index (untiered d)) = index_bs (cc_index (untiered c))" "resident i ?t tm'"
        "stored_as (bc_payload cand) (block_of i (cc_manager d)) tm'"
        using same by auto
      have "\<forall>b \<in> set (ancestors ch cand (untiered c)). b \<notin> set vs"
        unfolding anc(1) using i(3) ok' by (metis in_set_conv_nth)
      from found_after_admission [OF uinv _ this i(4,5)] ok anc
      have "found_blocks d ch ?toks = ?anc @ [i]" by simp
      with i run' rd(2) adm show ?thesis
        by (intro exI [of _ r] exI [of _ d] exI [of _ tm']) (simp add: cached_as_def)
    qed
  qed
qed

text \<open>Two slots, blocks of two tokens, and tiers of one block each with buffers of two bytes.\<close>

definition tiered_empty :: cache_core where
  "tiered_empty = make_core 2 2 (Some (Shared_store (make_tiers 1 1 2 2 (constant_latency 1 2 3 4))))
     Null_event_sink Null_decision_logger"

theorem tiered_admit_outcomes_witness:
  "\<exists>r d tm i. admit (\<lambda>_. 7) 1 lru_config ((demo_candidate 1 0 [1, 2])\<lparr>bc_payload := [8, 9]\<rparr>) (demo_admission 1) tiered_empty =
      (Inr r, d) \<and> tiered_inv tm d \<and> as_status r = Admitted \<and> found_blocks d 7 [1, 2] = [i] \<and>
    resident i GpuSim tm \<and> stored_as [8, 9] (block_of i (cc_manager d)) tm"
proof -
  let ?cand = "(demo_candidate 1 0 [1, 2])\<lparr>bc_payload := [8, 9]\<rparr>" and ?c = tiered_empty
  let ?tm = "make_tiers 1 1 2 2 (constant_latency 1 2 3 4)"
  have inv: "tiered_inv ?tm ?c" unfolding tiered_empty_def by (rule tiered_inv_make_core) simp
  have pol: "candidate_eviction (ep_choose_victim (ag_eviction lru_config))"
    by (simp add: lru_config_def lru_eviction_def lru.candidate_eviction_axioms)
  have ready: "buffer_ready ?tm" by (simp add: buffer_ready_def make_tiers_def make_payload_store_def)
  have x: "cc_index ?c = make_index 2" by (simp add: tiered_empty_def make_core_def)
  have bs: "ag_block_size lru_config = px_block_size (cc_index ?c)" by (simp add: x lru_config_def make_index_def)
  have room: "node_count (cc_index ?c) + 2 * Suc (unat (bc_block_index ?cand)) < invalid_node"
    by (simp add: x make_index_def demo_candidate_def invalid_node_def)
  have ch: "7 = compute_context_hash (\<lambda>_. 7) (bc_context ?cand)" by (simp add: compute_context_hash_def)
  have anc: "ancestors 7 ?cand ?c = []" "found_blocks ?c 7 (bc_tokens ?cand) = []"
    by (simp_all add: ancestors_def x block_at_make_index prefix_blocks_def demo_candidate_def)
      (simp add: index_bs_def make_index_def)
  have tier: "target_of lru_config ?cand (demo_admission 1) ?c = GpuSim"
    by (simp add: choose_target_tier_def lru_config_def)
  have cap: "tier_manager_has_capacity GpuSim ?tm" "bp_free (bm_pool (cc_manager ?c)) \<noteq> []"
    by (simp_all add: tier_manager_has_capacity_def tier_of_def make_tiers_def tier_has_capacity_def make_tier_store_def
        tiered_empty_def make_core_def make_manager_def make_pool_def)
      (simp add: numeral_2_eq_2 del: One_nat_def)
  have safe: "tiered_ancestors_safe (target_of lru_config ?cand (demo_admission 1) ?c) ?tm (ancestors 7 ?cand ?c) ?c"
    by (simp add: anc tiered_ancestors_safe_def)
  have "ap_decide (ag_admission lru_config) (demo_admission 1) f = Admit" for f
    by (simp add: lru_config_def always_admit_def)
  moreover have "bc_tokens ?cand = [1, 2]" "bc_block_index ?cand = 0" "bc_payload ?cand = [8, 9]"
    "index_bs (cc_index ?c) = 2"
    by (simp_all add: demo_candidate_def x) (simp add: index_bs_def make_index_def)
  moreover obtain r d tm' where "admit (\<lambda>_. 7) 1 lru_config ?cand (demo_admission 1) ?c = (Inr r, d)" "tiered_inv tm' d"
    "case as_status r of
       InvalidBlock \<Rightarrow> d = ?c \<and> as_handle r = None \<and>
         \<not> (length (bc_tokens ?cand) = Suc (unat (bc_block_index ?cand)) * index_bs (cc_index ?c) \<and>
            length (ancestors 7 ?cand ?c) = unat (bc_block_index ?cand))
     | AlreadyPresent \<Rightarrow> d = ?c \<and> as_handle r = None \<and>
         length (found_blocks ?c 7 (bc_tokens ?cand)) = Suc (unat (bc_block_index ?cand))
     | Rejected \<Rightarrow> as_handle r = None \<and> admissible 7 ?cand ?c \<and> cc_manager d = cc_manager ?c \<and> cc_index d = cc_index ?c \<and> tm' = ?tm \<and>
         ap_decide (ag_admission lru_config) (demo_admission 1) (candidate_features_of (ag_block_size lru_config) ?cand) = Reject
     | CapacityExceeded \<Rightarrow> as_handle r = None \<and>
         ap_decide (ag_admission lru_config) (demo_admission 1) (candidate_features_of (ag_block_size lru_config) ?cand) = Admit \<and>
         evicted [] (untiered ?c) (untiered d) \<and>
         (bp_free (bm_pool (cc_manager ?c)) = [] \<or>
          \<not> tier_manager_has_capacity (target_of lru_config ?cand (demo_admission 1) ?c) ?tm)
     | Admitted \<Rightarrow> \<exists>i. as_handle r = Some (Some (store_slot i)) \<and>
         ap_decide (ag_admission lru_config) (demo_admission 1) (candidate_features_of (ag_block_size lru_config) ?cand) = Admit \<and>
         br_state (block_of i (cc_manager d)) = Ready \<and> br_refcount (block_of i (cc_manager d)) = 1 \<and>
         br_hash (block_of i (cc_manager d)) = bc_hash ?cand \<and>
         resident i (target_of lru_config ?cand (demo_admission 1) ?c) tm' \<and>
         stored_as (bc_payload ?cand) (block_of i (cc_manager d)) tm' \<and>
         found_blocks d 7 (bc_tokens ?cand) = ancestors 7 ?cand ?c @ [i]"
    using tiered_admit_outcomes [OF inv pol ready bs room ch safe, of 1] by blast
  ultimately show ?thesis using cap anc tier by (cases "as_status r") auto
qed

end
