(* ===== verification/Tier_Scans.thy ===== *)
theory Tier_Scans
  imports Tiered_Cache "HOL-Library.Sublist"
begin

text \<open>
  The promotion and the demotion scan on a consistent tiered cache. Both are one loop over the blocks
  of a source tier, with the tiers, the decision, the move and the event as parameters.
\<close>

section \<open>One move\<close>

lemma tier_manager_move_resident:
  assumes inv: "tier_inv s" and res: "resident i f (fst s)" and t: "tier_manager_has_capacity t (fst s)" "f \<noteq> t"
  obtains lat tm where "tier_manager_move msg i t s = (Inr \<lparr>to_status = Success, to_latency_ns = lat\<rparr>,
      (tm, put_record i ((record_of i (snd s))\<lparr>br_tier := t\<rparr>) (snd s)))"
    "\<forall>j u. resident j u tm \<longleftrightarrow> (if j = i then u = t else resident j u (fst s))"
    "tm_payloads tm = tm_payloads (fst s)"
proof -
  obtain fs ts where f: "tier_of f (fst s) = Some fs" "i \<in> ts_ids fs" and ts: "tier_of t (fst s) = Some ts" "tier_has_capacity ts"
    using res t by (auto simp: resident_def tier_manager_has_capacity_def split: option.splits)
  have rec: "in_store i (snd s)" "br_tier (record_of i (snd s)) = f"
    using inv res by (auto simp: tier_inv_def tiers_recorded_def)
  let ?tm = "set_tier_store t (ts\<lparr>ts_ids := insert i (ts_ids ts)\<rparr>) (set_tier_store f (tier_remove i fs) (fst s))"
  have only: "resident i u (fst s) \<longleftrightarrow> u = f" for u
    using resident_unique [OF inv _ res, of u] res by auto
  obtain lat where "tier_manager_move msg i t s = (Inr \<lparr>to_status = Success, to_latency_ns = lat\<rparr>,
      (?tm, put_record i ((record_of i (snd s))\<lparr>br_tier := t\<rparr>) (snd s)))"
    using f ts rec t(2)
    by (simp add: tier_manager_move_def tier_contains_def tier_add_def on_tier_store_def
          on_blocks_def on_member_def store_set_tier_def store_write_in return_with_def store_get_in Let_def)
  moreover have "resident j u ?tm \<longleftrightarrow> (if j = i then u = t else resident j u (fst s))" for j u
  proof -
    have "resident j t (fst s) \<longleftrightarrow> j \<in> ts_ids ts" "resident j f (fst s) \<longleftrightarrow> j \<in> ts_ids fs"
      using f(1) ts(1) by (simp_all add: resident_def)
    moreover have "resident j u ?tm \<longleftrightarrow> (if u = t then j = i \<or> j \<in> ts_ids ts
        else if u = f then j \<in> ts_ids fs \<and> j \<noteq> i else resident j u (fst s))"
      by (simp add: resident_set_tier_store tier_remove_def)
    ultimately show ?thesis using only [of u] by (cases "j = i"; cases "u = t"; cases "u = f") simp_all
  qed
  ultimately show thesis using that by simp
qed

lemma tiered_move:
  assumes inv: "tiered_inv tm c" and res: "resident i f tm" and t: "tier_manager_has_capacity t tm" "f \<noteq> t"
  obtains r c2 tm' where "on_tiers (Shared_store tm) (tier_manager_move msg i t) c = (Inr r, c2)"
    "to_status r = Success" "tiered_inv tm' c2"
    "\<forall>j u. resident j u tm' \<longleftrightarrow> (if j = i then u = t else resident j u tm)"
    "untiered c2 = (untiered c)\<lparr>cc_manager := put_block i ((block_of i (cc_manager c))\<lparr>br_tier := t\<rparr>) (cc_manager c)\<rparr>"
proof -
  let ?m = "cc_manager c" and ?s = "(tm, bm_store (cc_manager c))" and ?r = "(block_of i (cc_manager c))\<lparr>br_tier := t\<rparr>"
  note ti = tiered_invD [OF inv]
  have i: "has_block i ?m" by (rule ti(6) [OF res])
  have st: "store_inv (bm_store ?m)" by (rule manager_invD(2) [OF tiered_invD_core(1) [OF inv]])
  obtain lat tm' where mv: "tier_manager_move msg i t ?s = (Inr \<lparr>to_status = Success, to_latency_ns = lat\<rparr>,
      (tm', put_record i ?r (bm_store ?m)))"
    and res': "\<forall>j u. resident j u tm' \<longleftrightarrow> (if j = i then u = t else resident j u tm)"
    using tier_manager_move_resident [OF ti(3), of i f t msg] res t by (metis fst_conv snd_conv)
  let ?c2 = "c\<lparr>cc_tiers := Some (Shared_store tm'), cc_manager := put_block i ?r ?m\<rparr>"
  have unt: "untiered ?c2 = (untiered c)\<lparr>cc_manager := put_block i ?r ?m\<rparr>" by (simp add: untiered_def)
  have blk: "block_of j (put_block i ?r ?m) = (if j = i then ?r else block_of j ?m)" for j
    using record_of_put_record [OF st i] by simp
  have "tiered_inv tm' ?c2"
  proof (rule tiered_invI [where st = "put_record i ?r (bm_store ?m)"])
    have "?r = (block_of i ?m)\<lparr>br_tier := t, br_payload := br_payload (block_of i ?m)\<rparr>" by simp
    then show "cache_inv (untiered ?c2)"
      unfolding unt using cache_inv_put_placement [OF ti(1), where i = i and t = t and p = "br_payload (block_of i ?m)"] i by simp
    show "tier_inv (tm', put_record i ?r (bm_store ?m))" by (rule tier_inv_move [OF ti(3) mv])
    fix j
    assume "has_block j (cc_manager ?c2)" "br_state (block_of j (cc_manager ?c2)) = Ready"
    then show "resident j (br_tier (block_of j (cc_manager ?c2))) tm'"
      using ti(4) res' blk by (auto split: if_splits)
  next
    fix j u assume "resident j u tm'"
    then have "has_block j ?m" "br_state (block_of j ?m) \<noteq> Free" using res' res ti(5,6) by (metis (full_types))+
    then show "has_block j (cc_manager ?c2) \<and>
        br_tier (block_of j (cc_manager ?c2)) = br_tier (record_of j (put_record i ?r (bm_store ?m))) \<and>
        br_payload (block_of j (cc_manager ?c2)) = br_payload (record_of j (put_record i ?r (bm_store ?m))) \<and>
        br_state (block_of j (cc_manager ?c2)) \<noteq> Free"
      using blk by auto
  qed simp
  moreover have "on_tiers (Shared_store tm) (tier_manager_move msg i t) c =
      (Inr \<lparr>to_status = Success, to_latency_ns = lat\<rparr>, ?c2)"
    by (simp add: on_tiers_def mv put_block_def)
  ultimately show thesis using that res' unt by simp
qed

section \<open>The loop of a scan\<close>

fun scan_loop ::
  "tier \<Rightarrow> (block_features \<Rightarrow> bool) \<Rightarrow> string \<Rightarrow> (block_id \<Rightarrow> event) \<Rightarrow> u64 \<Rightarrow> block_id list \<Rightarrow> u32 \<Rightarrow> tier_link \<Rightarrow>
   cache_core \<Rightarrow> u32 outcome \<times> cache_core" where
  "scan_loop t wanted msg ev now [] n link c = return_with n c"
| "scan_loop t wanted msg ev now (i # is) n link c =
     (if \<not> tier_manager_has_capacity t (link_tiers link) then return_with n c
      else case build_features (bm_store (cc_manager c)) (cc_index c) i now of
        Inl e \<Rightarrow> throw e c
      | Inr features \<Rightarrow>
          if \<not> wanted features then scan_loop t wanted msg ev now is n link c
          else and_then (on_tiers link (tier_manager_move msg i t) c) (\<lambda>r c1.
            let link1 = (case cc_tiers c1 of Some l \<Rightarrow> l | None \<Rightarrow> link) in
            if to_status r = Success then scan_loop t wanted msg ev now is (n + 1) link1 (emit_event (ev i) c1)
            else scan_loop t wanted msg ev now is n link1 c1))"

lemma promotion_loop_scan:
  "promotion_loop pol ctx now is n link c =
   scan_loop GpuSim (\<lambda>f. mp_decide pol ctx f = Promote) ''TierManager::promote: unknown target tier''
     (\<lambda>i. Block_promoted i Host GpuSim now) now is n link c"
  by (induction "is" arbitrary: n link c)
    (auto simp: tier_manager_promote_def Let_def and_then_def split: sum.split prod.split)

lemma demotion_loop_scan:
  "demotion_loop pol ctx now is n link c =
   scan_loop Host (\<lambda>f. dp_decide pol ctx f = Demote) ''TierManager::demote: unknown target tier''
     (\<lambda>i. Block_demoted i GpuSim Host now) now is n link c"
  by (induction "is" arbitrary: n link c)
    (auto simp: tier_manager_demote_def Let_def and_then_def split: sum.split prod.split)

text \<open>The blocks \<open>moved\<close> went from \<open>f\<close> to \<open>t\<close>; apart from their tier no record changed.\<close>

definition scanned :: "tier \<Rightarrow> (block_id \<Rightarrow> event) \<Rightarrow> block_id list \<Rightarrow> tier_manager \<Rightarrow> cache_core \<Rightarrow>
    tier_manager \<Rightarrow> cache_core \<Rightarrow> bool" where
  "scanned t ev moved tm c tm' d \<longleftrightarrow> tiered_inv tm' d \<and>
     (\<forall>j u. resident j u tm' \<longleftrightarrow> (if j \<in> set moved then u = t else resident j u tm)) \<and>
     cc_index d = cc_index c \<and> bm_pool (cc_manager d) = bm_pool (cc_manager c) \<and>
     (\<forall>j. has_block j (cc_manager d) = has_block j (cc_manager c)) \<and>
     (\<forall>j. has_block j (cc_manager c) \<longrightarrow> block_of j (cc_manager d) = (if j \<in> set moved
        then (block_of j (cc_manager c))\<lparr>br_tier := t\<rparr> else block_of j (cc_manager c))) \<and>
     cc_events d = fold (\<lambda>i. record_event (ev i)) moved (cc_events c)"

lemma scanned_none: "tiered_inv tm c \<Longrightarrow> scanned t ev [] tm c tm c"
  by (simp add: scanned_def)

lemma scanned_step:
  assumes inv: "tiered_inv tm c" and res: "resident i f tm" and t: "tier_manager_has_capacity t tm" "f \<noteq> t"
  obtains r c2 tm' where "on_tiers (Shared_store tm) (tier_manager_move msg i t) c = (Inr r, c2)"
    "to_status r = Success" "cc_tiers c2 = Some (Shared_store tm')"
    "scanned t ev [i] tm c tm' (emit_event (ev i) c2)"
proof -
  obtain r c2 tm' where mv: "on_tiers (Shared_store tm) (tier_manager_move msg i t) c = (Inr r, c2)"
    "to_status r = Success" "tiered_inv tm' c2"
    "\<forall>j u. resident j u tm' \<longleftrightarrow> (if j = i then u = t else resident j u tm)"
    "untiered c2 = (untiered c)\<lparr>cc_manager := put_block i ((block_of i (cc_manager c))\<lparr>br_tier := t\<rparr>) (cc_manager c)\<rparr>"
    by (rule tiered_move [OF assms])
  have c2: "cc_manager c2 = put_block i ((block_of i (cc_manager c))\<lparr>br_tier := t\<rparr>) (cc_manager c)"
    "cc_index c2 = cc_index c" "cc_events c2 = cc_events c"
    using arg_cong [OF mv(5), of cc_manager] arg_cong [OF mv(5), of cc_index] arg_cong [OF mv(5), of cc_events] by simp_all
  have i: "has_block i (cc_manager c)" by (rule tiered_invD(6) [OF inv res])
  have blk: "block_of j (cc_manager c2) = (if j = i then (block_of i (cc_manager c))\<lparr>br_tier := t\<rparr> else block_of j (cc_manager c))" for j
    using record_of_put_record [OF manager_invD(2) [OF tiered_invD_core(1) [OF inv]] i] by (simp add: c2)
  have "tiered_inv tm' (emit_event (ev i) c2)"
    using mv(3) cache_inv_same [of "untiered c2" "untiered (emit_event (ev i) c2)"]
    unfolding tiered_inv_def by (simp add: emit_event_def)
  then have "scanned t ev [i] tm c tm' (emit_event (ev i) c2)"
    using mv(4) blk by (simp add: scanned_def emit_event_def c2)
  with mv tiered_invD(2) [OF mv(3)] that show thesis by blast
qed

lemma scanned_trans:
  assumes "scanned t ev xs tm c tm1 d" "scanned t ev ys tm1 d tm2 e"
  shows "scanned t ev (xs @ ys) tm c tm2 e"
  using assms unfolding scanned_def by auto

text \<open>What the policy sees of a block that was not moved yet is what it sees at the start of the scan.\<close>

lemma build_features_same:
  "in_store i s \<Longrightarrow> in_store i s' \<Longrightarrow> record_of i s' = record_of i s \<Longrightarrow>
   build_features s' x i now = build_features s x i now"
  by (simp add: build_features_def)

lemma subseqD:
  assumes "subseq xs ys"
  shows "set xs \<subseteq> set ys" "distinct ys \<Longrightarrow> distinct xs"
  using assms by (auto simp: subseq_conv_nths dest: in_set_nthsD)

definition scan_verdict :: "(block_features \<Rightarrow> bool) \<Rightarrow> u64 \<Rightarrow> cache_core \<Rightarrow> block_id \<Rightarrow> bool" where
  "scan_verdict wanted now c i \<longleftrightarrow>
     (case build_features (bm_store (cc_manager c)) (cc_index c) i now of Inl e \<Rightarrow> False | Inr fs \<Rightarrow> wanted fs)"

lemma scan_loop_ok:
  assumes "tiered_inv tm c" "distinct is" "\<forall>i \<in> set is. resident i f tm" and ft: "f \<noteq> t"
  shows "\<exists>moved d tm'. scan_loop t wanted msg ev now is n (Shared_store tm) c = (Inr (n + of_nat (length moved)), d) \<and>
    scanned t ev moved tm c tm' d \<and> subseq moved is \<and>
    (\<forall>i \<in> set is. if i \<in> set moved then scan_verdict wanted now c i
       else scan_verdict wanted now c i \<longrightarrow> \<not> tier_manager_has_capacity t tm')"
  using assms(1-3)
proof (induction "is" arbitrary: n c tm)
  case Nil
  then show ?case by (intro exI [of _ "[]"] exI [of _ c] exI [of _ tm]) (simp add: return_with_def scanned_none)
next
  case (Cons i "is")
  show ?case
  proof (cases "tier_manager_has_capacity t tm")
    case False
    then show ?thesis
      using scanned_none [OF Cons.prems(1)]
      by (intro exI [of _ "[]"] exI [of _ c] exI [of _ tm]) (simp add: return_with_def)
  next
    case cap: True
    have res: "resident i f tm" and rest: "\<forall>j \<in> set is. resident j f tm" and dist: "i \<notin> set is" "distinct is"
      using Cons.prems by simp_all
    obtain fs where fs: "build_features (bm_store (cc_manager c)) (cc_index c) i now = Inr fs"
      using build_features_ok [OF tiered_invD_core(3) tiered_invD(6)] Cons.prems(1) res by blast
    show ?thesis
    proof (cases "wanted fs")
      case False
      from Cons.IH [OF Cons.prems(1) dist(2) rest, of n] obtain moved d tm' where
        "scan_loop t wanted msg ev now is n (Shared_store tm) c = (Inr (n + of_nat (length moved)), d)"
        "scanned t ev moved tm c tm' d" "subseq moved is"
        "\<forall>i \<in> set is. if i \<in> set moved then scan_verdict wanted now c i
           else scan_verdict wanted now c i \<longrightarrow> \<not> tier_manager_has_capacity t tm'" by blast
      moreover from this(3) dist have "i \<notin> set moved" using subseqD(1) by blast
      ultimately show ?thesis using False cap fs
        by (intro exI [of _ moved] exI [of _ d] exI [of _ tm']) (auto simp: scan_verdict_def)
    next
      case True
      obtain r c2 tm1 where mv: "on_tiers (Shared_store tm) (tier_manager_move msg i t) c = (Inr r, c2)"
        "to_status r = Success" "cc_tiers c2 = Some (Shared_store tm1)"
        "scanned t ev [i] tm c tm1 (emit_event (ev i) c2)"
        by (rule scanned_step [OF Cons.prems(1) res cap ft])
      let ?c2 = "emit_event (ev i) c2"
      have s: "tiered_inv tm1 ?c2" "\<forall>j \<in> set is. resident j f tm1"
        using mv(4) rest dist(1) by (auto simp: scanned_def)
      from Cons.IH [OF s(1) dist(2) s(2), of "n + 1"] obtain moved d tm' where
        run: "scan_loop t wanted msg ev now is (n + 1) (Shared_store tm1) ?c2 = (Inr (n + 1 + of_nat (length moved)), d)"
        and d: "scanned t ev moved tm1 ?c2 tm' d" "subseq moved is"
        "\<forall>i \<in> set is. if i \<in> set moved then scan_verdict wanted now ?c2 i
           else scan_verdict wanted now ?c2 i \<longrightarrow> \<not> tier_manager_has_capacity t tm'" by blast
      have "scan_verdict wanted now ?c2 j = scan_verdict wanted now c j" if "j \<in> set is" for j
      proof -
        have "has_block j (cc_manager c)" "j \<noteq> i" using tiered_invD(6) [OF Cons.prems(1)] rest that dist(1) by auto
        then show ?thesis
          using mv(4) build_features_same [of j "bm_store (cc_manager c)" "bm_store (cc_manager ?c2)" "cc_index c" now]
          by (simp add: scan_verdict_def scanned_def)
      qed
      moreover have "scan_verdict wanted now c i" using True fs by (simp add: scan_verdict_def)
      moreover have "scanned t ev (i # moved) tm c tm' d" using scanned_trans [OF mv(4) d(1)] by simp
      moreover have "scan_loop t wanted msg ev now (i # is) n (Shared_store tm) c =
          (Inr (n + of_nat (length (i # moved))), d)"
        using cap fs True mv(1-3) run by (simp add: add.assoc)
      ultimately show ?thesis using d(2,3)
        by (intro exI [of _ "i # moved"] exI [of _ d] exI [of _ tm']) auto
    qed
  qed
qed

lemma scan_moves_wanted:
  assumes inv: "tiered_inv tm c" and "is": "distinct is" "\<And>i. i \<in> set is \<longleftrightarrow> resident i f tm" and ft: "f \<noteq> t"
  shows "\<exists>moved d tm'. scan_loop t wanted msg ev now is 0 (Shared_store tm) c = (Inr (of_nat (length moved)), d) \<and>
    scanned t ev moved tm c tm' d \<and> distinct moved \<and>
    (\<forall>i. i \<in> set moved \<longrightarrow> resident i f tm \<and> scan_verdict wanted now c i) \<and>
    (\<forall>i. resident i f tm \<and> i \<notin> set moved \<and> scan_verdict wanted now c i \<longrightarrow>
       \<not> tier_manager_has_capacity t tm')"
proof -
  have "\<forall>i \<in> set is. resident i f tm" using "is"(2) by blast
  from scan_loop_ok [OF inv "is"(1) this ft, where wanted = wanted and msg = msg and ev = ev and now = now and n = 0]
  obtain moved d tm' where m: "scan_loop t wanted msg ev now is 0 (Shared_store tm) c = (Inr (0 + of_nat (length moved)), d)"
    "scanned t ev moved tm c tm' d" "subseq moved is"
    "\<forall>i \<in> set is. if i \<in> set moved then scan_verdict wanted now c i
       else scan_verdict wanted now c i \<longrightarrow> \<not> tier_manager_has_capacity t tm'" by blast
  have "i \<in> set moved \<longrightarrow> resident i f tm \<and> scan_verdict wanted now c i" for i
    using m(4) subseqD(1) [OF m(3)] "is"(2) [of i] by (meson subsetD)
  moreover have "resident i f tm \<and> i \<notin> set moved \<and> scan_verdict wanted now c i \<longrightarrow> \<not> tier_manager_has_capacity t tm'" for i
    using m(4) "is"(2) [of i] by (metis (full_types))
  moreover have "distinct moved" by (rule subseqD(2) [OF m(3) "is"(1)])
  ultimately show ?thesis using m(1,2) by (intro exI [of _ moved] exI [of _ d] exI [of _ tm']) simp
qed

section \<open>The two scans\<close>

definition promotion_context :: "u64 \<Rightarrow> tier_manager \<Rightarrow> scan_context" where
  "promotion_context now tm = \<lparr>sc_gpu_sim_used_blocks = st_used_blocks (tier_manager_stats GpuSim tm),
     sc_gpu_sim_capacity_blocks = st_capacity_blocks (tier_manager_stats GpuSim tm), sc_timestamp_ns = now\<rparr>"

text \<open>C11: a promotion scan on a consistent tiered cache. Whatever order the block set is visited in and
  whatever the policy decides, \<open>runScan\<close> never throws. The blocks it counts are distinct, were in the host
  tier and are wanted by the policy as their features stood at the start; they are now in the GPU
  tier, each with its event in order. A wanted block stays behind only when the GPU tier is full at the
  end. Apart from the tier of these blocks no record changes, nor does the index or the pool, and the tiers
  stay within their bounds and agree with the records.\<close>

theorem promotion_scan_moves_wanted:
  assumes inv: "tiered_inv tm c" and host: "tier_of Host tm = Some ts"
    and enum: "distinct (enum (ts_ids ts))" "set (enum (ts_ids ts)) = ts_ids ts"
  shows "\<exists>moved d tm'. promotion_scan enum pol now (Shared_store tm) c = (Inr (of_nat (length moved)), d) \<and>
    scanned GpuSim (\<lambda>i. Block_promoted i Host GpuSim now) moved tm c tm' d \<and> distinct moved \<and>
    (\<forall>i. i \<in> set moved \<longrightarrow> resident i Host tm \<and>
       scan_verdict (\<lambda>f. mp_decide pol (promotion_context now tm) f = Promote) now c i) \<and>
    (\<forall>i. resident i Host tm \<and> i \<notin> set moved \<and>
       scan_verdict (\<lambda>f. mp_decide pol (promotion_context now tm) f = Promote) now c i \<longrightarrow>
       \<not> tier_manager_has_capacity GpuSim tm')"
proof -
  have host_ids: "resident i Host tm \<longleftrightarrow> i \<in> set (enum (ts_ids ts))" for i using host enum(2) by (simp add: resident_def)
  have "promotion_scan enum pol now (Shared_store tm) c =
      promotion_loop pol (promotion_context now tm) now (enum (ts_ids ts)) 0 (Shared_store tm) c"
    using host by (simp add: promotion_scan_def tier_manager_store_def promotion_context_def Let_def)
  then show ?thesis
    using scan_moves_wanted [OF inv enum(1) host_ids [symmetric], of GpuSim] unfolding promotion_loop_scan by simp
qed

text \<open>C12: a demotion scan, the other way round: the blocks it counts are distinct, were in the GPU tier and are
  those the policy wants to demote, and they are now in the host tier; a block that should go stays
  only when the host tier is full at the end. It never throws and changes nothing else.\<close>

theorem demotion_scan_moves_wanted:
  assumes inv: "tiered_inv tm c" and gpu: "tier_of GpuSim tm = Some ts"
    and enum: "distinct (enum (ts_ids ts))" "set (enum (ts_ids ts)) = ts_ids ts"
  shows "\<exists>moved d tm'. demotion_scan enum pol now (Shared_store tm) c = (Inr (of_nat (length moved)), d) \<and>
    scanned Host (\<lambda>i. Block_demoted i GpuSim Host now) moved tm c tm' d \<and> distinct moved \<and>
    (\<forall>i. i \<in> set moved \<longrightarrow> resident i GpuSim tm \<and>
       scan_verdict (\<lambda>f. dp_decide pol (promotion_context now tm) f = Demote) now c i) \<and>
    (\<forall>i. resident i GpuSim tm \<and> i \<notin> set moved \<and>
       scan_verdict (\<lambda>f. dp_decide pol (promotion_context now tm) f = Demote) now c i \<longrightarrow>
       \<not> tier_manager_has_capacity Host tm')"
proof -
  have gpu_ids: "resident i GpuSim tm \<longleftrightarrow> i \<in> set (enum (ts_ids ts))" for i using gpu enum(2) by (simp add: resident_def)
  have "demotion_scan enum pol now (Shared_store tm) c =
      demotion_loop pol (promotion_context now tm) now (enum (ts_ids ts)) 0 (Shared_store tm) c"
    using gpu by (simp add: demotion_scan_def tier_manager_store_def promotion_context_def Let_def)
  then show ?thesis
    using scan_moves_wanted [OF inv enum(1) gpu_ids [symmetric], of Host] unfolding demotion_loop_scan by simp
qed

text \<open>The block of the example, in the GPU tier and moved to the host.\<close>

definition demote_all :: demotion_policy where
  "demote_all = \<lparr>dp_name = ''all'', dp_decide = (\<lambda>_ _. Demote)\<rparr>"

definition promote_all :: promotion_policy where
  "promote_all = \<lparr>mp_name = ''all'', mp_decide = (\<lambda>_ _. Promote)\<rparr>"

definition demoted_core :: cache_core where
  "demoted_core = snd (on_tiers (Shared_store demo_tiers) (tier_manager_demote 0 Host) tiered_demo_core)"

lemma demo_tiers_resident: "resident i t demo_tiers \<longleftrightarrow> i = 0 \<and> t = GpuSim"
  by (auto simp: demo_tiers_def resident_set_tier_store) (auto simp: resident_def dest: tier_of_make_tiers)

lemma demoted_core:
  obtains tm ts where "tiered_inv tm demoted_core" "tier_of Host tm = Some ts" "ts_ids ts = {0}"
proof -
  have res0: "resident 0 GpuSim demo_tiers" and ne: "GpuSim \<noteq> Host" by (simp_all add: demo_tiers_resident)
  have "tier_manager_has_capacity Host demo_tiers"
    by (simp add: demo_tiers_def tier_manager_has_capacity_def) (simp add: tier_of_def make_tiers_def
        tier_has_capacity_def make_tier_store_def)
  then obtain r c2 tm' where
    mv: "on_tiers (Shared_store demo_tiers) (tier_manager_move ''TierManager::demote: unknown target tier'' 0 Host)
      tiered_demo_core = (Inr r, c2)" "to_status r = Success" "tiered_inv tm' c2"
    and res: "\<forall>j u. resident j u tm' \<longleftrightarrow> (if j = 0 then u = Host else resident j u demo_tiers)"
    and "untiered c2 = (untiered tiered_demo_core)\<lparr>cc_manager :=
      put_block 0 ((block_of 0 (cc_manager tiered_demo_core))\<lparr>br_tier := Host\<rparr>) (cc_manager tiered_demo_core)\<rparr>"
    by (rule tiered_move [OF tiered_demo_core_inv res0 _ ne])
  have host: "resident j Host tm' \<longleftrightarrow> j = 0" for j using res by (simp add: demo_tiers_resident)
  then obtain ts where ts: "tier_of Host tm' = Some ts" by (auto simp: resident_def)
  moreover have "ts_ids ts = {0}" using host ts by (auto simp: resident_def)
  moreover have "demoted_core = c2" using mv(1) by (simp add: demoted_core_def tier_manager_demote_def)
  ultimately show thesis using that mv(3) by blast
qed

theorem promotion_scan_moves_wanted_witness:
  "\<exists>tm (moved :: block_id list) d. resident 0 Host tm \<and>
    promotion_scan (\<lambda>_. [0]) promote_all 5 (Shared_store tm) demoted_core = (Inr (of_nat (length moved)), d) \<and>
    set moved \<subseteq> {0}"
proof -
  obtain tm ts where tm: "tiered_inv tm demoted_core" "tier_of Host tm = Some ts" "ts_ids ts = {0}" by (rule demoted_core)
  have host: "resident i Host tm \<longleftrightarrow> i = 0" for i using tm by (simp add: resident_def)
  have enum: "distinct [0 :: block_id]" "set [0 :: block_id] = ts_ids ts" using tm(3) by simp_all
  from promotion_scan_moves_wanted [OF tm(1,2), where enum = "\<lambda>_. [0]", OF enum, of promote_all 5]
  obtain moved d where "promotion_scan (\<lambda>_. [0]) promote_all 5 (Shared_store tm) demoted_core =
      (Inr (of_nat (length moved)), d)" "\<forall>i. i \<in> set moved \<longrightarrow> resident i Host tm" by blast
  moreover from this have "set moved \<subseteq> {0}" "resident 0 Host tm" using host by auto
  ultimately show ?thesis by blast
qed

theorem demotion_scan_moves_wanted_witness:
  "\<exists>(moved :: block_id list) d tm. demotion_scan (\<lambda>_. [0]) demote_all 5 (Shared_store demo_tiers) tiered_demo_core =
      (Inr (of_nat (length moved)), d) \<and> set moved \<subseteq> {0} \<and> tiered_inv tm d"
proof -
  obtain ts where ts: "tier_of GpuSim demo_tiers = Some ts" "ts_ids ts = {0}" by (simp add: demo_tiers_def)
  have enum: "distinct [0 :: block_id]" "set [0 :: block_id] = ts_ids ts" using ts(2) by simp_all
  from demotion_scan_moves_wanted [OF tiered_demo_core_inv ts(1), where enum = "\<lambda>_. [0]", OF enum, of demote_all 5]
  obtain moved d tm where "demotion_scan (\<lambda>_. [0]) demote_all 5 (Shared_store demo_tiers) tiered_demo_core =
      (Inr (of_nat (length moved)), d)" "scanned Host (\<lambda>i. Block_demoted i GpuSim Host 5) moved demo_tiers tiered_demo_core tm d"
    "\<forall>i. i \<in> set moved \<longrightarrow> resident i GpuSim demo_tiers" by blast
  moreover from this have "set moved \<subseteq> {0}" "tiered_inv tm d" by (auto simp: scanned_def demo_tiers_resident)
  ultimately show ?thesis by blast
qed

end
