(* ===== verification/Admission_Errors.thy ===== *)
theory Admission_Errors
  imports Cache_Props Tier_Props
begin

text \<open>
  The error path of \<open>admit\<close> behind \<open>TierManager::place\<close>: the tier took no block although space was made
  for one. As long as tiers and records agree an eviction leaves room (\<open>eviction_frees_tier\<close> in
  \<open>Tier_Eviction\<close>), so the path is a guard against a tier manager whose tiers and whose caches'
  records have come apart.
\<close>

lemma place_in_full_tier:
  assumes "tier_of t (link_tiers link) = Some ts" "\<not> tier_has_capacity ts" "cc_tiers c = Some link"
  shows "on_tiers link (tier_manager_place i t bytes) c =
    (Inr \<lparr>to_status = Capacity_exceeded, to_latency_ns = 0\<rparr>, c)"
proof -
  have "c\<lparr>cc_tiers := Some link\<rparr> = c" using assms(3) by (cases c) simp
  moreover have "c\<lparr>cc_tiers := Some link, cc_manager := (cc_manager c)\<lparr>bm_store := bm_store (cc_manager c)\<rparr>\<rparr> = c"
    using assms(3) by (cases c) simp
  ultimately show ?thesis
    using assms(1,2) by (cases link) (simp_all add: on_tiers_def tier_manager_place_def return_with_def)
qed

text \<open>C17: the error path throws. When the target tier is full at the time the new block is placed, \<open>admit\<close>
  means to give the slot back and to report \<open>CapacityExceeded\<close>; but it calls \<open>freeBlock\<close>, which
  expects a block in state \<open>Evicting\<close>, on one in state \<open>Admitting\<close>. The call always throws a logic error
  and the slot stays taken, in state \<open>Admitting\<close>, which nothing ever evicts.\<close>

theorem capacity_error_path_throws:
  assumes "cc_tiers c = Some link" "tier_of target (link_tiers link) = Some ts" "\<not> tier_has_capacity ts"
    and "manager_inv (cc_manager c)" "has_block i (cc_manager c)" "br_state (block_of i (cc_manager c)) = Admitting"
  shows "\<exists>msg. admit_new_block now cfg ch cand stamp target existing i c = (Inl (Logic_error msg), c) \<and>
    pool_live (bm_pool (cc_manager c)) i \<and> \<not> evictable (block_of i (cc_manager c))"
proof -
  have "\<not> transition_guard i Evicting Free (cc_manager c)" using assms(6) by (simp add: transition_guard_def)
  then obtain msg where "manager_free_block i (cc_manager c) = (Inl (Logic_error msg), cc_manager c)"
    using manager_transition_not_guard unfolding manager_free_block_def by blast
  then have "admit_new_block now cfg ch cand stamp target existing i c = (Inl (Logic_error msg), c)"
    using assms(1) place_in_full_tier [OF assms(2,3,1)]
    by (simp add: admit_new_block_def on_manager_def on_member_def return_with_def)
  moreover have "pool_live (bm_pool (cc_manager c)) i" by (rule ready_live [OF assms(4,5)]) (simp add: assms(6))
  ultimately show ?thesis using assms(6) by (auto simp: evictable_def)
qed

text \<open>A manager of two slots with one new block, and tiers without room.\<close>

definition full_tiers_core :: cache_core where
  "full_tiers_core = (make_core 2 2 (Some (Shared_store (make_tiers 0 0 1 4 (constant_latency 0 0 0 0))))
     Null_event_sink Null_decision_logger)
     \<lparr>cc_manager := snd (manager_create_block demo_hash 0 2 GpuSim (make_manager 2))\<rparr>"

theorem capacity_error_path_throws_witness:
  "\<exists>msg. admit_new_block 5 lru_config 7 (demo_candidate 1 0 [1, 2]) 5 GpuSim [] 0 full_tiers_core =
     (Inl (Logic_error msg), full_tiers_core)"
proof -
  let ?tm = "make_tiers 0 0 1 4 (constant_latency 0 0 0 0)" and ?m = "cc_manager full_tiers_core"
  have link: "cc_tiers full_tiers_core = Some (Shared_store ?tm)" by (simp add: full_tiers_core_def make_core_def)
  have full: "tier_of GpuSim (link_tiers (Shared_store ?tm)) = Some (make_tier_store 0)"
    "\<not> tier_has_capacity (make_tier_store 0)"
    by (simp_all add: tier_of_def make_tiers_def tier_has_capacity_def make_tier_store_def)
  have "manager_inv ?m"
    using manager_inv_create_block [OF manager_inv_make prod.collapse [symmetric]] by (simp add: full_tiers_core_def)
  moreover have "has_block 0 ?m \<and> br_state (block_of 0 ?m) = Admitting" by code_simp
  ultimately show ?thesis using capacity_error_path_throws [OF link full] by blast
qed

end
