(* ===== verification/Config.thy ===== *)
theory Config
  imports Double Sim
begin

text \<open>
  \<open>config/config.{h,cc}\<close> and \<open>policy/policy_registry.{h,cc}\<close>: reading a configuration and making
  the policies it names.

  The JSON library is not part of the sources. Its accessors are the argument \<open>lib\<close>: \<open>at(key)\<close>,
  \<open>get<string>()\<close>, \<open>get<uint64_t>()\<close>, \<open>get<uint32_t>()\<close>, \<open>items()\<close> and \<open>value(key, default)\<close>, each of
  which may throw a JSON exception with a message. The laws that the round trip needs of them
  are a locale, interpreted on the JSON values of \<^theory_text>\<open>Sim\<close>.
\<close>

section \<open>Configuration data\<close>

datatype payload_mode = Metadata_only | Small | Realistic

record node_config =
  nc_node_id :: node_id
  nc_name :: string

record tier_capacity_config =
  tc_capacity_blocks :: u32

record cache_config =
  cx_payload_mode :: payload_mode
  cx_tiers :: "(string \<times> tier_capacity_config) list"

record policy_config =
  pl_admission :: string
  pl_eviction :: string
  pl_tier_placement :: string
  pl_promotion :: string
  pl_demotion :: string
  pl_routing :: string
  pl_replica_selection :: string
  pl_prefetch :: string
  pl_latency :: string

record latency_params =
  lp_local_lookup_ns :: u64
  lp_tier_access_ns :: u64
  lp_migration_ns :: u64
  lp_network_fetch_ns :: u64

record latency_config =
  lg_model :: string
  lg_params :: latency_params

record workload_config =
  wc_kind :: string
  wc_seed :: u32
  wc_requests :: u32

record output_config =
  oc_events_path :: string
  oc_decisions_path :: string
  oc_stats_path :: string

record config =
  cg_node :: node_config
  cg_cache :: cache_config
  cg_context :: cache_key_context
  cg_policies :: policy_config
  cg_latency :: latency_config
  cg_workload :: workload_config
  cg_output :: output_config

section \<open>The JSON library\<close>

text \<open>A JSON exception carries its \<open>what()\<close>; the other errors of the parser are the program's
  own \<open>runtime_error\<close>s.\<close>

datatype config_error = Json_exception string | Config_error string

type_synonym 'a parsed = "config_error + 'a"

record 'j json_lib =
  jl_at :: "string \<Rightarrow> 'j \<Rightarrow> 'j parsed"
  jl_string :: "'j \<Rightarrow> string parsed"
  jl_u64 :: "'j \<Rightarrow> u64 parsed"
  jl_u32 :: "'j \<Rightarrow> u32 parsed"
  jl_items :: "'j \<Rightarrow> (string \<times> 'j) list"
  jl_value_u64 :: "string \<Rightarrow> u64 \<Rightarrow> 'j \<Rightarrow> u64 parsed"

text \<open>\<open>e; k\<close>: the next initialiser runs when this one did not throw.\<close>

definition parse_bind :: "'a parsed \<Rightarrow> ('a \<Rightarrow> 'b parsed) \<Rightarrow> 'b parsed" where
  "parse_bind r k = (case r of Inl e \<Rightarrow> Inl e | Inr x \<Rightarrow> k x)"

lemma parse_bind_simps [simp]:
  "parse_bind (Inl e) k = Inl e" "parse_bind (Inr x) k = k x"
  by (simp_all add: parse_bind_def)

definition get_string :: "'j json_lib \<Rightarrow> string \<Rightarrow> 'j \<Rightarrow> string parsed" where
  "get_string lib k j = parse_bind (jl_at lib k j) (jl_string lib)"

definition get_u64 :: "'j json_lib \<Rightarrow> string \<Rightarrow> 'j \<Rightarrow> u64 parsed" where
  "get_u64 lib k j = parse_bind (jl_at lib k j) (jl_u64 lib)"

definition get_u32 :: "'j json_lib \<Rightarrow> string \<Rightarrow> 'j \<Rightarrow> u32 parsed" where
  "get_u32 lib k j = parse_bind (jl_at lib k j) (jl_u32 lib)"

section \<open>Parsing\<close>

definition parse_payload_mode :: "string \<Rightarrow> payload_mode parsed" where
  "parse_payload_mode s =
     (if s = ''metadata_only'' then Inr Metadata_only
      else if s = ''small'' then Inr Small
      else if s = ''realistic'' then Inr Realistic
      else Inl (Config_error (''config: unknown payload_mode: '' @ s)))"

definition parse_dtype :: "string \<Rightarrow> dtype parsed" where
  "parse_dtype s =
     (if s = ''BF16'' then Inr BF16
      else if s = ''FP16'' then Inr FP16
      else if s = ''FP32'' then Inr FP32
      else if s = ''INT8'' then Inr INT8
      else Inl (Config_error (''config: unknown dtype: '' @ s)))"

definition parse_node :: "'j json_lib \<Rightarrow> 'j \<Rightarrow> node_config parsed" where
  "parse_node lib j =
     parse_bind (get_u64 lib ''node_id'' j) (\<lambda>i.
     parse_bind (get_string lib ''name'' j) (\<lambda>n.
     Inr \<lparr>nc_node_id = i, nc_name = n\<rparr>))"

fun parse_tiers ::
  "'j json_lib \<Rightarrow> (string \<times> 'j) list \<Rightarrow> (string \<times> tier_capacity_config) list \<Rightarrow>
   (string \<times> tier_capacity_config) list parsed" where
  "parse_tiers lib [] acc = Inr acc"
| "parse_tiers lib ((t, tj) # rest) acc =
     parse_bind (get_u32 lib ''capacity_blocks'' tj) (\<lambda>cap.
     parse_tiers lib rest (AList.update t \<lparr>tc_capacity_blocks = cap\<rparr> acc))"

definition parse_cache :: "'j json_lib \<Rightarrow> 'j \<Rightarrow> cache_config parsed" where
  "parse_cache lib j =
     parse_bind (parse_bind (get_string lib ''payload_mode'' j) parse_payload_mode) (\<lambda>mode.
     parse_bind (jl_at lib ''tiers'' j) (\<lambda>tj.
     parse_bind (parse_tiers lib (jl_items lib tj) []) (\<lambda>tiers.
     Inr \<lparr>cx_payload_mode = mode, cx_tiers = tiers\<rparr>)))"

definition parse_context :: "'j json_lib \<Rightarrow> 'j \<Rightarrow> cache_key_context parsed" where
  "parse_context lib j =
     parse_bind (get_u64 lib ''model_id'' j) (\<lambda>model.
     parse_bind (get_u64 lib ''tokenizer_id'' j) (\<lambda>tokenizer.
     parse_bind (get_u32 lib ''block_size'' j) (\<lambda>bs.
     parse_bind (parse_bind (get_string lib ''dtype'' j) parse_dtype) (\<lambda>dt.
     parse_bind (get_u32 lib ''num_layers'' j) (\<lambda>layers.
     parse_bind (get_u32 lib ''num_kv_heads'' j) (\<lambda>heads.
     parse_bind (get_u32 lib ''head_dim'' j) (\<lambda>dim.
     parse_bind (get_u64 lib ''rope_config_hash'' j) (\<lambda>rope.
     parse_bind (get_u64 lib ''kv_layout_hash'' j) (\<lambda>layout.
     Inr \<lparr>ck_model_id = model, ck_tokenizer_id = tokenizer, ck_block_size = bs, ck_dtype = dt,
       ck_num_layers = layers, ck_num_kv_heads = heads, ck_head_dim = dim,
       ck_rope_config_hash = rope, ck_kv_layout_hash = layout\<rparr>)))))))))"

definition parse_policies :: "'j json_lib \<Rightarrow> 'j \<Rightarrow> policy_config parsed" where
  "parse_policies lib j =
     parse_bind (get_string lib ''admission'' j) (\<lambda>admission.
     parse_bind (get_string lib ''eviction'' j) (\<lambda>eviction.
     parse_bind (get_string lib ''tier_placement'' j) (\<lambda>placement.
     parse_bind (get_string lib ''promotion'' j) (\<lambda>promotion.
     parse_bind (get_string lib ''demotion'' j) (\<lambda>demotion.
     parse_bind (get_string lib ''routing'' j) (\<lambda>routing.
     parse_bind (get_string lib ''replica_selection'' j) (\<lambda>replica.
     parse_bind (get_string lib ''prefetch'' j) (\<lambda>prefetch.
     parse_bind (get_string lib ''latency'' j) (\<lambda>latency.
     Inr \<lparr>pl_admission = admission, pl_eviction = eviction, pl_tier_placement = placement,
       pl_promotion = promotion, pl_demotion = demotion, pl_routing = routing,
       pl_replica_selection = replica, pl_prefetch = prefetch, pl_latency = latency\<rparr>)))))))))"

definition parse_latency :: "'j json_lib \<Rightarrow> 'j \<Rightarrow> latency_config parsed" where
  "parse_latency lib j =
     parse_bind (jl_at lib ''params'' j) (\<lambda>params.
     parse_bind (get_string lib ''model'' j) (\<lambda>model.
     parse_bind (jl_value_u64 lib ''local_lookup_ns'' 1000 params) (\<lambda>a.
     parse_bind (jl_value_u64 lib ''tier_access_ns'' 5000 params) (\<lambda>b.
     parse_bind (jl_value_u64 lib ''migration_ns'' 50000 params) (\<lambda>c.
     parse_bind (jl_value_u64 lib ''network_fetch_ns'' 500000 params) (\<lambda>d.
     Inr \<lparr>lg_model = model, lg_params = \<lparr>lp_local_lookup_ns = a, lp_tier_access_ns = b,
       lp_migration_ns = c, lp_network_fetch_ns = d\<rparr>\<rparr>))))))"

definition parse_workload :: "'j json_lib \<Rightarrow> 'j \<Rightarrow> workload_config parsed" where
  "parse_workload lib j =
     parse_bind (get_string lib ''kind'' j) (\<lambda>kind.
     parse_bind (get_u32 lib ''seed'' j) (\<lambda>seed.
     parse_bind (get_u32 lib ''requests'' j) (\<lambda>requests.
     Inr \<lparr>wc_kind = kind, wc_seed = seed, wc_requests = requests\<rparr>)))"

definition parse_output :: "'j json_lib \<Rightarrow> 'j \<Rightarrow> output_config parsed" where
  "parse_output lib j =
     parse_bind (get_string lib ''events_path'' j) (\<lambda>events.
     parse_bind (get_string lib ''decisions_path'' j) (\<lambda>decisions.
     parse_bind (get_string lib ''stats_path'' j) (\<lambda>stats.
     Inr \<lparr>oc_events_path = events, oc_decisions_path = decisions, oc_stats_path = stats\<rparr>)))"

definition parse_config :: "'j json_lib \<Rightarrow> 'j \<Rightarrow> config parsed" where
  "parse_config lib j =
     parse_bind (parse_bind (jl_at lib ''node'' j) (parse_node lib)) (\<lambda>node.
     parse_bind (parse_bind (jl_at lib ''cache'' j) (parse_cache lib)) (\<lambda>cache.
     parse_bind (parse_bind (jl_at lib ''context'' j) (parse_context lib)) (\<lambda>ctx.
     parse_bind (parse_bind (jl_at lib ''policies'' j) (parse_policies lib)) (\<lambda>policies.
     parse_bind (parse_bind (jl_at lib ''latency'' j) (parse_latency lib)) (\<lambda>latency.
     parse_bind (parse_bind (jl_at lib ''workload'' j) (parse_workload lib)) (\<lambda>workload.
     parse_bind (parse_bind (jl_at lib ''output'' j) (parse_output lib)) (\<lambda>out.
     Inr \<lparr>cg_node = node, cg_cache = cache, cg_context = ctx, cg_policies = policies,
       cg_latency = latency, cg_workload = workload, cg_output = out\<rparr>)))))))"

text \<open>\<open>Config::fromJsonString\<close> and \<open>Config::fromFile\<close>: the library's \<open>parse\<close> is an argument, and so
  is reading the file. JSON exceptions become \<open>runtime_error\<close>s, the others pass.\<close>

definition as_runtime_error :: "string \<Rightarrow> 'a parsed \<Rightarrow> 'a outcome" where
  "as_runtime_error prefix r =
     (case r of
        Inr x \<Rightarrow> Inr x
      | Inl (Json_exception what) \<Rightarrow> Inl (Runtime_error (prefix @ what))
      | Inl (Config_error msg) \<Rightarrow> Inl (Runtime_error msg))"

definition config_from_string :: "'j json_lib \<Rightarrow> (string \<Rightarrow> 'j parsed) \<Rightarrow> string \<Rightarrow> config outcome" where
  "config_from_string lib parse s =
     as_runtime_error ''config: parse error: '' (parse_bind (parse s) (parse_config lib))"

definition config_from_file ::
  "'j json_lib \<Rightarrow> (string \<Rightarrow> 'j parsed) \<Rightarrow> (string \<Rightarrow> string option) \<Rightarrow> string \<Rightarrow> config outcome" where
  "config_from_file lib parse read_file path =
     (case read_file path of
        None \<Rightarrow> Inl (Runtime_error (''config: cannot open file: '' @ path))
      | Some s \<Rightarrow> as_runtime_error (''config: parse error in '' @ path @ '': '')
          (parse_bind (parse s) (parse_config lib)))"

section \<open>Policy registry\<close>

datatype routing_policy = Random_routing | Hash_first_block_routing

datatype latency_choice = Constant_latency latency_model | Bandwidth_latency bandwidth_model

datatype prefetch_policy = No_prefetch

record policy_registry =
  rg_admission :: admission_policy
  rg_eviction :: eviction_policy
  rg_tier_placement :: placement_policy
  rg_promotion :: promotion_policy
  rg_demotion :: demotion_policy
  rg_routing :: routing_policy
  rg_replica_selection :: replica_policy
  rg_prefetch :: prefetch_policy
  rg_latency :: latency_choice

definition unknown_policy :: "string \<Rightarrow> string \<Rightarrow> exn" where
  "unknown_policy kind name = Runtime_error (''policy_registry: unknown '' @ kind @ '': '' @ name)"

definition make_admission :: "string \<Rightarrow> admission_policy outcome" where
  "make_admission n = (if n = ''always_admit'' then Inr always_admit
     else Inl (unknown_policy ''admission policy'' n))"

definition make_eviction :: "string \<Rightarrow> eviction_policy outcome" where
  "make_eviction n = (if n = ''lru'' then Inr lru_eviction
     else if n = ''prefix_aware'' then Inr prefix_aware_eviction
     else Inl (unknown_policy ''eviction policy'' n))"

definition make_tier_placement :: "string \<Rightarrow> placement_policy outcome" where
  "make_tier_placement n = (if n = ''gpu_first'' then Inr gpu_first_placement
     else Inl (unknown_policy ''tier_placement policy'' n))"

definition make_promotion :: "string \<Rightarrow> promotion_policy outcome" where
  "make_promotion n = (if n = ''no_promotion'' then Inr no_promotion
     else Inl (unknown_policy ''promotion policy'' n))"

definition make_demotion :: "string \<Rightarrow> demotion_policy outcome" where
  "make_demotion n = (if n = ''no_demotion'' then Inr no_demotion
     else Inl (unknown_policy ''demotion policy'' n))"

definition make_routing :: "string \<Rightarrow> routing_policy outcome" where
  "make_routing n = (if n = ''random'' then Inr Random_routing
     else if n = ''hash_first_block'' then Inr Hash_first_block_routing
     else Inl (unknown_policy ''routing policy'' n))"

definition make_replica_selection :: "string \<Rightarrow> replica_policy outcome" where
  "make_replica_selection n = (if n = ''first'' then Inr first_replica
     else Inl (unknown_policy ''replica_selection policy'' n))"

definition make_prefetch :: "string \<Rightarrow> prefetch_policy outcome" where
  "make_prefetch n = (if n = ''none'' then Inr No_prefetch
     else Inl (unknown_policy ''prefetch policy'' n))"

definition make_latency :: "string \<Rightarrow> latency_params \<Rightarrow> latency_choice outcome" where
  "make_latency n p = (if n = ''constant'' then Inr (Constant_latency
       (constant_latency (lp_local_lookup_ns p) (lp_tier_access_ns p) (lp_migration_ns p)
         (lp_network_fetch_ns p)))
     else if n = ''bandwidth'' then Inr (Bandwidth_latency default_bandwidth_model)
     else Inl (unknown_policy ''latency model'' n))"

definition outcome_bind :: "'a outcome \<Rightarrow> ('a \<Rightarrow> 'b outcome) \<Rightarrow> 'b outcome" where
  "outcome_bind r k = (case r of Inl e \<Rightarrow> Inl e | Inr x \<Rightarrow> k x)"

definition registry_from_config :: "policy_config \<Rightarrow> latency_params \<Rightarrow> policy_registry outcome" where
  "registry_from_config cfg params =
     outcome_bind (make_admission (pl_admission cfg)) (\<lambda>admission.
     outcome_bind (make_eviction (pl_eviction cfg)) (\<lambda>eviction.
     outcome_bind (make_tier_placement (pl_tier_placement cfg)) (\<lambda>placement.
     outcome_bind (make_promotion (pl_promotion cfg)) (\<lambda>promotion.
     outcome_bind (make_demotion (pl_demotion cfg)) (\<lambda>demotion.
     outcome_bind (make_routing (pl_routing cfg)) (\<lambda>routing.
     outcome_bind (make_replica_selection (pl_replica_selection cfg)) (\<lambda>replica.
     outcome_bind (make_prefetch (pl_prefetch cfg)) (\<lambda>prefetch.
     outcome_bind (make_latency (pl_latency cfg) params) (\<lambda>latency.
     Inr \<lparr>rg_admission = admission, rg_eviction = eviction, rg_tier_placement = placement,
       rg_promotion = promotion, rg_demotion = demotion, rg_routing = routing,
       rg_replica_selection = replica, rg_prefetch = prefetch, rg_latency = latency\<rparr>)))))))))"

end
