(* ===== verification/Config_Props.thy ===== *)
theory Config_Props
  imports Config
begin

text \<open>
  A configuration written out as JSON is read back unchanged, through any JSON library that obeys
  the stated laws; the registry makes policies exactly for the names it knows.
\<close>

section \<open>Writing a configuration\<close>

record 'j json_build =
  jb_object :: "(string \<times> 'j) list \<Rightarrow> 'j"
  jb_string :: "string \<Rightarrow> 'j"
  jb_number :: "u64 \<Rightarrow> 'j"

fun payload_mode_name :: "payload_mode \<Rightarrow> string" where
  "payload_mode_name Metadata_only = ''metadata_only''"
| "payload_mode_name Small = ''small''"
| "payload_mode_name Realistic = ''realistic''"

definition render_tiers :: "'j json_build \<Rightarrow> (string \<times> tier_capacity_config) list \<Rightarrow> (string \<times> 'j) list" where
  "render_tiers b ts =
     map (\<lambda>(n, t). (n, jb_object b [(''capacity_blocks'', jb_number b (ucast (tc_capacity_blocks t)))])) ts"

definition render_node :: "'j json_build \<Rightarrow> node_config \<Rightarrow> 'j" where
  "render_node b n = jb_object b
     [(''node_id'', jb_number b (nc_node_id n)), (''name'', jb_string b (nc_name n))]"

definition render_cache :: "'j json_build \<Rightarrow> cache_config \<Rightarrow> 'j" where
  "render_cache b c = jb_object b
     [(''payload_mode'', jb_string b (payload_mode_name (cx_payload_mode c))),
      (''tiers'', jb_object b (render_tiers b (cx_tiers c)))]"

definition render_context :: "'j json_build \<Rightarrow> cache_key_context \<Rightarrow> 'j" where
  "render_context b c = jb_object b
     [(''model_id'', jb_number b (ck_model_id c)),
      (''tokenizer_id'', jb_number b (ck_tokenizer_id c)),
      (''block_size'', jb_number b (ucast (ck_block_size c))),
      (''dtype'', jb_string b (dtype_name (ck_dtype c))),
      (''num_layers'', jb_number b (ucast (ck_num_layers c))),
      (''num_kv_heads'', jb_number b (ucast (ck_num_kv_heads c))),
      (''head_dim'', jb_number b (ucast (ck_head_dim c))),
      (''rope_config_hash'', jb_number b (ck_rope_config_hash c)),
      (''kv_layout_hash'', jb_number b (ck_kv_layout_hash c))]"

definition render_policies :: "'j json_build \<Rightarrow> policy_config \<Rightarrow> 'j" where
  "render_policies b p = jb_object b
     [(''admission'', jb_string b (pl_admission p)), (''eviction'', jb_string b (pl_eviction p)),
      (''tier_placement'', jb_string b (pl_tier_placement p)),
      (''promotion'', jb_string b (pl_promotion p)), (''demotion'', jb_string b (pl_demotion p)),
      (''routing'', jb_string b (pl_routing p)),
      (''replica_selection'', jb_string b (pl_replica_selection p)),
      (''prefetch'', jb_string b (pl_prefetch p)), (''latency'', jb_string b (pl_latency p))]"

definition render_latency :: "'j json_build \<Rightarrow> latency_config \<Rightarrow> 'j" where
  "render_latency b l = jb_object b
     [(''model'', jb_string b (lg_model l)),
      (''params'', jb_object b
         [(''local_lookup_ns'', jb_number b (lp_local_lookup_ns (lg_params l))),
          (''tier_access_ns'', jb_number b (lp_tier_access_ns (lg_params l))),
          (''migration_ns'', jb_number b (lp_migration_ns (lg_params l))),
          (''network_fetch_ns'', jb_number b (lp_network_fetch_ns (lg_params l)))])]"

definition render_workload :: "'j json_build \<Rightarrow> workload_config \<Rightarrow> 'j" where
  "render_workload b w = jb_object b
     [(''kind'', jb_string b (wc_kind w)), (''seed'', jb_number b (ucast (wc_seed w))),
      (''requests'', jb_number b (ucast (wc_requests w)))]"

definition render_output :: "'j json_build \<Rightarrow> output_config \<Rightarrow> 'j" where
  "render_output b p = jb_object b
     [(''events_path'', jb_string b (oc_events_path p)),
      (''decisions_path'', jb_string b (oc_decisions_path p)),
      (''stats_path'', jb_string b (oc_stats_path p))]"

definition render_config :: "'j json_build \<Rightarrow> config \<Rightarrow> 'j" where
  "render_config b c = jb_object b
     [(''node'', render_node b (cg_node c)), (''cache'', render_cache b (cg_cache c)),
      (''context'', render_context b (cg_context c)), (''policies'', render_policies b (cg_policies c)),
      (''latency'', render_latency b (cg_latency c)),
      (''workload'', render_workload b (cg_workload c)), (''output'', render_output b (cg_output c))]"

section \<open>The laws of the accessors\<close>

locale json_access =
  fixes lib :: "'j json_lib" and b :: "'j json_build"
  assumes at_member: "distinct (map fst ms) \<Longrightarrow> map_of ms k = Some v \<Longrightarrow>
      jl_at lib k (jb_object b ms) = Inr v"
    and string_value: "jl_string lib (jb_string b s) = Inr s"
    and u64_value: "jl_u64 lib (jb_number b n) = Inr n"
    and u32_value: "jl_u32 lib (jb_number b n) = Inr (ucast n)"
    and items_members: "distinct (map fst ms) \<Longrightarrow>
      distinct (map fst (jl_items lib (jb_object b ms))) \<and> set (jl_items lib (jb_object b ms)) = set ms"
    and value_member: "distinct (map fst ms) \<Longrightarrow> map_of ms k = Some (jb_number b n) \<Longrightarrow>
      jl_value_u64 lib k d (jb_object b ms) = Inr n"
begin

lemmas access = at_member string_value u64_value u32_value value_member
  get_string_def get_u64_def get_u32_def

lemma parse_render_node: "parse_node lib (render_node b n) = Inr n"
  by (cases n) (simp add: parse_node_def render_node_def access)

lemma parse_render_context: "parse_context lib (render_context b c) = Inr c"
proof -
  have "parse_dtype (dtype_name d) = Inr d" for d by (cases d) (simp_all add: parse_dtype_def)
  then show ?thesis
    by (cases c) (simp add: parse_context_def render_context_def access)
qed

lemma parse_render_policies: "parse_policies lib (render_policies b p) = Inr p"
  by (cases p) (simp add: parse_policies_def render_policies_def access)

lemma parse_render_latency: "parse_latency lib (render_latency b l) = Inr l"
  by (cases l; cases "lg_params l") (simp add: parse_latency_def render_latency_def access)

lemma parse_render_workload: "parse_workload lib (render_workload b w) = Inr w"
  by (cases w) (simp add: parse_workload_def render_workload_def access)

lemma parse_render_output: "parse_output lib (render_output b p) = Inr p"
  by (cases p) (simp add: parse_output_def render_output_def access)

text \<open>The members of an object come in an order of the library's own, so the tiers read are the same
  map, not the same list.\<close>

lemma parse_tiers_map:
  assumes "\<forall>(n, j) \<in> set ms. \<exists>cap. jl_at lib ''capacity_blocks'' j = Inr (jb_number b (ucast cap)) \<and>
      map_of tiers n = Some \<lparr>tc_capacity_blocks = cap\<rparr>"
    and "distinct (map fst ms)"
  shows "\<exists>r. parse_tiers lib ms acc = Inr r \<and>
    map_of r = (\<lambda>n. if n \<in> fst ` set ms then map_of tiers n else map_of acc n)"
  using assms
proof (induction ms arbitrary: acc)
  case (Cons p ms)
  obtain n j where p: "p = (n, j)" by (cases p)
  with Cons.prems obtain cap where cap: "jl_at lib ''capacity_blocks'' j = Inr (jb_number b (ucast cap))"
    "map_of tiers n = Some \<lparr>tc_capacity_blocks = cap\<rparr>" by auto
  from Cons.IH [of "AList.update n \<lparr>tc_capacity_blocks = cap\<rparr> acc"] Cons.prems obtain r where
    "parse_tiers lib ms (AList.update n \<lparr>tc_capacity_blocks = cap\<rparr> acc) = Inr r"
    "map_of r = (\<lambda>m. if m \<in> fst ` set ms then map_of tiers m
       else map_of (AList.update n \<lparr>tc_capacity_blocks = cap\<rparr> acc) m)" by auto
  with cap Cons.prems(2) show ?case
    by (auto simp: p get_u32_def u32_value fun_eq_iff)
qed auto

lemma parse_render_cache:
  assumes "distinct (map fst (cx_tiers c))"
  shows "\<exists>ts. parse_cache lib (render_cache b c) = Inr (c\<lparr>cx_tiers := ts\<rparr>) \<and>
    map_of ts = map_of (cx_tiers c)"
proof -
  let ?ms = "render_tiers b (cx_tiers c)"
  let ?items = "jl_items lib (jb_object b ?ms)"
  have keys: "map fst ?ms = map fst (cx_tiers c)" by (simp add: render_tiers_def case_prod_beta)
  then have items: "distinct (map fst ?items)" "set ?items = set ?ms"
    using assms items_members [of ?ms] by simp_all
  have "\<forall>(n, j) \<in> set ?items. \<exists>cap. jl_at lib ''capacity_blocks'' j = Inr (jb_number b (ucast cap)) \<and>
      map_of (cx_tiers c) n = Some \<lparr>tc_capacity_blocks = cap\<rparr>"
  proof (clarify)
    fix n j assume "(n, j) \<in> set ?items"
    then obtain t where t: "(n, t) \<in> set (cx_tiers c)"
      and j: "j = jb_object b [(''capacity_blocks'', jb_number b (ucast (tc_capacity_blocks t)))]"
      using items by (auto simp: render_tiers_def)
    then show "\<exists>cap. jl_at lib ''capacity_blocks'' j = Inr (jb_number b (ucast cap)) \<and>
      map_of (cx_tiers c) n = Some \<lparr>tc_capacity_blocks = cap\<rparr>"
      using assms by (intro exI [of _ "tc_capacity_blocks t"]) (simp add: at_member)
  qed
  from parse_tiers_map [OF this items(1), of "[]"] obtain ts where
    ts: "parse_tiers lib ?items [] = Inr ts"
      "map_of ts = (\<lambda>n. if n \<in> fst ` set ?items then map_of (cx_tiers c) n else map_of [] n)" by blast
  have "fst ` set ?items = fst ` set (cx_tiers c)"
    using keys items(2) by (metis set_map)
  with ts(2) have "map_of ts = map_of (cx_tiers c)"
    by (auto simp: fun_eq_iff map_of_eq_None_iff [THEN iffD2])
  moreover have "parse_payload_mode (payload_mode_name md) = Inr md" for md
    by (cases md) (simp_all add: parse_payload_mode_def)
  ultimately show ?thesis
    using ts(1) by (intro exI [of _ ts]) (cases c, simp add: parse_cache_def render_cache_def access)
qed

lemma parse_render_config:
  assumes "distinct (map fst (cx_tiers (cg_cache c)))"
  shows "\<exists>ts. parse_config lib (render_config b c) = Inr (c\<lparr>cg_cache := (cg_cache c)\<lparr>cx_tiers := ts\<rparr>\<rparr>) \<and>
    map_of ts = map_of (cx_tiers (cg_cache c))"
proof -
  obtain ts where "parse_cache lib (render_cache b (cg_cache c)) = Inr ((cg_cache c)\<lparr>cx_tiers := ts\<rparr>)"
    "map_of ts = map_of (cx_tiers (cg_cache c))"
    using parse_render_cache [OF assms] by blast
  then show ?thesis
    by (intro exI [of _ ts]) (cases c, simp add: parse_config_def render_config_def access
      parse_render_node parse_render_context parse_render_policies parse_render_latency
      parse_render_workload parse_render_output)
qed

end

section \<open>The JSON values of the development as a library\<close>

fun tree_at :: "string \<Rightarrow> json \<Rightarrow> json parsed" where
  "tree_at k (JObject ms) =
     (case map_of ms k of Some v \<Rightarrow> Inr v | None \<Rightarrow> Inl (Json_exception (''key not found: '' @ k)))"
| "tree_at k _ = Inl (Json_exception ''at() on a value that is no object'')"

fun tree_string :: "json \<Rightarrow> string parsed" where
  "tree_string (JString s) = Inr s"
| "tree_string _ = Inl (Json_exception ''type must be string'')"

fun tree_u64 :: "json \<Rightarrow> u64 parsed" where
  "tree_u64 (JNumber n) = Inr n"
| "tree_u64 _ = Inl (Json_exception ''type must be number'')"

fun tree_items :: "json \<Rightarrow> (string \<times> json) list" where
  "tree_items (JObject ms) = ms"
| "tree_items _ = []"

fun tree_value_u64 :: "string \<Rightarrow> u64 \<Rightarrow> json \<Rightarrow> u64 parsed" where
  "tree_value_u64 k d (JObject ms) = (case map_of ms k of Some v \<Rightarrow> tree_u64 v | None \<Rightarrow> Inr d)"
| "tree_value_u64 k d _ = Inl (Json_exception ''value() on a value that is no object'')"

definition tree_lib :: "json json_lib" where
  "tree_lib = \<lparr>jl_at = tree_at, jl_string = tree_string, jl_u64 = tree_u64,
     jl_u32 = (\<lambda>j. map_sum id ucast (tree_u64 j)), jl_items = tree_items, jl_value_u64 = tree_value_u64\<rparr>"

definition tree_build :: "json json_build" where
  "tree_build = \<lparr>jb_object = JObject, jb_string = JString, jb_number = JNumber\<rparr>"

interpretation tree: json_access tree_lib tree_build
  by unfold_locales (simp_all add: tree_lib_def tree_build_def)

section \<open>Properties\<close>

text \<open>C32: writing any configuration as JSON and parsing it gives the configuration back, every field
  of it, with the tiers as the same map.\<close>

theorem config_roundtrip:
  assumes "distinct (map fst (cx_tiers (cg_cache c)))"
  shows "\<exists>ts. parse_config tree_lib (render_config tree_build c) =
      Inr (c\<lparr>cg_cache := (cg_cache c)\<lparr>cx_tiers := ts\<rparr>\<rparr>) \<and>
    map_of ts = map_of (cx_tiers (cg_cache c))"
  using assms by (rule tree.parse_render_config)

definition demo_config :: config where
  "demo_config = \<lparr>cg_node = \<lparr>nc_node_id = 7, nc_name = ''a''\<rparr>,
     cg_cache = \<lparr>cx_payload_mode = Small, cx_tiers = [(''GPU_SIM'', \<lparr>tc_capacity_blocks = 4\<rparr>)]\<rparr>,
     cg_context = \<lparr>ck_model_id = 1, ck_tokenizer_id = 2, ck_block_size = 16, ck_dtype = FP16,
       ck_num_layers = 3, ck_num_kv_heads = 4, ck_head_dim = 5, ck_rope_config_hash = 6,
       ck_kv_layout_hash = 7\<rparr>,
     cg_policies = \<lparr>pl_admission = ''always_admit'', pl_eviction = ''lru'',
       pl_tier_placement = ''gpu_first'', pl_promotion = ''no_promotion'',
       pl_demotion = ''no_demotion'', pl_routing = ''random'', pl_replica_selection = ''first'',
       pl_prefetch = ''none'', pl_latency = ''constant''\<rparr>,
     cg_latency = \<lparr>lg_model = ''constant'', lg_params = \<lparr>lp_local_lookup_ns = 1,
       lp_tier_access_ns = 2, lp_migration_ns = 3, lp_network_fetch_ns = 4\<rparr>\<rparr>,
     cg_workload = \<lparr>wc_kind = ''w'', wc_seed = 42, wc_requests = 10\<rparr>,
     cg_output = \<lparr>oc_events_path = ''e'', oc_decisions_path = ''d'', oc_stats_path = ''s''\<rparr>\<rparr>"

theorem config_roundtrip_witness:
  "\<exists>ts. parse_config tree_lib (render_config tree_build demo_config) =
      Inr (demo_config\<lparr>cg_cache := (cg_cache demo_config)\<lparr>cx_tiers := ts\<rparr>\<rparr>) \<and>
    map_of ts = map_of (cx_tiers (cg_cache demo_config))"
  by (rule config_roundtrip) (simp add: demo_config_def)

text \<open>C31: the registry makes its policies exactly when each of the nine names is one it knows;
  any other configuration is refused with a \<open>runtime_error\<close> and no policy.\<close>

theorem registry_accepts_known_names:
  "((\<exists>r. registry_from_config cfg params = Inr r) \<longleftrightarrow>
     pl_admission cfg = ''always_admit'' \<and> pl_eviction cfg \<in> {''lru'', ''prefix_aware''} \<and>
     pl_tier_placement cfg = ''gpu_first'' \<and> pl_promotion cfg = ''no_promotion'' \<and>
     pl_demotion cfg = ''no_demotion'' \<and> pl_routing cfg \<in> {''random'', ''hash_first_block''} \<and>
     pl_replica_selection cfg = ''first'' \<and> pl_prefetch cfg = ''none'' \<and>
     pl_latency cfg \<in> {''constant'', ''bandwidth''}) \<and>
   ((\<nexists>r. registry_from_config cfg params = Inr r) \<longleftrightarrow>
     (\<exists>msg. registry_from_config cfg params = Inl (Runtime_error msg)))"
  by (auto simp: registry_from_config_def outcome_bind_def make_admission_def make_eviction_def
      make_tier_placement_def make_promotion_def make_demotion_def make_routing_def
      make_replica_selection_def make_prefetch_def make_latency_def unknown_policy_def
      split: if_splits)

end
