(* ===== verification/Spec2Isabelle.thy ===== *)
theory Spec2Isabelle
  imports Bench_Compare Span Block_Lifecycle Tier_Scans Admission_Errors Config_Props
begin

text \<open>
  Verification development of the distributed KV cache (C++, \<open>src/\<close> and \<open>apps/\<close> of the
  repository).

  The program. A worker keeps the key/value blocks of language model prompts and reuses them when a
  later prompt starts with the same tokens. \<open>BlockManager\<close> owns the slots of the cache: a
  \<open>BlockPool\<close> of slots with generations, a \<open>BlockStore\<close> with one record per slot, and the state
  machine of a block (free, admitting or fetching, ready, migrating, evicting). A \<open>BlockHandle\<close> pins
  a block by its reference count. \<open>PrefixIndex\<close> is a radix tree from (context hash, tokens) to block
  ids, and \<open>PrefixLookupEngine\<close> joins it with the manager. \<open>TierManager\<close> places blocks in memory
  tiers and their bytes in a \<open>PayloadStore\<close>. The admission, eviction, promotion and demotion
  controllers change all of these together, as the policies decide, and report to event sinks and
  decision loggers. \<open>LocalCache\<close> is one worker's composition. The coordinator maps content hashes
  to the workers that announced them; a request runs through \<open>RequestPipeline\<close>: local lookup, plan of
  the missing blocks, remote fetch over the transport, admission of what came, assembly of the result.
  \<open>apps/kvcache_bench.cc\<close> drives the whole system.

  Conventions. An object is a record of its members, a method a function of that record. A method
  that may throw returns an outcome, \<open>Inl\<close> of the exception or \<open>Inr\<close> of the result, together with
  the state at that moment, so partial effects of a throwing call are visible; handles that the stack
  holds are destroyed on the way out (\<open>on_throw\<close>). Unsigned integers are
  words of their width, and wrap. References between objects are resolved by the owner: a function
  takes the records of all objects it touches, so aliasing is that of the code (\<open>tier_link\<close> says
  whether a tier manager works on its cache's store or on another one). \<open>while\<close> loops over the radix
  tree are partial functions into an option, where None stands for a loop that does not return.

  The theories, with the code each one models.
    \<^item> \<open>Prelude\<close>: words, exceptions, sequencing, shared lemmas. \<open>Span\<close>: \<open>core/span.h\<close>. \<open>Ids\<close>:
      \<open>core/ids.h\<close>, \<open>dtype\<close>, \<open>cache_key\<close>, \<open>block_candidate\<close>, \<open>clock\<close>, \<open>tier/tier\<close>.
      \<open>Content_Hash\<close>: \<open>core/content_hash\<close>.
    \<^item> \<open>Block_Pool\<close>, \<open>Block_Store\<close> (with the handles), \<open>Block_Manager\<close>: the files of these names under
      \<open>core/\<close>. \<open>Block_Lifecycle\<close> is the manager as a step relation with the handles and references its
      clients hold.
    \<^item> \<open>Prefix_Index\<close>, \<open>Prefix_Engine\<close>: \<open>prefix/\<close>. The proofs on the tree are in \<open>Prefix_Wf\<close>
      (invariant), \<open>Prefix_Steps\<close>, \<open>Prefix_Split\<close>, \<open>Prefix_Insert\<close> (elementary changes),
      \<open>Prefix_Refine\<close> (refinement of the map \<open>block_at\<close>), \<open>Prefix_Counts\<close> and \<open>Prefix_Props\<close> (the
      interface as a locale, interpreted on the index).
    \<^item> \<open>Payload_Store\<close>, \<open>Tier\<close>, \<open>Tier_Props\<close>: \<open>tier/\<close>.
    \<^item> \<open>Policy\<close>: \<open>policy/\<close>, all interfaces, features and policies; \<open>Double\<close>: the floating point
      parts of two of them. \<open>Sim\<close>: \<open>sim/\<close>, events, decisions and their JSON lines.
    \<^item> \<open>Controllers\<close>: \<open>controller/\<close>. \<open>Local_Cache\<close>: \<open>core/local_cache\<close>. Their properties are in
      \<open>Eviction\<close>, \<open>Admission\<close>, \<open>Admission_Errors\<close> and \<open>Cache_Props\<close>; for a cache with tiers in
      \<open>Tier_Eviction\<close> (eviction), \<open>Tiered_Cache\<close> (make space and admit) and \<open>Tier_Scans\<close> (the two
      scans).
    \<^item> \<open>Coordinator\<close>: \<open>coordinator/\<close>. \<open>Pipeline\<close>: \<open>transport/\<close>, \<open>worker/\<close>, \<open>pipeline/\<close>, with
      \<open>Request_Plan\<close> and \<open>Request_Path\<close> for the properties of a request.
    \<^item> \<open>Config\<close>, \<open>Config_Props\<close>: \<open>config/\<close> and \<open>policy/policy_registry\<close>.
    \<^item> \<open>Bench\<close>, \<open>Bench_Output\<close>: \<open>apps/kvcache_bench.cc\<close>, the program and what it prints. Its
      properties are in \<open>Bench_Props\<close> and, for the comparison of policies run to its end, \<open>Bench_Compare\<close>.

  What the lemmas show.
    \<^item> Blocks: in every reachable state a handle refers to a live slot of its own generation, the
      reference count is the number of handles, a pinned block is not evicted, a generation is never
      handed out twice, and a reference to a freed block never hits again.
    \<^item> Index: every operation returns and keeps the tree well-formed; insertion, lookup and removal
      act as those of a partial map from paths to blocks; the counts count cached extensions.
    \<^item> Cache: \<open>cache_inv\<close> (manager and index agree, indexed blocks are ready) is kept by lookup,
      eviction and admission; eviction takes only ready, unpinned blocks and succeeds exactly when
      there are enough; each outcome of \<open>admit\<close> is described with the condition it comes under, and a block admitted is found by the
      next lookup.
    \<^item> Cache with tiers: \<open>tiered_inv\<close> (\<open>cache_inv\<close>, the placement invariant, and each ready block
      placed) is kept by eviction, admission and the scans. Making space refines the same call on the
      cache without tiers (\<open>untiered\<close> is the abstraction); an admitted block is placed in the tier
      asked for, with its bytes stored, and on a consistent cache the error path behind a full tier,
      which throws, is not reached. A scan moves the blocks the policy wants moved until the tier they
      go to is full, and changes nothing else.
    \<^item> Request: the plan covers exactly the blocks the lookup did not return, fetched blocks are
      planned ones, and the result is the prefix that is cached when the pipeline ends.
    \<^item> Benchmark: its candidates are the planned blocks, its arguments are read back as given, and the
      comparison of policies prints the same counts for both, as for any policy that evicts when it
      can: an invariant between requests
      (four shared blocks cached and unpinned, another block to evict) carries it through all of them.
    \<^item> Where the code falls short, a theorem gives the run: an admission that evicts an ancestor
      of its own block, a result with a gap, an error path that throws, a plan that ignores the prefix,
      a transition that leaves the free state without the pool.

  Bounds. Requests have less than 2^32 tokens and references name workers by their position, as
  the code's casts need. Node indices of the tree are below \<open>invalid_node\<close>: an insertion of k blocks
  adds at most 2 k nodes, so the theorems ask for \<open>node_count + 2 k\<close> below it, and a request of n
  blocks for \<open>node_count + n (2 n + 3)\<close>. No fuel is used: the loops return by their invariants
  (the tree is acyclic and finite), the others recurse on a list or a number of rounds.

  Parameters. The XXH3 hash functions are arguments, unconstrained except in the statements on
  collisions, which hold for every function. The JSON library is given by its accessors with the laws
  that reading returns what was written. Random numbers are drawn by an argument with a state. The
  order in which unordered maps are visited is the order of the association list that models them,
  and the properties that could depend on it hold for every order. Doubles are rationals rounded as
  IEEE 754 does in the finite range.

  Not modelled. Opening and flushing of streams, and the text form of a JSON value, are input and
  output only. The event sinks of the benchmark's workers share one stream in the code; here each
  worker has its own sink, which the counters do not notice. Constructors that only store references
  are the arguments of the functions. Template hash specialisations of the identifiers have no
  counterpart, since the maps here need none. The program is single-threaded (its comments plan locks, but
  there are none), so steps are sequential. The request theorems are for workers
  without tiers. The theorems on \<open>tiered_inv\<close> are for a tier manager that works on the store of its
  own cache; the constructor of \<open>LocalCache\<close> that takes a tier manager cannot give it that store,
  which is a finding of its own. One value stands for all reads of the clock during a call or a request.
  The step relation of \<open>Block_Lifecycle\<close> has no transition out of the free state, which no caller
  makes and which breaks the manager (\<open>free_transition_bypasses_pool\<close>). Obligations of a client that
  the code does not check are stated where they are needed: \<open>run_ok\<close> for insertions into the index,
  \<open>placements_ok\<close> for the tiers; \<open>doubly_indexed_block_stays\<close> and \<open>placed_twice\<close> show what happens
  without them.
\<close>

end
